(* ===== verification/Vrtc_Prelude.thy ===== *)
theory Vrtc_Prelude
  imports
    Complex_Main
    "HOL-Library.List_Lexorder"
    "HOL-Library.Char_ord"
    "HOL-Library.Sublist"
    "HOL-Library.Signed_Division"
begin

text \<open>
  Shared ground of the development: Go's error values, its 64-bit integers and its float to
  integer conversion, instants and durations, strings, and the generic facts on lists, sums and
  maps the components rely on. Nothing here models a file of the repository; it models the parts
  of the Go language and of its standard library (errors, fmt, os, strings) that the repository
  uses.
\<close>

subsection \<open>Collections of rewrite rules\<close>

named_theorems go_simps \<open>evaluation of the Go primitives\<close>

subsection \<open>Instants and durations\<close>

text \<open>
  An instant (\<^verbatim>\<open>time.Time\<close> read in UTC) is the number of nanoseconds since the zero time of Go,
  January 1 of year 1, 00:00:00 UTC, so that \<^verbatim>\<open>t.IsZero()\<close> is \<open>t = 0\<close>, \<^verbatim>\<open>a.Before(b)\<close> is \<open>a < b\<close>
  and \<^verbatim>\<open>a.After(b)\<close> is \<open>b < a\<close>. A duration is a number of nanoseconds. The monotonic reading
  and the location of a \<^verbatim>\<open>time.Time\<close> play no role in the code modelled here.
\<close>

type_synonym instant = int
type_synonym duration = int

abbreviation (input) zero_time :: instant where "zero_time \<equiv> 0"

definition Millisecond :: duration where [go_simps]: "Millisecond = 1000000"
definition Second :: duration where [go_simps]: "Second = 1000000000"
definition Minute :: duration where [go_simps]: "Minute = 60 * Second"
definition Hour :: duration where [go_simps]: "Hour = 60 * Minute"
definition Day :: duration where [go_simps]: "Day = 24 * Hour"

subsection \<open>64-bit integers\<close>

definition wrap64 :: "int \<Rightarrow> int" where
  "wrap64 x = (x + 2 ^ 63) mod 2 ^ 64 - 2 ^ 63"

definition fits64 :: "int \<Rightarrow> bool" where
  "fits64 x \<longleftrightarrow> - (2 ^ 63) \<le> x \<and> x < 2 ^ 63"

text \<open>\<^verbatim>\<open>a.Sub(b)\<close> of two instants saturates at the ends of the duration range.\<close>

definition time_Sub :: "instant \<Rightarrow> instant \<Rightarrow> duration" where
  "time_Sub a b = max (- (2 ^ 63)) (min (2 ^ 63 - 1) (a - b))"

text \<open>
  A \<^verbatim>\<open>float64\<close> read from a configuration is a rational number. \<^verbatim>\<open>int64(x)\<close> drops the fraction; out
  of range it is the most negative integer, which is what the amd64 conversion instruction gives.
\<close>

definition trunc :: "rat \<Rightarrow> int" where
  "trunc x = (if 0 \<le> x then \<lfloor>x\<rfloor> else \<lceil>x\<rceil>)"

definition int64_of_float :: "rat \<Rightarrow> int" where
  "int64_of_float x = (if fits64 (trunc x) then trunc x else - (2 ^ 63))"

lemma wrap64_id [simp]: "fits64 x \<Longrightarrow> wrap64 x = x"
  by (simp add: wrap64_def fits64_def)

lemma fits64_wrap64 [simp]: "fits64 (wrap64 x)"
proof -
  have "0 \<le> (x + 2 ^ 63) mod 2 ^ 64" and "(x + 2 ^ 63) mod 2 ^ 64 < (2::int) ^ 64" by simp_all
  then show ?thesis by (simp add: wrap64_def fits64_def)
qed

lemma time_Sub_eq [simp]: "fits64 (a - b) \<Longrightarrow> time_Sub a b = a - b"
  by (simp add: time_Sub_def fits64_def)

lemma time_Sub_nonneg: "b \<le> a \<Longrightarrow> 0 \<le> time_Sub a b"
  by (simp add: time_Sub_def)

subsection \<open>Error values\<close>

text \<open>
  \<^verbatim>\<open>errors.New\<close> makes a sentinel, the \<^verbatim>\<open>os\<close> package returns a \<^verbatim>\<open>*PathError\<close> with an error number, and
  \<^verbatim>\<open>fmt.Errorf\<close> with \<^verbatim>\<open>%w\<close> wraps an error between two pieces of text. The sentinels of the
  repository have pairwise different texts, so a sentinel is identified by its text.
\<close>

datatype errno = ENOENT | EACCES | ENOSPC | EOTHER

datatype go_error =
    ErrorString string
  | PathError errno string
  | WrapError string go_error string

type_synonym 'a result = "go_error + 'a"

fun error_string :: "go_error \<Rightarrow> string" where
  "error_string (ErrorString m) = m"
| "error_string (PathError n m) = m"
| "error_string (WrapError a e b) = a @ error_string e @ b"

text \<open>The sentinel of \<^verbatim>\<open>database/sql\<close>.\<close>

definition ErrNoRows :: go_error where
  "ErrNoRows = ErrorString ''sql: no rows in result set''"

text \<open>\<^verbatim>\<open>%q\<close> of an identifier without quotes, backslashes and control characters.\<close>

definition quoted :: "string \<Rightarrow> string" where
  "quoted s = CHR 0x22 # s @ [CHR 0x22]"

text \<open>\<^verbatim>\<open>errors.Is\<close> follows the chain of wrapped errors; \<^verbatim>\<open>os.IsNotExist\<close> does not.\<close>

fun errors_Is :: "go_error \<Rightarrow> go_error \<Rightarrow> bool" where
  "errors_Is (WrapError a e b) t \<longleftrightarrow> WrapError a e b = t \<or> errors_Is e t"
| "errors_Is e t \<longleftrightarrow> e = t"

fun os_IsNotExist :: "go_error \<Rightarrow> bool" where
  "os_IsNotExist (PathError n m) \<longleftrightarrow> n = ENOENT"
| "os_IsNotExist _ \<longleftrightarrow> False"

lemma errors_Is_refl [simp]: "errors_Is e e"
  by (cases e) auto

lemma errors_Is_wrap [simp]: "errors_Is e t \<Longrightarrow> errors_Is (WrapError a e b) t"
  by simp

lemma os_IsNotExist_wrap [simp]: "\<not> os_IsNotExist (WrapError a e b)"
  by simp

subsection \<open>Strings\<close>

definition has_prefix :: "string \<Rightarrow> string \<Rightarrow> bool" where
  "has_prefix s p \<longleftrightarrow> take (length p) s = p"

fun contains :: "string \<Rightarrow> string \<Rightarrow> bool" where
  "contains [] p \<longleftrightarrow> p = []"
| "contains (c # s) p \<longleftrightarrow> has_prefix (c # s) p \<or> contains s p"

lemma has_prefix_append [simp]: "has_prefix (p @ s) p"
  by (simp add: has_prefix_def)

lemma contains_append_right: "contains t p \<Longrightarrow> contains (s @ t) p"
  by (induction s) auto

lemma contains_has_prefix: "has_prefix s p \<Longrightarrow> contains s p"
  by (cases s) (auto simp: has_prefix_def)

lemma contains_prefix: "contains (p @ t) p"
  by (simp add: contains_has_prefix)

lemma contains_mid: "contains (s @ p @ t) p"
  by (simp add: contains_append_right contains_prefix)

text \<open>Unsigned decimal numbers, as \<^verbatim>\<open>%d\<close> prints them, and zero-padded to a width, as \<^verbatim>\<open>%0wd\<close> does.\<close>

definition digit_char :: "nat \<Rightarrow> char" where
  "digit_char d = char_of (48 + d)"

fun pad :: "nat \<Rightarrow> nat \<Rightarrow> string" where
  "pad 0 n = []"
| "pad (Suc w) n = pad w (n div 10) @ [digit_char (n mod 10)]"

fun dec :: "nat \<Rightarrow> string" where
  "dec n = (if n < 10 then [digit_char n] else dec (n div 10) @ [digit_char (n mod 10)])"

declare dec.simps [simp del]

definition itoa :: "int \<Rightarrow> string" where
  "itoa i = (if i < 0 then CHR ''-'' # dec (nat (- i)) else dec (nat i))"

lemma length_pad [simp]: "length (pad w n) = w"
  by (induction w arbitrary: n) auto

subsection \<open>Lists\<close>

text \<open>Keeping the elements whose flag is set, as a loop over an array and its flags does.\<close>

fun selected :: "'a list \<Rightarrow> bool list \<Rightarrow> 'a list" where
  "selected (x # xs) (b # bs) = (if b then x # selected xs bs else selected xs bs)"
| "selected _ _ = []"

lemma selected_Nil [simp]: "selected xs [] = []"
  by (cases xs) auto

lemma subseq_selected: "subseq (selected xs bs) xs"
  by (induction xs bs rule: selected.induct) auto

lemma selected_none: "list_all Not bs \<Longrightarrow> selected xs bs = []"
  by (induction xs bs rule: selected.induct) auto

lemma filter_key_unique: "distinct (map f xs) \<Longrightarrow> x \<in> set xs \<Longrightarrow> filter (\<lambda>y. f y = f x) xs = [x]"
proof (induction xs)
  case (Cons a xs)
  then have "f a \<noteq> f y \<and> f y \<noteq> f a" if "y \<in> set xs" for y using that by (auto simp: image_iff)
  with Cons show ?case by (auto simp: filter_empty_conv)
qed simp

lemma length_filter_sum_list:
  "(\<Sum>x\<leftarrow>filter P xs. f x) + (\<Sum>x\<leftarrow>filter (\<lambda>x. \<not> P x) xs. f x) = (\<Sum>x\<leftarrow>xs. (f x :: int))"
  by (induction xs) auto

end
