(* ===== verification/Timestamps.thy ===== *)
theory Timestamps
  imports Vrtc_Prelude
begin

text \<open>
  Wall-clock time as the repository writes and reads it: the calendar behind Go's
  \<^verbatim>\<open>time.Time\<close>, the layouts the code formats with (\<^verbatim>\<open>time.RFC3339Nano\<close> for the recording index,
  \<^verbatim>\<open>20060102T150405.000Z\<close> for segment identifiers, \<^verbatim>\<open>2006-01-02\<close> and \<^verbatim>\<open>150405\<close> for segment paths),
  the RFC 3339 parser, and the segment file names of \<^verbatim>\<open>pkg/recorder/namer.go\<close>. The facts shown are
  the round trip of the index's timestamps and how far the byte order of the strings, which is
  what SQLite compares, agrees with the order of the instants.
\<close>

subsection \<open>The calendar\<close>

definition is_leap :: "int \<Rightarrow> bool" where
  "is_leap y \<longleftrightarrow> y mod 4 = 0 \<and> (y mod 100 \<noteq> 0 \<or> y mod 400 = 0)"

definition month_lens :: "int \<Rightarrow> int list" where
  "month_lens y = [31, if is_leap y then 29 else 28, 31, 30, 31, 30, 31, 31, 30, 31, 30, 31]"

text \<open>
  A day counted from January 1 of year 1, cut into whole cycles of 400, 100, 4 and 1 years and
  the day of the year, and from these the year and the day of the year.
\<close>

definition cycles :: "int \<Rightarrow> int \<times> int \<times> int \<times> int \<times> int" where
  "cycles d =
     (let a = d div 146097; d1 = d mod 146097;
          b = min 3 (d1 div 36524); d2 = d1 - 36524 * b;
          c = d2 div 1461; d3 = d2 mod 1461;
          e = min 3 (d3 div 365)
      in (a, b, c, e, d3 - 365 * e))"

definition year_yday :: "int \<Rightarrow> int \<times> int" where
  "year_yday d = (case cycles d of (a, b, c, e, r) \<Rightarrow> (400 * a + 100 * b + 4 * c + e + 1, r))"

fun month_day :: "int list \<Rightarrow> int \<Rightarrow> int \<times> int" where
  "month_day [] d = (1, d + 1)"
| "month_day (l # ls) d =
     (if d < l then (1, d + 1) else (let (m, k) = month_day ls (d - l) in (m + 1, k)))"

definition civil :: "int \<Rightarrow> int \<times> int \<times> int" where
  "civil d = (let (y, yd) = year_yday d; (m, k) = month_day (month_lens y) yd in (y, m, k))"

definition days_before_year :: "int \<Rightarrow> int" where
  "days_before_year y = 365 * (y - 1) + (y - 1) div 4 - (y - 1) div 100 + (y - 1) div 400"

definition days_from_civil :: "int \<Rightarrow> int \<Rightarrow> int \<Rightarrow> int" where
  "days_from_civil y m d =
     days_before_year y + sum_list (take (nat (m - 1)) (month_lens y)) + d - 1"

subsection \<open>Fields of an instant\<close>

definition unix_sec :: "instant \<Rightarrow> int" where "unix_sec t = t div 1000000000"
definition nanos :: "instant \<Rightarrow> nat" where "nanos t = nat (t mod 1000000000)"
definition t_year :: "instant \<Rightarrow> int" where "t_year t = fst (civil (unix_sec t div 86400))"
definition t_month :: "instant \<Rightarrow> nat" where "t_month t = nat (fst (snd (civil (unix_sec t div 86400))))"
definition t_day :: "instant \<Rightarrow> nat" where "t_day t = nat (snd (snd (civil (unix_sec t div 86400))))"
definition t_hour :: "instant \<Rightarrow> nat" where "t_hour t = nat (unix_sec t mod 86400 div 3600)"
definition t_minute :: "instant \<Rightarrow> nat" where "t_minute t = nat (unix_sec t mod 3600 div 60)"
definition t_second :: "instant \<Rightarrow> nat" where "t_second t = nat (unix_sec t mod 60)"

text \<open>The instants from year 1 to year 9999, whose timestamps have four digits of year.\<close>

definition fmt_range :: "instant \<Rightarrow> bool" where
  "fmt_range t \<longleftrightarrow> 0 \<le> t \<and> t < 315537897600 * 1000000000"

subsection \<open>Layouts\<close>

definition pad4 :: "nat \<Rightarrow> string" where
  "pad4 n = (if n < 10000 then pad 4 n else dec n)"

definition fmt_year :: "int \<Rightarrow> string" where
  "fmt_year y = (if y < 0 then CHR ''-'' # pad4 (nat (- y)) else pad4 (nat y))"

definition fmt_date :: "instant \<Rightarrow> string" where
  "fmt_date t = fmt_year (t_year t) @ ''-'' @ pad 2 (t_month t) @ ''-'' @ pad 2 (t_day t)"

definition fmt_clock :: "instant \<Rightarrow> string" where
  "fmt_clock t = pad 2 (t_hour t) @ '':'' @ pad 2 (t_minute t) @ '':'' @ pad 2 (t_second t)"

text \<open>The part of an RFC 3339 timestamp down to the second.\<close>

definition fmt_second :: "instant \<Rightarrow> string" where
  "fmt_second t = fmt_date t @ ''T'' @ fmt_clock t"

definition strip_zeros :: "string \<Rightarrow> string" where
  "strip_zeros s = rev (dropWhile (\<lambda>c. c = CHR ''0'') (rev s))"

definition fmt_frac :: "nat \<Rightarrow> string" where
  "fmt_frac n = (let s = strip_zeros (pad 9 n) in if s = [] then [] else CHR ''.'' # s)"

definition fmt_RFC3339Nano :: "instant \<Rightarrow> string" where
  "fmt_RFC3339Nano t = fmt_second t @ fmt_frac (nanos t) @ ''Z''"

definition fmt_compact_day :: "instant \<Rightarrow> string" where
  "fmt_compact_day t = fmt_year (t_year t) @ pad 2 (t_month t) @ pad 2 (t_day t)"

definition fmt_150405 :: "instant \<Rightarrow> string" where
  "fmt_150405 t = pad 2 (t_hour t) @ pad 2 (t_minute t) @ pad 2 (t_second t)"

text \<open>\<^verbatim>\<open>20060102T150405.000Z\<close>, with the milliseconds cut off, and \<^verbatim>\<open>20060102T150405Z\<close>.\<close>

definition fmt_compact_ms :: "instant \<Rightarrow> string" where
  "fmt_compact_ms t =
     fmt_compact_day t @ ''T'' @ fmt_150405 t @ ''.'' @ pad 3 (nanos t div 1000000) @ ''Z''"

definition fmt_compact :: "instant \<Rightarrow> string" where
  "fmt_compact t = fmt_compact_day t @ ''T'' @ fmt_150405 t @ ''Z''"

subsection \<open>The RFC 3339 parser\<close>

definition digit_val :: "char \<Rightarrow> nat option" where
  "digit_val c = (let n = of_char c in if 48 \<le> n \<and> n \<le> 57 then Some (n - 48) else None)"

fun digits_val :: "nat \<Rightarrow> string \<Rightarrow> nat option" where
  "digits_val x [] = Some x"
| "digits_val x (c # s) =
     (case digit_val c of None \<Rightarrow> None | Some d \<Rightarrow> digits_val (10 * x + d) s)"

definition parse_uint :: "string \<Rightarrow> nat \<Rightarrow> nat \<Rightarrow> nat option" where
  "parse_uint s lo hi =
     (case digits_val 0 s of None \<Rightarrow> None | Some x \<Rightarrow> if lo \<le> x \<and> x \<le> hi then Some x else None)"

definition days_in :: "nat \<Rightarrow> nat \<Rightarrow> nat" where
  "days_in m y = nat (month_lens (int y) ! (m - 1))"

definition slice :: "string \<Rightarrow> nat \<Rightarrow> nat \<Rightarrow> string" where
  "slice s a b = take (b - a) (drop a s)"

text \<open>The fraction of a second: the leading digits after a point, cut off after nine.\<close>

definition parse_nanos :: "string \<Rightarrow> nat" where
  "parse_nanos ds =
     (let d9 = take 9 ds in the (digits_val 0 d9) * 10 ^ (9 - length d9))"

definition parse_frac :: "string \<Rightarrow> nat \<times> string" where
  "parse_frac s =
     (case s of CHR ''.'' # r \<Rightarrow>
        (let ds = takeWhile (\<lambda>c. digit_val c \<noteq> None) r
         in if ds = [] then (0, s) else (parse_nanos ds, dropWhile (\<lambda>c. digit_val c \<noteq> None) r))
      | _ \<Rightarrow> (0, s))"

definition parse_zone :: "string \<Rightarrow> int option" where
  "parse_zone s =
     (if s = ''Z'' then Some 0
      else if length s \<noteq> 6 then None
      else case (parse_uint (slice s 1 3) 0 23, parse_uint (slice s 4 6) 0 59) of
        (Some hr, Some mm) \<Rightarrow>
          if (s ! 0 = CHR ''-'' \<or> s ! 0 = CHR ''+'') \<and> s ! 3 = CHR '':''
          then Some ((if s ! 0 = CHR ''-'' then - 1 else 1) * int ((hr * 60 + mm) * 60))
          else None
      | _ \<Rightarrow> None)"

definition parse_fields :: "string \<Rightarrow> (nat \<times> nat \<times> nat \<times> nat \<times> nat \<times> nat) option" where
  "parse_fields s =
     (case (parse_uint (slice s 0 4) 0 9999, parse_uint (slice s 5 7) 1 12) of
        (Some y, Some m) \<Rightarrow>
          (case (parse_uint (slice s 8 10) 1 (days_in m y), parse_uint (slice s 11 13) 0 23,
                 parse_uint (slice s 14 16) 0 59, parse_uint (slice s 17 19) 0 59) of
             (Some d, Some h, Some mi, Some se) \<Rightarrow> Some (y, m, d, h, mi, se)
           | _ \<Rightarrow> None)
      | _ \<Rightarrow> None)"

definition parse_RFC3339 :: "string \<Rightarrow> instant option" where
  "parse_RFC3339 s =
     (if length s < 19 then None
      else case parse_fields s of
        None \<Rightarrow> None
      | Some (y, m, d, h, mi, se) \<Rightarrow>
          if s ! 4 = CHR ''-'' \<and> s ! 7 = CHR ''-'' \<and> s ! 10 = CHR ''T'' \<and> s ! 13 = CHR '':'' \<and>
             s ! 16 = CHR '':'' then
            (let (ns, r) = parse_frac (drop 19 s)
             in case parse_zone r of
                  None \<Rightarrow> None
                | Some off \<Rightarrow>
                    Some ((days_from_civil (int y) (int m) (int d) * 86400
                      + int h * 3600 + int mi * 60 + int se - off) * 1000000000 + int ns))
          else None)"

text \<open>
  \<^verbatim>\<open>time.Parse\<close> with an RFC 3339 layout tries this parser and, where it fails, the general parser
  that walks the layout (it accepts one-digit hours, a comma before the fraction and offsets up
  to 24:60). The general parser is the argument \<open>general\<close>.
\<close>

definition time_Parse :: "(string \<Rightarrow> instant option) \<Rightarrow> string \<Rightarrow> instant option" where
  "time_Parse general s = (case parse_RFC3339 s of Some t \<Rightarrow> Some t | None \<Rightarrow> general s)"

subsection \<open>Segment file names\<close>

text \<open>\<^verbatim>\<open>pkg/recorder/namer.go\<close>: the file of a segment in progress, and of a completed one.\<close>

definition SegmentPath :: "string \<Rightarrow> string \<Rightarrow> instant \<Rightarrow> string" where
  "SegmentPath base channelID startTime =
     base @ ''/'' @ channelID @ ''/'' @ fmt_date startTime @ ''/'' @ pad 2 (t_hour startTime) @ ''/'' @
     fmt_150405 startTime @ ''.fmp4''"

definition SegmentPathFinal :: "string \<Rightarrow> string \<Rightarrow> instant \<Rightarrow> instant \<Rightarrow> string" where
  "SegmentPathFinal base channelID startTime endTime =
     base @ ''/'' @ channelID @ ''/'' @ fmt_date startTime @ ''/'' @ pad 2 (t_hour startTime) @ ''/'' @
     fmt_150405 startTime @ ''_'' @ fmt_150405 endTime @ ''.fmp4''"

subsection \<open>Calendar facts\<close>

lemma greedy_lex:
  fixes d d' c k :: int
  assumes "d < d'" and "0 < c"
  shows "min k (d div c) < min k (d' div c) \<or>
    min k (d div c) = min k (d' div c) \<and> d - c * min k (d div c) < d' - c * min k (d' div c)"
proof -
  have "d div c \<le> d' div c" using assms(1,2) by (simp add: zdiv_mono1)
  then have "min k (d div c) \<le> min k (d' div c)" by auto
  then show ?thesis using assms(1) by (cases "min k (d div c) = min k (d' div c)") auto
qed

lemma div_lex:
  fixes d d' c :: int
  assumes "d < d'" and "0 < c"
  shows "d div c < d' div c \<or> d div c = d' div c \<and> d mod c < d' mod c"
proof -
  have "d div c \<le> d' div c" using assms by (simp add: zdiv_mono1)
  moreover have "d div c = d' div c \<Longrightarrow> d mod c < d' mod c"
    using assms by (metis add_less_cancel_left mult_div_mod_eq)
  ultimately show ?thesis by linarith
qed

lemma cycles_eqs:
  assumes "cycles d = (a, b, c, e, r)"
  obtains d1 d2 d3 where "d1 = d mod 146097" "d2 = d1 - 36524 * b" "d3 = d2 mod 1461"
    and "a = d div 146097" "b = min 3 (d1 div 36524)" "c = d2 div 1461"
    and "e = min 3 (d3 div 365)" "r = d3 - 365 * e"
proof -
  define d1 where "d1 = d mod 146097"
  define b' where "b' = min 3 (d1 div 36524)"
  define d2 where "d2 = d1 - 36524 * b'"
  define d3 where "d3 = d2 mod 1461"
  define e' where "e' = min 3 (d3 div 365)"
  have "cycles d = (d div 146097, b', d2 div 1461, e', d3 - 365 * e')"
    unfolding cycles_def Let_def d1_def b'_def d2_def d3_def e'_def ..
  then have eqs: "a = d div 146097" "b = b'" "c = d2 div 1461" "e = e'" "r = d3 - 365 * e'"
    unfolding assms prod.inject by blast+
  show thesis
  proof (rule that)
    show "d1 = d mod 146097" by (fact d1_def)
    show "d2 = d1 - 36524 * b" unfolding eqs by (fact d2_def)
    show "d3 = d2 mod 1461" by (fact d3_def)
    show "a = d div 146097" by (fact eqs)
    show "b = min 3 (d1 div 36524)" unfolding eqs by (fact b'_def)
    show "c = d2 div 1461" by (fact eqs)
    show "e = min 3 (d3 div 365)" unfolding eqs by (fact e'_def)
    show "r = d3 - 365 * e" unfolding eqs by (rule refl)
  qed
qed

lemma cycles_bounds:
  assumes "cycles d = (a, b, c, e, r)"
  shows "a = d div 146097" and "d = 146097 * a + 36524 * b + 1461 * c + 365 * e + r"
    and "0 \<le> b" "b \<le> 3" "0 \<le> c" "c \<le> 24" "0 \<le> e" "e \<le> 3" "0 \<le> r" "r \<le> 365"
    and "r = 365 \<Longrightarrow> e = 3" and "c = 24 \<Longrightarrow> r = 365 \<Longrightarrow> b = 3"
proof -
  obtain d1 d2 d3 where d1_def: "d1 = d mod 146097" and d2_def: "d2 = d1 - 36524 * b"
    and d3_def: "d3 = d2 mod 1461" and eqs: "a = d div 146097" "b = min 3 (d1 div 36524)"
    "c = d2 div 1461" "e = min 3 (d3 div 365)" "r = d3 - 365 * e"
    using assms by (rule cycles_eqs)
  have d1: "0 \<le> d1" "d1 < 146097" by (simp_all add: d1_def)
  have d2: "0 \<le> d2" "d2 \<le> 36524" "b < 3 \<Longrightarrow> d2 < 36524"
    using d1 unfolding d2_def eqs by (auto simp: min_def)
  have d3: "0 \<le> d3" "d3 < 1461" by (simp_all add: d3_def)
  have sum2: "d2 = 1461 * c + d3" by (simp add: eqs d3_def)
  show "a = d div 146097" by (fact eqs)
  show b: "0 \<le> b" "b \<le> 3" using d1 by (simp_all add: eqs)
  show c: "0 \<le> c" "c \<le> 24" using d2 by (simp_all add: eqs)
  show e: "0 \<le> e" "e \<le> 3" using d3 by (simp_all add: eqs)
  show r: "0 \<le> r" "r \<le> 365" and r3: "r = 365 \<Longrightarrow> e = 3"
    using d3 unfolding eqs by (auto simp: min_def split: if_splits)
  have "d = 146097 * a + d1" by (simp add: eqs d1_def)
  then show "d = 146097 * a + 36524 * b + 1461 * c + 365 * e + r"
    using sum2 by (simp add: d2_def eqs(5))
  assume "c = 24" "r = 365"
  then have "d2 = 36524" using sum2 r3 eqs(5) by simp
  then show "b = 3" using d2(3) b by fastforce
qed

lemma year_yday_mono:
  assumes "d < d'"
  shows "fst (year_yday d) < fst (year_yday d') \<or>
    fst (year_yday d) = fst (year_yday d') \<and> snd (year_yday d) < snd (year_yday d')"
proof -
  obtain a b c e r where C: "cycles d = (a, b, c, e, r)" by (cases "cycles d") auto
  obtain a' b' c' e' r' where C': "cycles d' = (a', b', c', e', r')" by (cases "cycles d'") auto
  obtain d1 d2 d3 where D: "d1 = d mod 146097" "d2 = d1 - 36524 * b" "d3 = d2 mod 1461"
    and E: "a = d div 146097" "b = min 3 (d1 div 36524)" "c = d2 div 1461"
    "e = min 3 (d3 div 365)" "r = d3 - 365 * e"
    using C by (rule cycles_eqs)
  obtain d1' d2' d3' where D': "d1' = d' mod 146097" "d2' = d1' - 36524 * b'" "d3' = d2' mod 1461"
    and E': "a' = d' div 146097" "b' = min 3 (d1' div 36524)" "c' = d2' div 1461"
    "e' = min 3 (d3' div 365)" "r' = d3' - 365 * e'"
    using C' by (rule cycles_eqs)
  have s1: "a < a' \<or> a = a' \<and> d1 < d1'"
    unfolding E(1) E'(1) D(1) D'(1) using div_lex[OF assms] by simp
  have s2: "b < b' \<or> b = b' \<and> d2 < d2'" if "d1 < d1'"
    unfolding D(2) D'(2) unfolding E(2) E'(2) by (rule greedy_lex[OF that]) simp
  have s3: "c < c' \<or> c = c' \<and> d3 < d3'" if "d2 < d2'"
    unfolding E(3) E'(3) D(3) D'(3) using div_lex[OF that] by simp
  have s4: "e < e' \<or> e = e' \<and> r < r'" if "d3 < d3'"
    unfolding E(5) E'(5) unfolding E(4) E'(4) by (rule greedy_lex[OF that]) simp
  consider "a < a'" | "a = a'" "b < b'" | "a = a'" "b = b'" "c < c'"
    | "a = a'" "b = b'" "c = c'" "e < e'" | "a = a'" "b = b'" "c = c'" "e = e'" "r < r'"
    using s1 s2 s3 s4 by blast
  then have "400 * a + 100 * b + 4 * c + e < 400 * a' + 100 * b' + 4 * c' + e' \<or>
    400 * a + 100 * b + 4 * c + e = 400 * a' + 100 * b' + 4 * c' + e' \<and> r < r'"
    using cycles_bounds(3-8)[OF C] cycles_bounds(3-8)[OF C'] by cases linarith+
  then show ?thesis by (auto simp: year_yday_def C C')
qed

lemma sum_list_month_lens: "sum_list (month_lens y) = (if is_leap y then 366 else 365)"
  by (simp add: month_lens_def)

lemma year_yday_bounds:
  assumes "year_yday d = (y, yd)"
  shows "0 \<le> yd" and "yd < sum_list (month_lens y)" and "days_before_year y + yd = d"
    and "0 \<le> d \<Longrightarrow> 1 \<le> y" and "d < 3652059 \<Longrightarrow> y < 10000"
proof -
  obtain a b c e r where C: "cycles d = (a, b, c, e, r)" by (cases "cycles d") auto
  note B = cycles_bounds[OF C]
  have y: "y = 400 * a + 100 * b + 4 * c + e + 1" and yd: "yd = r"
    using assms by (simp_all add: year_yday_def C)
  have q4: "(y - 1) div 4 = 100 * a + 25 * b + c" using B(3-8) y by linarith
  have q100: "(y - 1) div 100 = 4 * a + b" using B(3-8) y by linarith
  have q400: "(y - 1) div 400 = a" using B(3-8) y by linarith
  show "0 \<le> yd" using B yd by simp
  show "days_before_year y + yd = d"
    unfolding days_before_year_def q4 q100 q400 using B(2) y yd by simp
  have "is_leap y" if "r = 365"
  proof -
    have e: "e = 3" using B(11) that .
    then have "y = 4 * (100 * a + 25 * b + c + 1)" by (simp add: y)
    then have m4: "y mod 4 = 0" by simp
    show ?thesis
    proof (cases "c = 24")
      case True
      then have "b = 3" using B(12) that by simp
      then have "y = 400 * (a + 1)" using y e True by simp
      then show ?thesis using m4 by (simp add: is_leap_def)
    next
      case False
      then have "c \<le> 23" using B(6) by simp
      then have "y = (4 * c + 4) + 100 * (4 * a + b)" using y e by simp
      then have "y mod 100 = (4 * c + 4) mod 100" by (simp only: mod_mult_self2)
      then have "y mod 100 = 4 * c + 4" using \<open>c \<le> 23\<close> B(5) by simp
      then show ?thesis using m4 B(5) by (simp add: is_leap_def)
    qed
  qed
  then show "yd < sum_list (month_lens y)"
    using B(10) yd by (cases "r = 365") (auto simp: sum_list_month_lens)
  show "0 \<le> d \<Longrightarrow> 1 \<le> y" using B(1,3,5,7) y by simp
  assume "d < 3652059"
  then have "a \<le> 24" using B(1) by linarith
  then show "y < 10000" using B(2-9) y \<open>d < 3652059\<close> by linarith
qed

lemma month_day_bounds:
  assumes "month_day ls d = (m, k)" and "0 \<le> d" and "d < sum_list ls" and "\<forall>l\<in>set ls. 0 < l"
  shows "1 \<le> m \<and> nat (m - 1) < length ls \<and> 1 \<le> k \<and> k \<le> ls ! nat (m - 1) \<and>
    sum_list (take (nat (m - 1)) ls) + k - 1 = d"
  using assms
proof (induction ls d arbitrary: m k rule: month_day.induct)
  case (1 d)
  then show ?case by simp
next
  case (2 l ls d)
  show ?case
  proof (cases "d < l")
    case True
    then show ?thesis using 2 by auto
  next
    case False
    obtain m' k' where mk: "month_day ls (d - l) = (m', k')" by fastforce
    then have eq: "m = m' + 1" "k = k'" using 2(2) False by auto
    have "1 \<le> m' \<and> nat (m' - 1) < length ls \<and> 1 \<le> k' \<and> k' \<le> ls ! nat (m' - 1) \<and>
      sum_list (take (nat (m' - 1)) ls) + k' - 1 = d - l"
      using 2(1)[OF False mk] 2(3,4,5) False by simp
    moreover from this have "nat m' = Suc (nat (m' - 1))" by arith
    ultimately show ?thesis by (simp add: eq)
  qed
qed

lemma month_day_mono:
  assumes "d < d'"
  shows "fst (month_day ls d) < fst (month_day ls d') \<or>
    fst (month_day ls d) = fst (month_day ls d') \<and> snd (month_day ls d) < snd (month_day ls d')"
  using assms
proof (induction ls d arbitrary: d' rule: month_day.induct)
  case (1 d)
  then show ?case by simp
next
  case (2 l ls d)
  have ge: "1 \<le> fst (month_day ls x)" for x
    by (induction ls x rule: month_day.induct) (auto simp: Let_def split: prod.split)
  show ?case
  proof (cases "d < l")
    case True
    then show ?thesis using 2(2) ge[of "d' - l"] by (auto simp: Let_def split: prod.split)
  next
    case False
    then show ?thesis using 2(1)[of "d' - l"] 2(2) by (auto simp: Let_def split: prod.split)
  qed
qed

lemma month_lens_pos: "\<forall>l\<in>set (month_lens y). 0 < l" and length_month_lens: "length (month_lens y) = 12"
  by (auto simp: month_lens_def)

lemma civil_bounds:
  assumes "civil d = (y, m, k)"
  shows "1 \<le> m" and "m \<le> 12" and "1 \<le> k" and "k \<le> month_lens y ! nat (m - 1)"
    and "days_from_civil y m k = d" and "0 \<le> d \<Longrightarrow> 1 \<le> y" and "d < 3652059 \<Longrightarrow> y < 10000"
proof -
  obtain yd where y: "year_yday d = (y, yd)" and mk: "month_day (month_lens y) yd = (m, k)"
    using assms by (auto simp: civil_def Let_def split: prod.splits)
  note Y = year_yday_bounds[OF y]
  have M: "1 \<le> m \<and> nat (m - 1) < length (month_lens y) \<and> 1 \<le> k \<and> k \<le> month_lens y ! nat (m - 1) \<and>
    sum_list (take (nat (m - 1)) (month_lens y)) + k - 1 = yd"
    using month_day_bounds[OF mk Y(1,2) month_lens_pos] .
  then show "1 \<le> m" "m \<le> 12" "1 \<le> k" "k \<le> month_lens y ! nat (m - 1)"
    by (auto simp: length_month_lens)
  show "days_from_civil y m k = d" using M Y(3) by (simp add: days_from_civil_def)
  show "0 \<le> d \<Longrightarrow> 1 \<le> y" "d < 3652059 \<Longrightarrow> y < 10000" by (fact Y(4), fact Y(5))
qed

lemma civil_mono:
  assumes "d < d'" "civil d = (y, m, k)" "civil d' = (y', m', k')"
  shows "y < y' \<or> y = y' \<and> (m < m' \<or> m = m' \<and> k < k')"
proof -
  obtain yd where y: "year_yday d = (y, yd)" "month_day (month_lens y) yd = (m, k)"
    using assms(2) by (auto simp: civil_def Let_def split: prod.splits)
  obtain yd' where y': "year_yday d' = (y', yd')" "month_day (month_lens y') yd' = (m', k')"
    using assms(3) by (auto simp: civil_def Let_def split: prod.splits)
  have "y < y' \<or> y = y' \<and> yd < yd'" using year_yday_mono[OF assms(1)] y(1) y'(1) by simp
  moreover have "m < m' \<or> m = m' \<and> k < k'" if "y = y'" "yd < yd'"
    using month_day_mono[OF that(2), of "month_lens y"] y(2) y'(2) that(1) by simp
  ultimately show ?thesis by blast
qed

subsection \<open>Order of padded numbers\<close>

lemma digit_char_less: "a < b \<Longrightarrow> b < 10 \<Longrightarrow> digit_char a < digit_char b"
  by (simp add: digit_char_def less_char_def)

lemma append_less_prefix: "length xs = length ys \<Longrightarrow> xs < ys \<Longrightarrow> xs @ us < ys @ (vs :: string)"
  by (induction xs ys rule: list_induct2) auto

lemma append_less_same [simp]: "xs @ us < xs @ (vs :: string) \<longleftrightarrow> us < vs"
  by (induction xs) auto

lemma pad_less: "a < b \<Longrightarrow> b < 10 ^ w \<Longrightarrow> pad w a < pad w b"
proof (induction w arbitrary: a b)
  case 0
  then show ?case by simp
next
  case (Suc w)
  show ?case
  proof (cases "a div 10 = b div 10")
    case True
    then have "a mod 10 < b mod 10" using Suc.prems(1)
      by (metis add_less_cancel_left mult_div_mod_eq)
    then show ?thesis using True by (simp add: digit_char_less)
  next
    case False
    then have "a div 10 < b div 10" using Suc.prems(1) by (simp add: div_le_mono le_neq_implies_less)
    then have "pad w (a div 10) < pad w (b div 10)"
      using Suc.IH Suc.prems(2) by (simp add: mult.commute less_mult_imp_div_less)
    then show ?thesis by (simp add: append_less_prefix)
  qed
qed

lemma pad_field_less: "a < b \<Longrightarrow> b < 10 ^ w \<Longrightarrow> pad w a @ u < pad w b @ v"
  by (rule append_less_prefix) (simp_all add: pad_less)

subsection \<open>Order of timestamps\<close>

lemma fmt_range_day: "fmt_range t \<Longrightarrow> 0 \<le> unix_sec t div 86400 \<and> unix_sec t div 86400 < 3652059"
  by (auto simp: fmt_range_def unix_sec_def)

lemma fields_range:
  assumes "fmt_range t"
  shows "1 \<le> t_year t" "t_year t < 10000" "1 \<le> t_month t" "t_month t \<le> 12" "1 \<le> t_day t"
    "int (t_day t) \<le> month_lens (t_year t) ! (t_month t - 1)"
    "days_from_civil (t_year t) (int (t_month t)) (int (t_day t)) = unix_sec t div 86400"
proof -
  obtain y m k where c: "civil (unix_sec t div 86400) = (y, m, k)" by (metis prod_cases3)
  note B = civil_bounds[OF c]
  show "1 \<le> t_year t" "t_year t < 10000" "1 \<le> t_month t" "t_month t \<le> 12" "1 \<le> t_day t"
    using B fmt_range_day[OF assms] by (auto simp: t_year_def t_month_def t_day_def c)
  show "int (t_day t) \<le> month_lens (t_year t) ! (t_month t - 1)"
    using B(1,3,4) by (simp add: t_year_def t_month_def t_day_def c nat_diff_distrib)
  show "days_from_civil (t_year t) (int (t_month t)) (int (t_day t)) = unix_sec t div 86400"
    using B(1,3,5) by (simp add: t_year_def t_month_def t_day_def c)
qed

lemma t_day_le: "fmt_range t \<Longrightarrow> t_day t \<le> 31"
proof -
  assume r: "fmt_range t"
  have "l \<le> 31" if "l \<in> set (month_lens y)" for l y using that by (auto simp: month_lens_def)
  moreover have "month_lens (t_year t) ! (t_month t - 1) \<in> set (month_lens (t_year t))"
    using fields_range(3,4)[OF r] by (intro nth_mem) (simp add: length_month_lens)
  ultimately have "month_lens (t_year t) ! (t_month t - 1) \<le> 31" by blast
  then show ?thesis using fields_range(6)[OF r] by linarith
qed

lemma clock_range: "t_hour t \<le> 23" "t_minute t \<le> 59" "t_second t \<le> 59"
proof -
  have "unix_sec t mod 86400 < 86400" "unix_sec t mod 3600 < 3600" by simp_all
  then show "t_hour t \<le> 23" "t_minute t \<le> 59" "t_second t \<le> 59"
    unfolding t_hour_def t_minute_def t_second_def by simp_all
qed

lemma clock_sum: "int (t_hour t) * 3600 + int (t_minute t) * 60 + int (t_second t) = unix_sec t mod 86400"
proof -
  define x where "x = unix_sec t mod 86400"
  have x: "0 \<le> x" "unix_sec t mod 3600 = x mod 3600" "unix_sec t mod 60 = x mod 60"
    by (simp_all add: x_def mod_mod_cancel)
  have "x mod 60 = x mod 3600 mod 60" by (simp add: mod_mod_cancel)
  moreover have "int (t_hour t) = x div 3600" "int (t_minute t) = x mod 3600 div 60"
    "int (t_second t) = x mod 60"
    using x(1) unfolding t_hour_def t_minute_def t_second_def x(2,3)
    by (simp_all add: x_def pos_imp_zdiv_nonneg_iff)
  ultimately show ?thesis
    unfolding x_def[symmetric]
    using div_mult_mod_eq[of x 3600] div_mult_mod_eq[of "x mod 3600" 60] by linarith
qed

lemma fmt_second_eq:
  assumes "fmt_range t"
  shows "fmt_second t = pad 4 (nat (t_year t)) @ CHR ''-'' # pad 2 (t_month t) @ CHR ''-'' #
    pad 2 (t_day t) @ CHR ''T'' # pad 2 (t_hour t) @ CHR '':'' # pad 2 (t_minute t) @ CHR '':'' #
    pad 2 (t_second t)"
proof -
  have "nat (t_year t) < 10000" "0 \<le> t_year t" using fields_range(1,2)[OF assms] by simp_all
  then show ?thesis by (simp add: fmt_second_def fmt_date_def fmt_year_def pad4_def fmt_clock_def)
qed

lemma length_fmt_second [simp]: "fmt_range t \<Longrightarrow> length (fmt_second t) = 19"
  by (simp add: fmt_second_eq)

lemma clock_mono:
  assumes "unix_sec t mod 86400 < unix_sec t' mod 86400"
  shows "t_hour t < t_hour t' \<or> t_hour t = t_hour t' \<and>
    (t_minute t < t_minute t' \<or> t_minute t = t_minute t' \<and> t_second t < t_second t')"
  using assms clock_range[of t] clock_range[of t'] unfolding clock_sum[symmetric] by linarith

lemma civil_fields:
  assumes "fmt_range t" "civil (unix_sec t div 86400) = (y, m, k)"
  shows "t_year t = y" "int (t_month t) = m" "int (t_day t) = k"
  using civil_bounds(1,3)[OF assms(2)] assms(2) by (auto simp: t_year_def t_month_def t_day_def)

lemma fmt_second_mono:
  assumes r: "fmt_range t" "fmt_range t'" and less: "unix_sec t < unix_sec t'"
  shows "fmt_second t < fmt_second t'"
proof -
  obtain y m k where c: "civil (unix_sec t div 86400) = (y, m, k)" by (metis prod_cases3)
  obtain y' m' k' where c': "civil (unix_sec t' div 86400) = (y', m', k')" by (metis prod_cases3)
  note F = civil_fields[OF r(1) c] civil_fields[OF r(2) c']
  have day: "unix_sec t div 86400 < unix_sec t' div 86400 \<or>
    unix_sec t div 86400 = unix_sec t' div 86400 \<and> unix_sec t mod 86400 < unix_sec t' mod 86400"
    using div_lex[OF less] by simp
  have date: "t_year t < t_year t' \<or> t_year t = t_year t' \<and>
      (t_month t < t_month t' \<or> t_month t = t_month t' \<and> t_day t < t_day t')"
    if "unix_sec t div 86400 < unix_sec t' div 86400" using civil_mono[OF that c c'] F by linarith
  have same: "t_year t = t_year t'" "t_month t = t_month t'" "t_day t = t_day t'"
    if "unix_sec t div 86400 = unix_sec t' div 86400" using that c c' F by simp_all
  have b: "nat (t_year t') < 10 ^ 4" "t_month t' < 10 ^ 2" "t_day t' < 10 ^ 2"
    "t_hour t' < 10 ^ 2" "t_minute t' < 10 ^ 2" "t_second t' < 10 ^ 2"
    using fields_range(1,2,4)[OF r(2)] t_day_le[OF r(2)] clock_range[of t'] by simp_all
  consider "t_year t < t_year t'"
    | "t_year t = t_year t'" "t_month t < t_month t'"
    | "t_year t = t_year t'" "t_month t = t_month t'" "t_day t < t_day t'"
    | "t_year t = t_year t'" "t_month t = t_month t'" "t_day t = t_day t'" "t_hour t < t_hour t'"
    | "t_year t = t_year t'" "t_month t = t_month t'" "t_day t = t_day t'" "t_hour t = t_hour t'"
      "t_minute t < t_minute t'"
    | "t_year t = t_year t'" "t_month t = t_month t'" "t_day t = t_day t'" "t_hour t = t_hour t'"
      "t_minute t = t_minute t'" "t_second t < t_second t'"
    using day date same clock_mono[of t t'] by blast
  then show ?thesis
  proof cases
    case 1
    then have "nat (t_year t) < nat (t_year t')" using fields_range(1)[OF r(2)] by simp
    then show ?thesis
      unfolding fmt_second_eq[OF r(1)] fmt_second_eq[OF r(2)] using b(1) by (rule pad_field_less)
  qed (simp_all only: fmt_second_eq[OF r(1)] fmt_second_eq[OF r(2)] append_less_same Cons_less_Cons
      less_irrefl simp_thms pad_field_less pad_less b)
qed

lemma fmt_RFC3339Nano_mono:
  assumes "fmt_range t" "fmt_range t'" and "unix_sec t < unix_sec t'"
  shows "fmt_RFC3339Nano t < fmt_RFC3339Nano t'"
  unfolding fmt_RFC3339Nano_def
  by (rule append_less_prefix) (simp_all add: assms fmt_second_mono)

text \<open>The string order never strays from the time order by a second or more.\<close>

lemma fmt_RFC3339Nano_skew:
  assumes "fmt_range t" "fmt_range t'" and "fmt_RFC3339Nano t \<le> fmt_RFC3339Nano t'"
  shows "t < t' + Second"
proof -
  have "\<not> unix_sec t' < unix_sec t" using fmt_RFC3339Nano_mono[OF assms(2,1)] assms(3) by force
  then have "t div 1000000000 \<le> t' div 1000000000" by (simp add: unix_sec_def)
  then show ?thesis unfolding Second_def by linarith
qed

subsection \<open>Digits\<close>

lemma digit_val_digit_char [simp]: "d < 10 \<Longrightarrow> digit_val (digit_char d) = Some d"
  by (simp add: digit_val_def digit_char_def)

lemma digits_val_append:
  "digits_val x (s @ u) = (case digits_val x s of None \<Rightarrow> None | Some y \<Rightarrow> digits_val y u)"
  by (induction x s rule: digits_val.induct) (auto split: option.split)

lemma digits_val_pad: "n < 10 ^ w \<Longrightarrow> digits_val x (pad w n) = Some (x * 10 ^ w + n)"
proof (induction w arbitrary: n)
  case 0
  then show ?case by simp
next
  case (Suc w)
  then have "n div 10 < 10 ^ w" by (simp add: mult.commute less_mult_imp_div_less)
  then have "digits_val x (pad (Suc w) n) = Some (10 * (x * 10 ^ w + n div 10) + n mod 10)"
    using Suc.IH by (simp add: digits_val_append)
  also have "10 * (x * 10 ^ w + n div 10) + n mod 10 = x * 10 ^ Suc w + n"
    by (simp add: algebra_simps)
  finally show ?case .
qed

lemma parse_uint_pad: "n < 10 ^ w \<Longrightarrow> lo \<le> n \<Longrightarrow> n \<le> hi \<Longrightarrow> parse_uint (pad w n) lo hi = Some n"
  by (simp add: parse_uint_def digits_val_pad)

lemma pad_digits: "c \<in> set (pad w n) \<Longrightarrow> digit_val c \<noteq> None"
  by (induction w arbitrary: n) auto

lemma strip_zeros_split: "\<exists>k. s = strip_zeros s @ replicate k (CHR ''0'')"
proof -
  have "takeWhile (\<lambda>c. c = CHR ''0'') (rev s) = replicate (length (takeWhile (\<lambda>c. c = CHR ''0'') (rev s))) (CHR ''0'')"
    by (metis (full_types) replicate_length_same set_takeWhileD)
  moreover have "s = strip_zeros s @ rev (takeWhile (\<lambda>c. c = CHR ''0'') (rev s))"
    unfolding strip_zeros_def rev_append[symmetric] by simp
  ultimately show ?thesis by (metis rev_replicate)
qed

lemma digits_val_zeros: "digits_val x (replicate k (CHR ''0'')) = Some (x * 10 ^ k)"
  by (induction k arbitrary: x) (auto simp: digit_val_def algebra_simps)

lemma digits_val_prefix: "digits_val x (s @ u) = Some y \<Longrightarrow> \<exists>z. digits_val x s = Some z"
  by (auto simp: digits_val_append split: option.splits)

lemma parse_nanos_strip:
  assumes "n < 10 ^ 9"
  shows "parse_nanos (strip_zeros (pad 9 n)) = n"
proof -
  obtain k where k: "pad 9 n = strip_zeros (pad 9 n) @ replicate k (CHR ''0'')"
    using strip_zeros_split by blast
  have len: "length (strip_zeros (pad 9 n)) + k = 9"
    using arg_cong[OF k, of length] by simp
  have v: "digits_val 0 (strip_zeros (pad 9 n) @ replicate k (CHR ''0'')) = Some n"
    using digits_val_pad[OF assms, of 0] k by simp
  then obtain z where z: "digits_val 0 (strip_zeros (pad 9 n)) = Some z"
    using digits_val_prefix by blast
  then have "z * 10 ^ k = n" using v by (simp add: digits_val_append digits_val_zeros)
  moreover have "9 - length (strip_zeros (pad 9 n)) = k" using len by simp
  ultimately show ?thesis using len z by (simp add: parse_nanos_def)
qed

lemma strip_zeros_digits: "c \<in> set (strip_zeros (pad 9 n)) \<Longrightarrow> digit_val c \<noteq> None"
  by (metis pad_digits Un_iff set_append strip_zeros_split)

lemma strip_zeros_Nil: "n < 10 ^ 9 \<Longrightarrow> strip_zeros (pad 9 n) = [] \<Longrightarrow> n = 0"
  using parse_nanos_strip[of n] by (simp add: parse_nanos_def)

lemma parse_frac_fmt:
  assumes "n < 10 ^ 9"
  shows "parse_frac (fmt_frac n @ ''Z'') = (n, ''Z'')"
proof (cases "strip_zeros (pad 9 n) = []")
  case True
  then show ?thesis using strip_zeros_Nil[OF assms] by (simp add: fmt_frac_def parse_frac_def)
next
  case False
  have Z: "digit_val (CHR ''Z'') = None" by (simp add: digit_val_def)
  have "takeWhile (\<lambda>c. digit_val c \<noteq> None) (strip_zeros (pad 9 n) @ ''Z'') = strip_zeros (pad 9 n)"
    "dropWhile (\<lambda>c. digit_val c \<noteq> None) (strip_zeros (pad 9 n) @ ''Z'') = ''Z''"
    by (simp_all add: strip_zeros_digits takeWhile_append dropWhile_append Z)
  then show ?thesis using False parse_nanos_strip[OF assms]
    by (simp add: fmt_frac_def Let_def parse_frac_def)
qed

subsection \<open>Round trip of the index's timestamps\<close>

lemma parse_fields_fmt:
  assumes "fmt_range t"
  shows "parse_fields (fmt_second t @ u) =
    Some (nat (t_year t), t_month t, t_day t, t_hour t, t_minute t, t_second t)"
proof -
  have y: "nat (t_year t) < 10 ^ 4" "nat (t_year t) \<le> 9999" using fields_range(1,2)[OF assms] by simp_all
  have m: "1 \<le> t_month t" "t_month t \<le> 12" "t_month t < 10 ^ 2" using fields_range[OF assms] by simp_all
  have d: "1 \<le> t_day t" "t_day t \<le> days_in (t_month t) (nat (t_year t))" "t_day t < 10 ^ 2"
    using fields_range(1,3,4,5,6)[OF assms] t_day_le[OF assms] by (simp_all add: days_in_def)
  have c: "t_hour t < 10 ^ 2" "t_minute t < 10 ^ 2" "t_second t < 10 ^ 2"
    using clock_range[of t] by simp_all
  have slices: "slice (fmt_second t @ u) 0 4 = pad 4 (nat (t_year t))"
    "slice (fmt_second t @ u) 5 7 = pad 2 (t_month t)"
    "slice (fmt_second t @ u) 8 10 = pad 2 (t_day t)"
    "slice (fmt_second t @ u) 11 13 = pad 2 (t_hour t)"
    "slice (fmt_second t @ u) 14 16 = pad 2 (t_minute t)"
    "slice (fmt_second t @ u) 17 19 = pad 2 (t_second t)"
    unfolding fmt_second_eq[OF assms] slice_def by simp_all
  have "parse_uint (pad 4 (nat (t_year t))) 0 9999 = Some (nat (t_year t))"
    "parse_uint (pad 2 (t_month t)) 1 12 = Some (t_month t)"
    "parse_uint (pad 2 (t_day t)) 1 (days_in (t_month t) (nat (t_year t))) = Some (t_day t)"
    "parse_uint (pad 2 (t_hour t)) 0 23 = Some (t_hour t)"
    "parse_uint (pad 2 (t_minute t)) 0 59 = Some (t_minute t)"
    "parse_uint (pad 2 (t_second t)) 0 59 = Some (t_second t)"
    using y m d c clock_range[of t] by (intro parse_uint_pad; simp)+
  then show ?thesis unfolding parse_fields_def slices by simp
qed

lemma parse_fmt_RFC3339Nano:
  assumes "fmt_range t"
  shows "parse_RFC3339 (fmt_RFC3339Nano t) = Some t"
proof -
  let ?s = "fmt_second t @ fmt_frac (nanos t) @ ''Z''"
  have n: "nanos t < 10 ^ 9" "int (nanos t) = t mod 1000000000" by (simp_all add: nanos_def nat_less_iff)
  have seps: "?s ! 4 = CHR ''-''" "?s ! 7 = CHR ''-''" "?s ! 10 = CHR ''T''" "?s ! 13 = CHR '':''"
    "?s ! 16 = CHR '':''"
    unfolding fmt_second_eq[OF assms] by (simp_all add: nth_append)
  have d19: "drop 19 ?s = fmt_frac (nanos t) @ ''Z''" using assms by simp
  have y: "int (nat (t_year t)) = t_year t" using fields_range(1)[OF assms] by simp
  have tm: "days_from_civil (int (nat (t_year t))) (int (t_month t)) (int (t_day t)) * 86400
      + int (t_hour t) * 3600 + int (t_minute t) * 60 + int (t_second t) = unix_sec t"
    unfolding y using fields_range(7)[OF assms] clock_sum[of t] div_mult_mod_eq[of "unix_sec t" 86400]
    by linarith
  have "unix_sec t * 1000000000 + int (nanos t) = t"
    using n(2) div_mult_mod_eq[of t 1000000000] by (simp add: unix_sec_def)
  then show ?thesis
    unfolding fmt_RFC3339Nano_def parse_RFC3339_def parse_fields_fmt[OF assms] d19
      parse_frac_fmt[OF n(1)]
    using assms seps tm by (simp add: parse_zone_def)
qed

text \<open>Within a second the order is inverted: a whole second sorts after all of its fractions.\<close>

lemma fmt_RFC3339Nano_inverted:
  assumes "fmt_range t" and "t mod Second = 0" and "0 < f" and "f < Second"
  shows "fmt_RFC3339Nano (t + f) < fmt_RFC3339Nano t"
proof -
  have f: "(t + f) div 1000000000 = t div 1000000000" "(t + f) mod 1000000000 = f" "t mod 1000000000 = 0"
  proof -
    obtain q where q: "t = 1000000000 * q" using assms(2) by (auto simp: Second_def dvd_eq_mod_eq_0[symmetric])
    have "f div 1000000000 = 0" "f mod 1000000000 = f" using assms(3,4) by (simp_all add: Second_def)
    then show "(t + f) div 1000000000 = t div 1000000000" "(t + f) mod 1000000000 = f"
      "t mod 1000000000 = 0" by (simp_all add: q)
  qed
  have sec: "fmt_second (t + f) = fmt_second t"
    by (simp add: fmt_second_def fmt_date_def fmt_clock_def t_year_def t_month_def t_day_def
        t_hour_def t_minute_def t_second_def unix_sec_def f(1))
  have n: "nanos t = 0" "nanos (t + f) = nat f" by (simp_all add: nanos_def f)
  have "strip_zeros (pad 9 (nat f)) \<noteq> []"
    using strip_zeros_Nil[of "nat f"] assms(3,4) by (auto simp: Second_def nat_less_iff)
  then have frac: "fmt_frac (nat f) = CHR ''.'' # strip_zeros (pad 9 (nat f))" "fmt_frac 0 = []"
    by (simp add: fmt_frac_def Let_def) code_simp
  have "CHR ''.'' < CHR ''Z''" by (simp add: less_char_def)
  then show ?thesis
    unfolding fmt_RFC3339Nano_def sec n frac append_less_same
    by (simp only: append_Cons append_Nil Cons_less_Cons simp_thms)
qed

subsection \<open>Timestamps in names determine the instant they were made from\<close>

lemma pad_inj: "pad w a = pad w b \<Longrightarrow> a < 10 ^ w \<Longrightarrow> b < 10 ^ w \<Longrightarrow> a = b"
  by (metis digits_val_pad add_left_cancel option.inject)

lemma fields_inj:
  assumes "fmt_range t" "fmt_range t'"
    and "t_year t = t_year t'" "t_month t = t_month t'" "t_day t = t_day t'"
    and "t_hour t = t_hour t'" "t_minute t = t_minute t'" "t_second t = t_second t'"
  shows "unix_sec t = unix_sec t'"
proof -
  have "unix_sec t div 86400 = unix_sec t' div 86400"
    using fields_range(7)[OF assms(1)] fields_range(7)[OF assms(2)] assms(3-5) by simp
  moreover have "unix_sec t mod 86400 = unix_sec t' mod 86400"
    using clock_sum[of t] clock_sum[of t'] assms(6-8) by simp
  ultimately show ?thesis by (metis div_mult_mod_eq)
qed

lemma fmt_year_pad:
  assumes "fmt_range t"
  shows "fmt_year (t_year t) = pad 4 (nat (t_year t))" "nat (t_year t) < 10 ^ 4"
proof -
  show "nat (t_year t) < 10 ^ 4" using fields_range(1,2)[OF assms] by simp
  then show "fmt_year (t_year t) = pad 4 (nat (t_year t))"
    using fields_range(1)[OF assms] by (simp add: fmt_year_def pad4_def)
qed

lemma year_inj:
  "fmt_range t \<Longrightarrow> fmt_range t' \<Longrightarrow> pad 4 (nat (t_year t)) = pad 4 (nat (t_year t')) \<Longrightarrow> t_year t = t_year t'"
  using fields_range(1) fmt_year_pad(2)
  by (metis One_nat_def eq_nat_nat_iff fields_range(1) int_one_le_iff_zero_less order_less_le pad_inj)

lemma two_digits:
  assumes "fmt_range t"
  shows "t_month t < 10 ^ 2" "t_day t < 10 ^ 2" "t_hour t < 10 ^ 2" "t_minute t < 10 ^ 2"
    "t_second t < 10 ^ 2"
  using fields_range(4)[OF assms] t_day_le[OF assms] clock_range[of t] by simp_all

lemma compact_inj:
  assumes r: "fmt_range t" "fmt_range t'"
    and eq: "fmt_compact_day t @ c # fmt_150405 t @ u = fmt_compact_day t' @ c # fmt_150405 t' @ u'"
  shows "unix_sec t = unix_sec t'" and "u = u'"
proof -
  have 1: "pad 4 (nat (t_year t)) = pad 4 (nat (t_year t')) \<and> pad 2 (t_month t) = pad 2 (t_month t') \<and>
    pad 2 (t_day t) = pad 2 (t_day t') \<and> pad 2 (t_hour t) = pad 2 (t_hour t') \<and>
    pad 2 (t_minute t) = pad 2 (t_minute t') \<and> pad 2 (t_second t) = pad 2 (t_second t') \<and> u = u'"
    using eq r by (simp add: fmt_compact_day_def fmt_150405_def fmt_year_pad(1) append_eq_append_conv)
  then show "u = u'" by simp
  show "unix_sec t = unix_sec t'"
    using 1 two_digits[OF r(1)] two_digits[OF r(2)] r
    by (intro fields_inj year_inj) (auto intro: pad_inj)
qed

lemma fmt_compact_ms_inj:
  assumes r: "fmt_range t" "fmt_range t'" and eq: "fmt_compact_ms t = fmt_compact_ms t'"
  shows "t div Millisecond = t' div Millisecond"
proof -
  have "fmt_compact_day t @ CHR ''T'' # fmt_150405 t @ (''.'' @ pad 3 (nanos t div 1000000) @ ''Z'') =
    fmt_compact_day t' @ CHR ''T'' # fmt_150405 t' @ (''.'' @ pad 3 (nanos t' div 1000000) @ ''Z'')"
    using eq by (simp add: fmt_compact_ms_def)
  note J = compact_inj[OF r this]
  have ms: "nanos t div 1000000 < 10 ^ 3" "nanos t' div 1000000 < 10 ^ 3"
    by (simp_all add: nanos_def nat_less_iff less_mult_imp_div_less)
  have "nanos t div 1000000 = nanos t' div 1000000" using J(2) ms by (auto intro: pad_inj)
  moreover have "x div 1000000 = unix_sec x * 1000 + int (nanos x div 1000000)" for x :: instant
  proof -
    have "int (nanos x div 1000000) = x mod 1000000000 div 1000000" by (simp add: nanos_def zdiv_int)
    moreover have "x div 1000000000 = x div 1000000 div 1000" by (simp add: zdiv_zmult2_eq[symmetric])
    moreover have "x mod 1000000000 div 1000000 = x div 1000000 mod 1000"
    proof -
      have "x mod (1000000 * 1000) = 1000000 * (x div 1000000 mod 1000) + x mod 1000000"
        by (rule zmod_zmult2_eq) simp
      moreover have "(1000000 * (x div 1000000 mod 1000) + x mod 1000000) div 1000000 =
        x div 1000000 mod 1000" by simp
      ultimately show ?thesis by simp
    qed
    ultimately show ?thesis by (simp add: unix_sec_def)
  qed
  ultimately show ?thesis using J(1) by (simp add: Millisecond_def)
qed

subsection \<open>Segment paths are unique\<close>

lemma split_at_slash:
  assumes "ch @ CHR ''/'' # r = ch' @ CHR ''/'' # r'" "CHR ''/'' \<notin> set ch" "CHR ''/'' \<notin> set ch'"
  shows "ch = ch' \<and> r = r'"
  using assms
proof (induction ch arbitrary: ch')
  case Nil
  then show ?case by (cases ch') auto
next
  case (Cons c ch)
  then show ?case by (cases ch') auto
qed

lemma fmt_date_clock_inj:
  assumes r: "fmt_range t" "fmt_range t'"
    and eq: "fmt_date t @ CHR ''/'' # pad 2 (t_hour t) @ CHR ''/'' # fmt_150405 t @ u =
      fmt_date t' @ CHR ''/'' # pad 2 (t_hour t') @ CHR ''/'' # fmt_150405 t' @ u'"
  shows "unix_sec t = unix_sec t'" and "u = u'"
proof -
  have 1: "pad 4 (nat (t_year t)) = pad 4 (nat (t_year t')) \<and> pad 2 (t_month t) = pad 2 (t_month t') \<and>
    pad 2 (t_day t) = pad 2 (t_day t') \<and> pad 2 (t_hour t) = pad 2 (t_hour t') \<and>
    pad 2 (t_minute t) = pad 2 (t_minute t') \<and> pad 2 (t_second t) = pad 2 (t_second t') \<and> u = u'"
    using eq r by (simp add: fmt_date_def fmt_150405_def fmt_year_pad(1) append_eq_append_conv)
  then show "u = u'" by simp
  show "unix_sec t = unix_sec t'"
    using 1 two_digits[OF r(1)] two_digits[OF r(2)] r
    by (intro fields_inj year_inj) (auto intro: pad_inj)
qed

text \<open>
  Two segments in progress under one base directory that have the same file path belong to
  the same channel and started in the same second, for channel identifiers without a slash and
  start times from year 1 to 9999.
\<close>

theorem SegmentPath_unique:
  assumes "SegmentPath base ch t = SegmentPath base ch' t'"
    and "CHR ''/'' \<notin> set ch" and "CHR ''/'' \<notin> set ch'" and "fmt_range t" and "fmt_range t'"
  shows "ch = ch' \<and> unix_sec t = unix_sec t'"
proof -
  let ?r = "\<lambda>t. fmt_date t @ CHR ''/'' # pad 2 (t_hour t) @ CHR ''/'' # fmt_150405 t @ ''.fmp4''"
  have "ch @ CHR ''/'' # ?r t = ch' @ CHR ''/'' # ?r t'" using assms(1) by (simp add: SegmentPath_def)
  then have "ch = ch'" and "?r t = ?r t'" using split_at_slash[OF _ assms(2,3)] by blast+
  then show ?thesis using fmt_date_clock_inj(1)[OF assms(4,5)] by blast
qed

theorem SegmentPath_unique_witness:
  "SegmentPath ''/data'' ''cam-1'' (63910287000 * Second) = SegmentPath ''/data'' ''cam-1'' (63910287000 * Second + 5) \<and>
   ''cam-1'' = ''cam-1'' \<and> unix_sec (63910287000 * Second) = unix_sec (63910287000 * Second + 5)"
proof -
  have eq: "SegmentPath ''/data'' ''cam-1'' (63910287000 * Second) =
      SegmentPath ''/data'' ''cam-1'' (63910287000 * Second + 5)" by code_simp
  have r: "fmt_range (63910287000 * Second)" "fmt_range (63910287000 * Second + 5)"
    by (simp_all add: fmt_range_def Second_def)
  show ?thesis using SegmentPath_unique[OF eq _ _ r] eq by simp
qed

lemma SegmentPathFinal_not_in_progress: "SegmentPathFinal base ch t e \<noteq> SegmentPath base ch t"
proof
  assume "SegmentPathFinal base ch t e = SegmentPath base ch t"
  then have "length (SegmentPathFinal base ch t e) = length (SegmentPath base ch t)" by simp
  then show False by (simp add: SegmentPathFinal_def SegmentPath_def fmt_150405_def)
qed

end
