(* ===== verification/Recording_Types.thy ===== *)
theory Recording_Types
  imports Timestamps
begin

text \<open>
  The data of \<^verbatim>\<open>pkg/recorder/index.go\<close>: recording entries, their status values, seek entries and the
  two sentinel errors of the index.
\<close>

definition ErrNoRecordings :: go_error where
  "ErrNoRecordings = ErrorString ''no playable recordings found''"

definition ErrAllCorrupted :: go_error where
  "ErrAllCorrupted = ErrorString ''all recordings are corrupted''"

definition StatusRecording :: string where "StatusRecording = ''recording''"
definition StatusComplete :: string where "StatusComplete = ''complete''"
definition StatusInterrupted :: string where "StatusInterrupted = ''interrupted''"
definition StatusDeleted :: string where "StatusDeleted = ''deleted''"
definition StatusCorrupted :: string where "StatusCorrupted = ''corrupted''"

lemmas status_defs [go_simps] =
  StatusRecording_def StatusComplete_def StatusInterrupted_def StatusDeleted_def StatusCorrupted_def

lemma status_distinct:
  "distinct [StatusRecording, StatusComplete, StatusInterrupted, StatusDeleted, StatusCorrupted]"
  by (simp add: status_defs)

lemma status_neq [simp]:
  "StatusComplete \<noteq> StatusRecording" "StatusInterrupted \<noteq> StatusRecording"
  "StatusDeleted \<noteq> StatusRecording" "StatusRecording \<noteq> StatusDeleted"
  "StatusComplete \<noteq> StatusDeleted" "StatusInterrupted \<noteq> StatusDeleted"
  "StatusComplete \<noteq> StatusCorrupted" "StatusInterrupted \<noteq> StatusCorrupted"
  "StatusRecording \<noteq> StatusComplete" "StatusRecording \<noteq> StatusInterrupted"
  by (simp_all add: status_defs)

lemma index_errors_neq [simp]: "ErrNoRecordings \<noteq> ErrAllCorrupted" "ErrAllCorrupted \<noteq> ErrNoRecordings"
  by (simp_all add: ErrNoRecordings_def ErrAllCorrupted_def)

record RecordingEntry =
  re_ID :: string
  re_ChannelID :: string
  re_StartTime :: instant
  re_EndTime :: instant
  re_FilePath :: string
  re_SizeBytes :: int
  re_Status :: string
  re_HasMotion :: bool
  re_HasObjects :: bool
  re_HasEvents :: bool

record SeekEntry =
  se_DTSMS :: int
  se_ByteOffset :: int

text \<open>
  The interface \<^verbatim>\<open>RecordingIndex\<close> as a record of its methods over a state \<open>'ix\<close>; the context argument
  of the methods is dropped. Every method returns its result and the new state.
\<close>

record 'ix RecordingIndex =
  ix_Insert :: "RecordingEntry \<Rightarrow> 'ix \<Rightarrow> unit result \<times> 'ix"
  ix_QueryByChannel :: "string \<Rightarrow> instant \<Rightarrow> instant \<Rightarrow> 'ix \<Rightarrow> RecordingEntry list result \<times> 'ix"
  ix_FirstAvailable :: "string \<Rightarrow> 'ix \<Rightarrow> RecordingEntry result \<times> 'ix"
  ix_LastAvailable :: "string \<Rightarrow> 'ix \<Rightarrow> RecordingEntry result \<times> 'ix"
  ix_Delete :: "string \<Rightarrow> 'ix \<Rightarrow> unit result \<times> 'ix"
  ix_QueryAllChannels :: "instant \<Rightarrow> instant \<Rightarrow> 'ix \<Rightarrow> RecordingEntry list result \<times> 'ix"
  ix_SealInterrupted :: "'ix \<Rightarrow> unit result \<times> 'ix"
  ix_Close :: "'ix \<Rightarrow> unit result \<times> 'ix"

text \<open>The entries playback and retention may see.\<close>

definition playable :: "RecordingEntry \<Rightarrow> bool" where
  "playable e \<longleftrightarrow> re_Status e \<notin> {StatusRecording, StatusDeleted, StatusCorrupted}"

text \<open>
  The contents of an index: per channel, the entry stored under each identifier. \<open>storable\<close> entries
  have times in the years 1 to 9999; an index keeps \<open>stored e\<close> of an entry \<open>e\<close>, without the flag
  \<^verbatim>\<open>HasEvents\<close>, for which there is no column.
\<close>

type_synonym index_view = "string \<Rightarrow> string \<rightharpoonup> RecordingEntry"

definition storable :: "RecordingEntry \<Rightarrow> bool" where
  "storable e \<longleftrightarrow> fmt_range (re_StartTime e) \<and> fmt_range (re_EndTime e)"

definition stored :: "RecordingEntry \<Rightarrow> RecordingEntry" where
  "stored e = e\<lparr>re_HasEvents := False\<rparr>"

definition put_entry :: "RecordingEntry \<Rightarrow> index_view \<Rightarrow> index_view" where
  "put_entry e v = v(re_ChannelID e := (v (re_ChannelID e))(re_ID e \<mapsto> stored e))"

definition mark_deleted :: "string \<Rightarrow> string \<Rightarrow> index_view \<Rightarrow> index_view" where
  "mark_deleted ch i v =
    v(ch := (v ch)(i := map_option (\<lambda>e. e\<lparr>re_Status := StatusDeleted\<rparr>) (v ch i)))"

definition seal_entry :: "RecordingEntry \<Rightarrow> RecordingEntry" where
  "seal_entry e = (if re_Status e = StatusRecording then e\<lparr>re_Status := StatusInterrupted\<rparr> else e)"

subsection \<open>The contract of a recording index\<close>

text \<open>
  What the clients of \<^verbatim>\<open>RecordingIndex\<close> rely on, over a view of the contents and the set of channels
  whose store is \<open>opened\<close>. A failing call leaves the view as it was; a deletion reaches the opened
  channels only and there at most one entry.
\<close>

locale recording_index =
  fixes ops :: "'ix RecordingIndex"
    and inv :: "'ix \<Rightarrow> bool"
    and view :: "'ix \<Rightarrow> index_view"
    and opened :: "'ix \<Rightarrow> string set"
  assumes insert_law:
      "\<lbrakk>inv s; storable e; ix_Insert ops e s = (r, s')\<rbrakk> \<Longrightarrow>
         inv s' \<and> view s' = (if isl r then view s else put_entry e (view s))
         \<and> (\<not> isl r \<longrightarrow> re_ChannelID e \<in> opened s')"
    and query_law:
      "\<lbrakk>inv s; ix_QueryByChannel ops ch from to s = (q, s')\<rbrakk> \<Longrightarrow>
         inv s' \<and> view s' = view s
         \<and> (\<forall>es. q = Inr es \<longrightarrow> ch \<in> opened s' \<and> distinct (map re_ID es)
              \<and> (\<forall>e \<in> set es. view s ch (re_ID e) = Some e \<and> re_ChannelID e = ch \<and> playable e)
              \<and> (from = zero_time \<and> to = zero_time \<longrightarrow>
                   (\<forall>i e. view s ch i = Some e \<and> playable e \<longrightarrow> e \<in> set es)))"
    and delete_law:
      "\<lbrakk>inv s; ix_Delete ops i s = (r, s')\<rbrakk> \<Longrightarrow>
         inv s' \<and> opened s' = opened s
         \<and> (view s' = view s \<or> (\<exists>ch \<in> opened s. view s' = mark_deleted ch i (view s)))
         \<and> (\<not> isl r \<longrightarrow> (\<exists>ch \<in> opened s. view s ch i \<noteq> None) \<longrightarrow>
               (\<exists>ch \<in> opened s. view s ch i \<noteq> None \<and> view s' = mark_deleted ch i (view s)))"
    and view_id: "inv s \<Longrightarrow> view s ch i = Some e \<Longrightarrow> re_ID e = i \<and> re_ChannelID e = ch"
begin

text \<open>A completion that reuses the identifier of its marker leaves one entry in place of the marker.\<close>

lemma replace_entry:
  assumes "inv s" "storable m" "storable e" "re_ID m = re_ID e" "re_ChannelID m = re_ChannelID e"
    and "ix_Insert ops m s = (Inr (), s1)" and "ix_Insert ops e s1 = (Inr (), s2)"
  shows "view s2 = put_entry e (view s)"
  using insert_law [OF assms(1,2,6)] insert_law [of s1 e, OF _ assms(3,7)] assms(4,5)
  by (auto simp: put_entry_def)

text \<open>What a query has just returned, and lives in one channel only, a deletion that succeeds hides.\<close>

lemma delete_queried:
  assumes "inv s" "ix_QueryByChannel ops ch from to s = (Inr es, s1)" "e \<in> set es"
    and alone: "\<And>ch'. view s ch' (re_ID e) \<noteq> None \<Longrightarrow> ch' = ch"
    and "ix_Delete ops (re_ID e) s1 = (Inr (), s2)"
  shows "view s2 = mark_deleted ch (re_ID e) (view s)"
proof -
  from query_law [OF assms(1,2)] assms(3)
  have q: "inv s1" "view s1 = view s" "ch \<in> opened s1" "view s ch (re_ID e) \<noteq> None" by auto
  have "\<not> isl (Inr () :: unit result)" by simp
  with delete_law [OF q(1) assms(5)] q(2-4)
  obtain ch' where "view s ch' (re_ID e) \<noteq> None" "view s2 = mark_deleted ch' (re_ID e) (view s)"
    by metis
  with alone show ?thesis by blast
qed

lemma deleted_not_queried:
  assumes "inv s" "view s ch i = Some e" "re_Status e = StatusDeleted"
    and "ix_QueryByChannel ops ch from to s = (Inr es, s1)"
  shows "i \<notin> re_ID ` set es"
  using query_law [OF assms(1,4)] assms(2,3) by (force simp: playable_def)

end

end
