(* ===== verification/Record_Index.thy ===== *)
theory Record_Index
  imports Recording_Types "HOL-Library.AList"
begin

text \<open>
  The recording index of \<^verbatim>\<open>pkg/recorder/index_sqlite.go\<close>: one SQLite database per channel, kept in
  \<^verbatim>\<open><baseDir>/<channel>/index.db\<close>, with the opened databases cached and evicted when idle.

  The directory tree below \<^verbatim>\<open>baseDir\<close> with the tables of each database is part of the state; the
  SQL statements of the source are written out as operations on the tables (rows in insertion
  order, text compared bytewise). What the program does not decide is in the environment of a
  call: the clock, the failures of the file system and of the driver, the order \<^verbatim>\<open>ORDER BY\<close> gives
  rows with equal keys, and the general layout parser of \<^verbatim>\<open>time.Parse\<close>. The order of the list of
  opened databases stands for the iteration order of the Go map. A channel identifier is a single
  path component.
\<close>

subsection \<open>Tables\<close>

record recording_row =
  rr_id :: string
  rr_start_time :: string
  rr_end_time :: string
  rr_file_path :: string
  rr_size_bytes :: int
  rr_status :: string
  rr_has_motion :: int
  rr_has_objects :: int

record seek_row =
  sk_recording_id :: string
  sk_dts_ms :: int
  sk_byte_offset :: int

record database =
  db_recordings :: "recording_row list"
  db_seek_index :: "seek_row list"

datatype dir_entry = PlainFile | Directory "database option"

record sqliteIndex =
  sx_baseDir :: string
  sx_tree :: "(string \<times> dir_entry) list option"
  sx_dbs :: "string list"
  sx_lastAccess :: "string \<rightharpoonup> instant"

datatype sqlite_call =
    ReadDir | Stat string | MkdirAll string | SqlOpen string | Pragma string string
  | CreateSchema string | ExecInsert string | QueryRows string | ScanRow string | RowsErr string
  | QueryRow string | QueryCount string | ExecDelete string | ExecSeal string | CloseDB string
  | BeginTx string | Prepare string | ExecSeek string SeekEntry | Commit string
  | QuerySeek string | ExecVacuum string

record sqlite_env =
  en_now :: instant
  en_fail :: "sqlite_call \<Rightarrow> go_error option"
  en_tie :: "recording_row \<Rightarrow> nat"
  en_parse :: "string \<Rightarrow> instant option"

definition wrap :: "string \<Rightarrow> go_error \<Rightarrow> go_error" where
  "wrap m e = WrapError (''recorder sqlite: '' @ m @ '': '') e []"

subsection \<open>Opening databases\<close>

definition maxIdleDBAge :: duration where "maxIdleDBAge = 10 * Minute"
definition evictionThreshold :: nat where "evictionThreshold = 100"

definition NewSQLiteIndex :: "string \<Rightarrow> (string \<times> dir_entry) list option \<Rightarrow> sqliteIndex" where
  "NewSQLiteIndex baseDir tree = \<lparr>sx_baseDir = baseDir, sx_tree = tree, sx_dbs = [], sx_lastAccess = Map.empty\<rparr>"

definition tree_lookup :: "sqliteIndex \<Rightarrow> string \<Rightarrow> dir_entry option" where
  "tree_lookup s ch = (case sx_tree s of None \<Rightarrow> None | Some t \<Rightarrow> map_of t ch)"

definition tree_update :: "string \<Rightarrow> dir_entry \<Rightarrow> sqliteIndex \<Rightarrow> sqliteIndex" where
  "tree_update ch d s =
    s\<lparr>sx_tree := Some (AList.update ch d (case sx_tree s of None \<Rightarrow> [] | Some t \<Rightarrow> t))\<rparr>"

text \<open>The database file behind an open handle.\<close>

definition db_of :: "sqliteIndex \<Rightarrow> string \<Rightarrow> database" where
  "db_of s ch = (case tree_lookup s ch of Some (Directory (Some db)) \<Rightarrow> db
                 | _ \<Rightarrow> \<lparr>db_recordings = [], db_seek_index = []\<rparr>)"

definition put_db :: "string \<Rightarrow> database \<Rightarrow> sqliteIndex \<Rightarrow> sqliteIndex" where
  "put_db ch db s = tree_update ch (Directory (Some db)) s"

definition evictIdleLocked :: "sqlite_env \<Rightarrow> sqliteIndex \<Rightarrow> sqliteIndex" where
  "evictIdleLocked env s =
    (let cutoff = en_now env - maxIdleDBAge;
         idle = (\<lambda>ch. case sx_lastAccess s ch of Some lastAt \<Rightarrow> lastAt < cutoff | None \<Rightarrow> False)
     in s\<lparr>sx_dbs := filter (\<lambda>ch. \<not> idle ch) (sx_dbs s),
          sx_lastAccess := (\<lambda>ch. if idle ch then None else sx_lastAccess s ch)\<rparr>)"

fun execPragmas :: "sqlite_env \<Rightarrow> string \<Rightarrow> string list \<Rightarrow> unit result" where
  "execPragmas env ch [] = Inr ()"
| "execPragmas env ch (p # ps) =
    (case en_fail env (Pragma ch p) of
       Some e \<Rightarrow> Inl (wrap p e)
     | None \<Rightarrow> execPragmas env ch ps)"

text \<open>\<open>CREATE TABLE IF NOT EXISTS\<close> gives a new file two empty tables and keeps an existing one.\<close>

definition initSchema :: "sqlite_env \<Rightarrow> string \<Rightarrow> sqliteIndex \<Rightarrow> unit result \<times> sqliteIndex" where
  "initSchema env ch s =
    (case execPragmas env ch [''PRAGMA journal_mode=WAL'', ''PRAGMA busy_timeout=5000''] of
       Inl e \<Rightarrow> (Inl e, s)
     | Inr _ \<Rightarrow>
       (case en_fail env (CreateSchema ch) of
          Some e \<Rightarrow> (Inl (wrap ''create schema'' e), s)
        | None \<Rightarrow> (Inr (), put_db ch (db_of s ch) s)))"

definition makeDir :: "string \<Rightarrow> sqliteIndex \<Rightarrow> sqliteIndex" where
  "makeDir ch s = (case tree_lookup s ch of Some (Directory d) \<Rightarrow> s
                   | _ \<Rightarrow> tree_update ch (Directory None) s)"

definition getDB :: "sqlite_env \<Rightarrow> string \<Rightarrow> sqliteIndex \<Rightarrow> unit result \<times> sqliteIndex" where
  "getDB env channelID s =
    (if channelID \<in> set (sx_dbs s)
     then (Inr (), s\<lparr>sx_lastAccess := (sx_lastAccess s)(channelID \<mapsto> en_now env)\<rparr>)
     else let s = (if length (sx_dbs s) \<ge> evictionThreshold then evictIdleLocked env s else s)
     in if tree_lookup s channelID = Some PlainFile
        then (Inl (wrap (''mkdir '' @ quoted (sx_baseDir s @ ''/'' @ channelID)) (PathError EOTHER ''not a directory'')), s)
        else case en_fail env (MkdirAll channelID) of
          Some e \<Rightarrow> (Inl (wrap (''mkdir '' @ quoted (sx_baseDir s @ ''/'' @ channelID)) e), s)
        | None \<Rightarrow>
          (let s = makeDir channelID s in
           case en_fail env (SqlOpen channelID) of
             Some e \<Rightarrow> (Inl (wrap (''open '' @ quoted (sx_baseDir s @ ''/'' @ channelID @ ''/index.db'')) e), s)
           | None \<Rightarrow>
             (case initSchema env channelID s of
                (Inl e, s) \<Rightarrow> (Inl e, s)
              | (Inr _, s) \<Rightarrow>
                (Inr (), s\<lparr>sx_dbs := channelID # sx_dbs s,
                           sx_lastAccess := (sx_lastAccess s)(channelID \<mapsto> en_now env)\<rparr>))))"

subsection \<open>Rows and entries\<close>

definition boolToInt :: "bool \<Rightarrow> int" where
  "boolToInt b = (if b then 1 else 0)"

definition row_of :: "RecordingEntry \<Rightarrow> recording_row" where
  "row_of e = \<lparr>rr_id = re_ID e, rr_start_time = fmt_RFC3339Nano (re_StartTime e),
     rr_end_time = fmt_RFC3339Nano (re_EndTime e), rr_file_path = re_FilePath e,
     rr_size_bytes = re_SizeBytes e, rr_status = re_Status e,
     rr_has_motion = boolToInt (re_HasMotion e), rr_has_objects = boolToInt (re_HasObjects e)\<rparr>"

definition parse_or_zero :: "sqlite_env \<Rightarrow> string \<Rightarrow> instant" where
  "parse_or_zero env s = (case time_Parse (en_parse env) s of Some t \<Rightarrow> t | None \<Rightarrow> zero_time)"

definition entry_of :: "sqlite_env \<Rightarrow> string \<Rightarrow> recording_row \<Rightarrow> RecordingEntry" where
  "entry_of env channelID r = \<lparr>re_ID = rr_id r, re_ChannelID = channelID,
     re_StartTime = parse_or_zero env (rr_start_time r),
     re_EndTime = parse_or_zero env (rr_end_time r), re_FilePath = rr_file_path r,
     re_SizeBytes = rr_size_bytes r, re_Status = rr_status r,
     re_HasMotion = (rr_has_motion r \<noteq> 0), re_HasObjects = (rr_has_objects r \<noteq> 0),
     re_HasEvents = False\<rparr>"

definition scanRecordingRow :: "sqlite_env \<Rightarrow> string \<Rightarrow> recording_row \<Rightarrow> RecordingEntry result" where
  "scanRecordingRow env channelID r =
    (case en_fail env (ScanRow channelID) of
       Some e \<Rightarrow> Inl (wrap ''scan row'' e)
     | None \<Rightarrow> Inr (entry_of env channelID r))"

definition scanSingleRow ::
  "sqlite_env \<Rightarrow> string \<Rightarrow> recording_row result \<Rightarrow> RecordingEntry result" where
  "scanSingleRow env channelID row =
    (case row of
       Inl e \<Rightarrow> if errors_Is e ErrNoRows then Inl ErrNoRecordings
                else Inl (WrapError ''scan row: '' e [])
     | Inr r \<Rightarrow> Inr (entry_of env channelID r))"

text \<open>\<open>WHERE status NOT IN ('recording', 'deleted', 'corrupted')\<close> and \<open>ORDER BY start_time\<close>.\<close>

definition row_playable :: "recording_row \<Rightarrow> bool" where
  "row_playable r \<longleftrightarrow> rr_status r \<notin> {''recording'', ''deleted'', ''corrupted''}"

definition order_by_start :: "sqlite_env \<Rightarrow> recording_row list \<Rightarrow> recording_row list" where
  "order_by_start env rs = sort_key rr_start_time (sort_key (en_tie env) rs)"

subsection \<open>Operations\<close>

definition insert_or_replace :: "recording_row \<Rightarrow> recording_row list \<Rightarrow> recording_row list" where
  "insert_or_replace r t = filter (\<lambda>x. rr_id x \<noteq> rr_id r) t @ [r]"

definition Insert :: "sqlite_env \<Rightarrow> RecordingEntry \<Rightarrow> sqliteIndex \<Rightarrow> unit result \<times> sqliteIndex" where
  "Insert env e s =
    (case getDB env (re_ChannelID e) s of
       (Inl err, s) \<Rightarrow> (Inl err, s)
     | (Inr _, s) \<Rightarrow>
       (case en_fail env (ExecInsert (re_ChannelID e)) of
          Some err \<Rightarrow> (Inl (wrap (''insert '' @ quoted (re_ID e)) err), s)
        | None \<Rightarrow>
          (let db = db_of s (re_ChannelID e)
           in (Inr (), put_db (re_ChannelID e)
                 (db\<lparr>db_recordings := insert_or_replace (row_of e) (db_recordings db)\<rparr>) s))))"

fun scanRows :: "sqlite_env \<Rightarrow> string \<Rightarrow> recording_row list \<Rightarrow> RecordingEntry list result" where
  "scanRows env ch [] = Inr []"
| "scanRows env ch (r # rs) =
    (case scanRecordingRow env ch r of
       Inl e \<Rightarrow> Inl e
     | Inr x \<Rightarrow> (case scanRows env ch rs of Inl e \<Rightarrow> Inl e | Inr xs \<Rightarrow> Inr (x # xs)))"

definition row_selected :: "instant \<Rightarrow> instant \<Rightarrow> recording_row \<Rightarrow> bool" where
  "row_selected from to r \<longleftrightarrow> row_playable r
     \<and> (from \<noteq> zero_time \<longrightarrow> rr_end_time r \<ge> fmt_RFC3339Nano from)
     \<and> (to \<noteq> zero_time \<longrightarrow> rr_start_time r \<le> fmt_RFC3339Nano to)"

definition QueryByChannel ::
  "sqlite_env \<Rightarrow> string \<Rightarrow> instant \<Rightarrow> instant \<Rightarrow> sqliteIndex \<Rightarrow> RecordingEntry list result \<times> sqliteIndex" where
  "QueryByChannel env channelID from to s =
    (case getDB env channelID s of
       (Inl e, s) \<Rightarrow> (Inl e, s)
     | (Inr _, s) \<Rightarrow>
       (case en_fail env (QueryRows channelID) of
          Some e \<Rightarrow> (Inl (wrap (''query channel '' @ quoted channelID) e), s)
        | None \<Rightarrow>
          (case scanRows env channelID
                  (order_by_start env (filter (row_selected from to) (db_recordings (db_of s channelID)))) of
             Inl e \<Rightarrow> (Inl e, s)
           | Inr results \<Rightarrow>
             (case en_fail env (RowsErr channelID) of
                Some e \<Rightarrow> (Inl (wrap ''rows iteration'' e), s)
              | None \<Rightarrow> (Inr results, s)))))"

text \<open>\<^verbatim>\<open>os.ReadDir\<close> lists a directory by name; a loop visits the directories that hold a database.\<close>

definition readDir :: "sqlite_env \<Rightarrow> sqliteIndex \<Rightarrow> (string \<times> dir_entry) list result" where
  "readDir env s =
    (case sx_tree s of
       None \<Rightarrow> Inl (PathError ENOENT ''no such file or directory'')
     | Some t \<Rightarrow> (case en_fail env ReadDir of Some e \<Rightarrow> Inl e | None \<Rightarrow> Inr (sort_key fst t)))"

definition has_db :: "sqlite_env \<Rightarrow> string \<times> dir_entry \<Rightarrow> bool" where
  "has_db env d = (case d of (ch, Directory (Some _)) \<Rightarrow> en_fail env (Stat ch) = None | _ \<Rightarrow> False)"

fun queryDirs ::
  "sqlite_env \<Rightarrow> instant \<Rightarrow> instant \<Rightarrow> (string \<times> dir_entry) list \<Rightarrow> RecordingEntry list
     \<Rightarrow> sqliteIndex \<Rightarrow> RecordingEntry list result \<times> sqliteIndex" where
  "queryDirs env from to [] all_entries s = (Inr all_entries, s)"
| "queryDirs env from to (d # ds) all_entries s =
    (if \<not> has_db env d then queryDirs env from to ds all_entries s
     else case QueryByChannel env (fst d) from to s of
       (Inl e, s) \<Rightarrow> (Inl (wrap (''query all channel '' @ quoted (fst d)) e), s)
     | (Inr entries, s) \<Rightarrow> queryDirs env from to ds (all_entries @ entries) s)"

definition QueryAllChannels ::
  "sqlite_env \<Rightarrow> instant \<Rightarrow> instant \<Rightarrow> sqliteIndex \<Rightarrow> RecordingEntry list result \<times> sqliteIndex" where
  "QueryAllChannels env from to s =
    (case readDir env s of
       Inl e \<Rightarrow> if os_IsNotExist e then (Inr [], s) else (Inl (wrap ''scan base dir'' e), s)
     | Inr dirs \<Rightarrow> queryDirs env from to dirs [] s)"

definition noRecordingsOrCorrupted :: "sqlite_env \<Rightarrow> string \<Rightarrow> database \<Rightarrow> go_error" where
  "noRecordingsOrCorrupted env channelID db =
    (case en_fail env (QueryCount channelID) of
       Some e \<Rightarrow> wrap (''count for '' @ quoted channelID) e
     | None \<Rightarrow>
       if length (filter (\<lambda>r. rr_status r \<notin> {''deleted''}) (db_recordings db)) > 0
       then ErrAllCorrupted else ErrNoRecordings)"

text \<open>The row of a query with \<open>LIMIT 1\<close>: the first in the given order, or \<^verbatim>\<open>sql.ErrNoRows\<close>.\<close>

definition query_row :: "sqlite_env \<Rightarrow> string \<Rightarrow> recording_row list \<Rightarrow> recording_row result" where
  "query_row env ch rs =
    (case en_fail env (QueryRow ch) of
       Some e \<Rightarrow> Inl e
     | None \<Rightarrow> (case rs of [] \<Rightarrow> Inl ErrNoRows | r # _ \<Rightarrow> Inr r))"

definition FirstAvailable :: "sqlite_env \<Rightarrow> string \<Rightarrow> sqliteIndex \<Rightarrow> RecordingEntry result \<times> sqliteIndex" where
  "FirstAvailable env channelID s =
    (case getDB env channelID s of
       (Inl e, s) \<Rightarrow> (Inl e, s)
     | (Inr _, s) \<Rightarrow>
       (case scanSingleRow env channelID (query_row env channelID
               (order_by_start env (filter row_playable (db_recordings (db_of s channelID))))) of
          Inl e \<Rightarrow>
            if errors_Is e ErrNoRecordings
            then (Inl (noRecordingsOrCorrupted env channelID (db_of s channelID)), s)
            else (Inl (wrap (''first available for '' @ quoted channelID) e), s)
        | Inr x \<Rightarrow> (Inr x, s)))"

definition LastAvailable :: "sqlite_env \<Rightarrow> string \<Rightarrow> sqliteIndex \<Rightarrow> RecordingEntry result \<times> sqliteIndex" where
  "LastAvailable env channelID s =
    (case getDB env channelID s of
       (Inl e, s) \<Rightarrow> (Inl e, s)
     | (Inr _, s) \<Rightarrow>
       (case scanSingleRow env channelID (query_row env channelID
               (rev (order_by_start env (filter row_playable (db_recordings (db_of s channelID)))))) of
          Inl e \<Rightarrow>
            if errors_Is e ErrNoRecordings
            then (Inl (noRecordingsOrCorrupted env channelID (db_of s channelID)), s)
            else (Inl (wrap (''last available for '' @ quoted channelID) e), s)
        | Inr x \<Rightarrow> (Inr x, s)))"

definition set_deleted :: "string \<Rightarrow> recording_row list \<Rightarrow> recording_row list" where
  "set_deleted i t = map (\<lambda>r. if rr_id r = i then r\<lparr>rr_status := StatusDeleted\<rparr> else r) t"

fun deleteIn :: "sqlite_env \<Rightarrow> string \<Rightarrow> string list \<Rightarrow> sqliteIndex \<Rightarrow> unit result \<times> sqliteIndex" where
  "deleteIn env i [] s = (Inr (), s)"
| "deleteIn env i (ch # chs) s =
    (case en_fail env (ExecDelete ch) of
       Some e \<Rightarrow> (Inl (wrap (''delete '' @ quoted i) e), s)
     | None \<Rightarrow>
       (let db = db_of s ch; n = length (filter (\<lambda>r. rr_id r = i) (db_recordings db))
        in if n > 0 then (Inr (), put_db ch (db\<lparr>db_recordings := set_deleted i (db_recordings db)\<rparr>) s)
           else deleteIn env i chs s))"

definition Delete :: "sqlite_env \<Rightarrow> string \<Rightarrow> sqliteIndex \<Rightarrow> unit result \<times> sqliteIndex" where
  "Delete env i s = deleteIn env i (sx_dbs s) s"

definition seal_row :: "recording_row \<Rightarrow> recording_row" where
  "seal_row r = (if rr_status r = StatusRecording then r\<lparr>rr_status := StatusInterrupted\<rparr> else r)"

fun sealDirs :: "sqlite_env \<Rightarrow> (string \<times> dir_entry) list \<Rightarrow> sqliteIndex \<Rightarrow> unit result \<times> sqliteIndex" where
  "sealDirs env [] s = (Inr (), s)"
| "sealDirs env (d # ds) s =
    (if \<not> has_db env d then sealDirs env ds s
     else case getDB env (fst d) s of
       (Inl e, s) \<Rightarrow> (Inl (wrap (''seal interrupted for channel '' @ quoted (fst d)) e), s)
     | (Inr _, s) \<Rightarrow>
       (case en_fail env (ExecSeal (fst d)) of
          Some e \<Rightarrow> (Inl (wrap (''seal interrupted for channel '' @ quoted (fst d)) e), s)
        | None \<Rightarrow>
          (let db = db_of s (fst d)
           in sealDirs env ds (put_db (fst d) (db\<lparr>db_recordings := map seal_row (db_recordings db)\<rparr>) s))))"

definition SealInterrupted :: "sqlite_env \<Rightarrow> sqliteIndex \<Rightarrow> unit result \<times> sqliteIndex" where
  "SealInterrupted env s =
    (case readDir env s of
       Inl e \<Rightarrow> if os_IsNotExist e then (Inr (), s) else (Inl (wrap ''scan base dir'' e), s)
     | Inr dirs \<Rightarrow> sealDirs env dirs s)"

fun closeAll :: "sqlite_env \<Rightarrow> string list \<Rightarrow> unit result \<Rightarrow> unit result" where
  "closeAll env [] firstErr = firstErr"
| "closeAll env (ch # chs) firstErr =
    closeAll env chs
      (case en_fail env (CloseDB ch) of
         Some e \<Rightarrow> (if \<not> isl firstErr then Inl (wrap (''close '' @ quoted ch) e) else firstErr)
       | None \<Rightarrow> firstErr)"

definition Close :: "sqlite_env \<Rightarrow> sqliteIndex \<Rightarrow> unit result \<times> sqliteIndex" where
  "Close env s = (closeAll env (sx_dbs s) (Inr ()), s\<lparr>sx_dbs := []\<rparr>)"

fun insertSeeks ::
  "sqlite_env \<Rightarrow> string \<Rightarrow> string \<Rightarrow> SeekEntry list \<Rightarrow> seek_row list \<Rightarrow> seek_row list result" where
  "insertSeeks env ch i [] t = Inr t"
| "insertSeeks env ch i (se # ses) t =
    (case en_fail env (ExecSeek ch se) of
       Some e \<Rightarrow> Inl (wrap ''insert seek entry'' e)
     | None \<Rightarrow> insertSeeks env ch i ses
         (filter (\<lambda>r. \<not> (sk_recording_id r = i \<and> sk_dts_ms r = se_DTSMS se)) t
          @ [\<lparr>sk_recording_id = i, sk_dts_ms = se_DTSMS se, sk_byte_offset = se_ByteOffset se\<rparr>]))"

text \<open>The transaction rolls back on every early return: the table changes only on commit.\<close>

definition InsertSeekEntries ::
  "sqlite_env \<Rightarrow> string \<Rightarrow> string \<Rightarrow> SeekEntry list \<Rightarrow> sqliteIndex \<Rightarrow> unit result \<times> sqliteIndex" where
  "InsertSeekEntries env channelID recordingID entries s =
    (if entries = [] then (Inr (), s)
     else case getDB env channelID s of
       (Inl e, s) \<Rightarrow> (Inl e, s)
     | (Inr _, s) \<Rightarrow>
       (case en_fail env (BeginTx channelID) of
          Some e \<Rightarrow> (Inl (wrap ''begin tx for seek entries'' e), s)
        | None \<Rightarrow>
       (case en_fail env (Prepare channelID) of
          Some e \<Rightarrow> (Inl (wrap ''prepare seek insert'' e), s)
        | None \<Rightarrow>
       (case insertSeeks env channelID recordingID entries (db_seek_index (db_of s channelID)) of
          Inl e \<Rightarrow> (Inl e, s)
        | Inr t \<Rightarrow>
       (case en_fail env (Commit channelID) of
          Some e \<Rightarrow> (Inl (wrap ''commit seek entries'' e), s)
        | None \<Rightarrow> (Inr (), put_db channelID ((db_of s channelID)\<lparr>db_seek_index := t\<rparr>) s))))))"

definition SeekInSegment ::
  "sqlite_env \<Rightarrow> string \<Rightarrow> string \<Rightarrow> int \<Rightarrow> sqliteIndex \<Rightarrow> int result \<times> sqliteIndex" where
  "SeekInSegment env channelID recordingID dtsMS s =
    (case getDB env channelID s of
       (Inl e, s) \<Rightarrow> (Inl e, s)
     | (Inr _, s) \<Rightarrow>
       (case en_fail env (QuerySeek channelID) of
          Some e \<Rightarrow> (Inl (wrap (''seek in '' @ quoted recordingID @ '' at '' @ itoa dtsMS @ '' ms'') e), s)
        | None \<Rightarrow>
          (case rev (sort_key sk_dts_ms (filter (\<lambda>r. sk_recording_id r = recordingID \<and> sk_dts_ms r \<le> dtsMS)
                   (db_seek_index (db_of s channelID)))) of
             [] \<Rightarrow> (Inl (wrap (''seek in '' @ quoted recordingID @ '' at '' @ itoa dtsMS @ '' ms'') ErrNoRows), s)
           | r # _ \<Rightarrow> (Inr (sk_byte_offset r), s))))"

definition Vacuum :: "sqlite_env \<Rightarrow> string \<Rightarrow> sqliteIndex \<Rightarrow> unit result \<times> sqliteIndex" where
  "Vacuum env channelID s =
    (case getDB env channelID s of
       (Inl e, s) \<Rightarrow> (Inl e, s)
     | (Inr _, s) \<Rightarrow>
       (case en_fail env (ExecVacuum channelID) of
          Some e \<Rightarrow> (Inl (wrap (''vacuum '' @ quoted channelID) e), s)
        | None \<Rightarrow> (Inr (), s)))"

definition sqlite_ops :: "sqlite_env \<Rightarrow> sqliteIndex RecordingIndex" where
  "sqlite_ops env = \<lparr>ix_Insert = Insert env, ix_QueryByChannel = QueryByChannel env,
     ix_FirstAvailable = FirstAvailable env, ix_LastAvailable = LastAvailable env,
     ix_Delete = Delete env, ix_QueryAllChannels = QueryAllChannels env,
     ix_SealInterrupted = SealInterrupted env, ix_Close = Close env\<rparr>"

subsection \<open>Invariant and view\<close>

definition row_timed :: "recording_row \<Rightarrow> bool" where
  "row_timed r \<longleftrightarrow> (\<exists>t. fmt_range t \<and> rr_start_time r = fmt_RFC3339Nano t)
     \<and> (\<exists>t. fmt_range t \<and> rr_end_time r = fmt_RFC3339Nano t)"

abbreviation recs :: "sqliteIndex \<Rightarrow> string \<Rightarrow> recording_row list" where
  "recs s ch \<equiv> db_recordings (db_of s ch)"

text \<open>
  The primary key holds, every row has well-formed timestamps, and every opened database has its
  file and its time of last access.
\<close>

definition tables_ok :: "(string \<Rightarrow> database) \<Rightarrow> bool" where
  "tables_ok f \<longleftrightarrow> (\<forall>ch. distinct (map rr_id (db_recordings (f ch)))
     \<and> (\<forall>r \<in> set (db_recordings (f ch)). row_timed r))"

definition cache_ok :: "sqliteIndex \<Rightarrow> bool" where
  "cache_ok s \<longleftrightarrow> distinct (sx_dbs s) \<and> set (sx_dbs s) \<subseteq> dom (sx_lastAccess s)
     \<and> (\<forall>ch \<in> set (sx_dbs s). \<exists>db. tree_lookup s ch = Some (Directory (Some db)))"

definition index_inv :: "sqliteIndex \<Rightarrow> bool" where
  "index_inv s \<longleftrightarrow> tables_ok (db_of s) \<and> cache_ok s"

definition view_of :: "sqlite_env \<Rightarrow> (string \<Rightarrow> database) \<Rightarrow> index_view" where
  "view_of env f ch = map_of (map (\<lambda>r. (rr_id r, entry_of env ch r)) (db_recordings (f ch)))"

definition index_view_of :: "sqlite_env \<Rightarrow> sqliteIndex \<Rightarrow> index_view" where
  "index_view_of env s = view_of env (db_of s)"

lemma tree_lookup_update [simp]:
  "tree_lookup (tree_update ch d s) ch' = (if ch' = ch then Some d else tree_lookup s ch')"
  by (auto simp: tree_lookup_def tree_update_def update_conv split: option.split)

lemma tree_update_fields [simp]:
  "sx_dbs (tree_update ch d s) = sx_dbs s" "sx_lastAccess (tree_update ch d s) = sx_lastAccess s"
  by (simp_all add: tree_update_def)

lemma tree_lookup_fields [simp]:
  "tree_lookup (s\<lparr>sx_dbs := x\<rparr>) = tree_lookup s"
  "tree_lookup (s\<lparr>sx_lastAccess := y\<rparr>) = tree_lookup s"
  by (simp_all add: tree_lookup_def fun_eq_iff)

lemma db_of_fields [simp]:
  "db_of (s\<lparr>sx_dbs := x\<rparr>) = db_of s" "db_of (s\<lparr>sx_lastAccess := y\<rparr>) = db_of s"
  by (simp_all add: db_of_def fun_eq_iff)

lemma put_db_simps [simp]:
  "sx_dbs (put_db ch db s) = sx_dbs s" "sx_lastAccess (put_db ch db s) = sx_lastAccess s"
  "tree_lookup (put_db ch db s) = (tree_lookup s)(ch \<mapsto> Directory (Some db))"
  by (auto simp: put_db_def)

lemma db_of_put_db [simp]: "db_of (put_db ch db s) = (db_of s)(ch := db)"
  by (auto simp: fun_eq_iff db_of_def)

lemma db_of_makeDir [simp]: "db_of (makeDir ch s) = db_of s"
  by (auto simp: fun_eq_iff db_of_def makeDir_def split: option.split dir_entry.split)

lemma makeDir_fields [simp]:
  "sx_dbs (makeDir ch s) = sx_dbs s" "sx_lastAccess (makeDir ch s) = sx_lastAccess s"
  "ch' \<noteq> ch \<Longrightarrow> tree_lookup (makeDir ch s) ch' = tree_lookup s ch'"
  by (auto simp: makeDir_def split: option.split dir_entry.split)

lemma evict_simps [simp]:
  "db_of (evictIdleLocked env s) = db_of s"
  "tree_lookup (evictIdleLocked env s) = tree_lookup s"
  by (auto simp: evictIdleLocked_def Let_def)

lemma evict_dbs: "set (sx_dbs (evictIdleLocked env s)) \<subseteq> set (sx_dbs s)"
  by (auto simp: evictIdleLocked_def Let_def)

lemma cache_ok_evict [simp]: "cache_ok s \<Longrightarrow> cache_ok (evictIdleLocked env s)"
  by (auto simp: cache_ok_def evictIdleLocked_def Let_def)

lemma cache_ok_put_db [simp]: "cache_ok s \<Longrightarrow> cache_ok (put_db ch db s)"
  by (auto simp: cache_ok_def)

lemma initSchema_cases:
  assumes "initSchema env ch s = (r, s')"
  shows "s' = (if isl r then s else put_db ch (db_of s ch) s)"
  using assms by (auto simp: initSchema_def split: sum.splits option.splits)

text \<open>Opening a database leaves every table as it was.\<close>

lemma getDB_frame:
  assumes "getDB env ch s = (r, s')" "cache_ok s"
  shows "db_of s' = db_of s \<and> cache_ok s' \<and> (\<not> isl r \<longrightarrow> ch \<in> set (sx_dbs s'))"
proof (cases "ch \<in> set (sx_dbs s)")
  case True
  with assms show ?thesis by (auto simp: getDB_def cache_ok_def)
next
  case False
  define s1 where "s1 = (if evictionThreshold \<le> length (sx_dbs s) then evictIdleLocked env s else s)"
  have s1: "db_of s1 = db_of s" "cache_ok s1" "ch \<notin> set (sx_dbs s1)"
    using assms(2) False evict_dbs [of env s] by (auto simp: s1_def)
  have m: "cache_ok (makeDir ch s1)"
    unfolding cache_ok_def makeDir_fields(1,2)
  proof (intro conjI ballI)
    fix c assume "c \<in> set (sx_dbs s1)"
    with s1(2,3) show "\<exists>db. tree_lookup (makeDir ch s1) c = Some (Directory (Some db))"
      by (cases "c = ch") (auto simp: cache_ok_def)
  qed (use s1(2) in \<open>auto simp: cache_ok_def\<close>)
  let ?s2 = "put_db ch (db_of s1 ch) (makeDir ch s1)"
  have body: "getDB env ch s =
    (if tree_lookup s1 ch = Some PlainFile
     then (Inl (wrap (''mkdir '' @ quoted (sx_baseDir s1 @ ''/'' @ ch)) (PathError EOTHER ''not a directory'')), s1)
     else case en_fail env (MkdirAll ch) of
       Some e \<Rightarrow> (Inl (wrap (''mkdir '' @ quoted (sx_baseDir s1 @ ''/'' @ ch)) e), s1)
     | None \<Rightarrow> (case en_fail env (SqlOpen ch) of
         Some e \<Rightarrow> (Inl (wrap (''open '' @ quoted (sx_baseDir (makeDir ch s1) @ ''/'' @ ch @ ''/index.db'')) e), makeDir ch s1)
       | None \<Rightarrow> (case initSchema env ch (makeDir ch s1) of
           (Inl e, s) \<Rightarrow> (Inl e, s)
         | (Inr _, s) \<Rightarrow> (Inr (), s\<lparr>sx_dbs := ch # sx_dbs s,
             sx_lastAccess := (sx_lastAccess s)(ch \<mapsto> en_now env)\<rparr>))))"
    using False unfolding getDB_def s1_def [symmetric] Let_def by (simp only: if_False)
  consider "isl r" "s' = s1" | "isl r" "s' = makeDir ch s1"
    | "\<not> isl r" "s' = ?s2\<lparr>sx_dbs := ch # sx_dbs ?s2, sx_lastAccess := (sx_lastAccess ?s2)(ch \<mapsto> en_now env)\<rparr>"
    using assms(1) unfolding body
    by (cases "initSchema env ch (makeDir ch s1)"; cases "fst (initSchema env ch (makeDir ch s1))")
      (auto split: if_splits option.splits dest!: initSchema_cases)
  then show ?thesis
  proof cases
    case 3
    have "cache_ok ?s2" by (rule cache_ok_put_db) (rule m)
    with 3 s1 show ?thesis by (auto simp: cache_ok_def fun_upd_idem)
  qed (use s1 m in auto)
qed

lemma getDB_inv:
  assumes "getDB env ch s = (r, s')" "index_inv s"
  shows "index_inv s' \<and> db_of s' = db_of s \<and> (\<not> isl r \<longrightarrow> ch \<in> set (sx_dbs s'))"
  using getDB_frame [OF assms(1)] assms(2) by (simp add: index_inv_def)

subsection \<open>Every operation keeps the invariant and changes the view as promised\<close>

lemma index_inv_put_db:
  assumes "index_inv s" "distinct (map rr_id (db_recordings db))" "\<forall>r \<in> set (db_recordings db). row_timed r"
  shows "index_inv (put_db ch db s)"
  using assms by (auto simp: index_inv_def tables_ok_def)

lemma parse_or_zero_fmt [simp]: "fmt_range t \<Longrightarrow> parse_or_zero env (fmt_RFC3339Nano t) = t"
  by (simp add: parse_or_zero_def time_Parse_def parse_fmt_RFC3339Nano)

lemma entry_of_row_of: "storable e \<Longrightarrow> entry_of env (re_ChannelID e) (row_of e) = stored e"
  by (simp add: entry_of_def row_of_def storable_def stored_def boolToInt_def)

lemma entry_of_id [simp]: "re_ID (entry_of env ch r) = rr_id r" "re_ChannelID (entry_of env ch r) = ch"
  "re_Status (entry_of env ch r) = rr_status r"
  by (simp_all add: entry_of_def)

lemma playable_entry_of [simp]: "playable (entry_of env ch r) = row_playable r"
  by (simp add: playable_def row_playable_def status_defs)

lemma view_of_upd [simp]: "view_of env (f(ch := db)) =
    (view_of env f)(ch := map_of (map (\<lambda>r. (rr_id r, entry_of env ch r)) (db_recordings db)))"
  by (auto simp: view_of_def fun_eq_iff)

lemma view_of_Some:
  assumes "tables_ok f"
  shows "view_of env f ch i = Some e \<longleftrightarrow> (\<exists>r \<in> set (db_recordings (f ch)). rr_id r = i \<and> e = entry_of env ch r)"
proof -
  have "distinct (map fst (map (\<lambda>r. (rr_id r, entry_of env ch r)) (db_recordings (f ch))))"
    using assms by (simp add: tables_ok_def o_def)
  then show ?thesis unfolding view_of_def by (force simp: map_of_eq_Some_iff)
qed

lemma map_of_insert_or_replace:
  "map_of (map (\<lambda>r. (rr_id r, g r)) (insert_or_replace x t)) = (map_of (map (\<lambda>r. (rr_id r, g r)) t))(rr_id x \<mapsto> g x)"
proof
  fix i
  have "map_of (map (\<lambda>r. (rr_id r, g r)) (filter (\<lambda>y. rr_id y \<noteq> rr_id x) t)) i
      = (if i = rr_id x then None else map_of (map (\<lambda>r. (rr_id r, g r)) t) i)"
    by (induction t) auto
  then show "map_of (map (\<lambda>r. (rr_id r, g r)) (insert_or_replace x t)) i
      = ((map_of (map (\<lambda>r. (rr_id r, g r)) t))(rr_id x \<mapsto> g x)) i"
    by (auto simp: insert_or_replace_def map_add_def split: option.split)
qed

lemma insert_or_replace_ok:
  assumes "distinct (map rr_id t)" "\<forall>r \<in> set t. row_timed r" "row_timed x"
  shows "distinct (map rr_id (insert_or_replace x t)) \<and> (\<forall>r \<in> set (insert_or_replace x t). row_timed r)"
  using assms by (auto simp: insert_or_replace_def distinct_map inj_on_def)

lemma Insert_correct:
  assumes "index_inv s" "storable e" "Insert env e s = (r, s')"
  shows "index_inv s'
    \<and> index_view_of env s' = (if isl r then index_view_of env s else put_entry e (index_view_of env s))
    \<and> (\<not> isl r \<longrightarrow> re_ChannelID e \<in> set (sx_dbs s'))"
proof -
  let ?ch = "re_ChannelID e"
  obtain q s1 where g: "getDB env ?ch s = (q, s1)" by force
  note g1 = getDB_inv [OF g assms(1)]
  let ?db = "(db_of s1 ?ch)\<lparr>db_recordings := insert_or_replace (row_of e) (recs s1 ?ch)\<rparr>"
  have timed: "row_timed (row_of e)" using assms(2) by (auto simp: row_timed_def row_of_def storable_def)
  have ok: "index_inv (put_db ?ch ?db s1)"
    using g1 insert_or_replace_ok [OF _ _ timed, of "recs s1 ?ch"]
    by (intro index_inv_put_db) (auto simp: index_inv_def tables_ok_def)
  have view: "index_view_of env (put_db ?ch ?db s1) = put_entry e (index_view_of env s)"
    using g1 assms(2)
    by (simp add: index_view_of_def put_entry_def map_of_insert_or_replace entry_of_row_of)
      (simp add: view_of_def row_of_def)
  have "(isl r \<and> s' = s1) \<or> (\<not> isl r \<and> s' = put_db ?ch ?db s1 \<and> \<not> isl q)"
    using assms(3) g by (auto simp: Insert_def Let_def split: sum.splits option.splits)
  then show ?thesis using g1 ok view by (auto simp: index_view_of_def)
qed

lemma scanRows_Inr: "scanRows env ch rs = Inr es \<Longrightarrow> es = map (entry_of env ch) rs"
  by (induction rs arbitrary: es) (auto simp: scanRecordingRow_def split: sum.splits option.splits)

lemma order_by_start_set [simp]: "set (order_by_start env rs) = set rs"
  by (simp add: order_by_start_def)

lemma order_by_start_ids:
  assumes "distinct (map rr_id rs)"
  shows "distinct (map rr_id (order_by_start env rs))"
  using assms by (simp add: order_by_start_def distinct_map)

lemma order_by_start_sorted: "sorted (map rr_start_time (order_by_start env rs))"
  by (simp add: order_by_start_def)

lemma QueryByChannel_cases:
  assumes "QueryByChannel env ch from to s = (r, s')"
  obtains q where "getDB env ch s = (q, s')"
    and "\<And>es. r = Inr es \<Longrightarrow> \<not> isl q \<and>
      es = map (entry_of env ch) (order_by_start env (filter (row_selected from to) (recs s' ch)))"
  using assms unfolding QueryByChannel_def
  by (auto split: prod.splits sum.splits option.splits dest!: scanRows_Inr intro: that)

lemma QueryByChannel_correct:
  assumes "index_inv s" "QueryByChannel env ch from to s = (q, s')"
  shows "index_inv s' \<and> index_view_of env s' = index_view_of env s
    \<and> (\<forall>es. q = Inr es \<longrightarrow> ch \<in> set (sx_dbs s') \<and> distinct (map re_ID es)
         \<and> (\<forall>e \<in> set es. index_view_of env s ch (re_ID e) = Some e \<and> re_ChannelID e = ch \<and> playable e)
         \<and> (from = zero_time \<and> to = zero_time \<longrightarrow>
              (\<forall>i e. index_view_of env s ch i = Some e \<and> playable e \<longrightarrow> e \<in> set es)))"
proof -
  obtain g where g: "getDB env ch s = (g, s')"
    and es: "\<And>es. q = Inr es \<Longrightarrow> \<not> isl g \<and>
      es = map (entry_of env ch) (order_by_start env (filter (row_selected from to) (recs s' ch)))"
    using QueryByChannel_cases [OF assms(2)] by metis
  note g1 = getDB_inv [OF g assms(1)]
  have t: "tables_ok (db_of s)" using assms(1) by (simp add: index_inv_def)
  have d: "distinct (map rr_id (filter (row_selected from to) (recs s ch)))"
    using t by (simp add: tables_ok_def distinct_map_filter)
  have "ch \<in> set (sx_dbs s') \<and> distinct (map re_ID xs)
      \<and> (\<forall>e \<in> set xs. view_of env (db_of s) ch (re_ID e) = Some e \<and> re_ChannelID e = ch \<and> playable e)
      \<and> (from = zero_time \<and> to = zero_time \<longrightarrow>
           (\<forall>i e. view_of env (db_of s) ch i = Some e \<and> playable e \<longrightarrow> e \<in> set xs))" if "q = Inr xs" for xs
    using es [OF that] g1 order_by_start_ids [OF d]
    by (auto simp: o_def view_of_Some [OF t] row_selected_def)
  moreover have "index_view_of env s' = index_view_of env s" using g1 by (simp add: index_view_of_def)
  ultimately show ?thesis using g1 unfolding index_view_of_def by blast
qed

lemma set_deleted_ok:
  assumes "distinct (map rr_id t)" "\<forall>r \<in> set t. row_timed r"
  shows "distinct (map rr_id (set_deleted i t)) \<and> (\<forall>r \<in> set (set_deleted i t). row_timed r)"
proof -
  have "map rr_id (set_deleted i t) = map rr_id t" by (simp add: set_deleted_def)
  moreover have "\<forall>r \<in> set (set_deleted i t). row_timed r"
    using assms(2) by (auto simp: set_deleted_def row_timed_def)
  ultimately show ?thesis using assms(1) by (simp only: simp_thms)
qed

lemma map_of_set_deleted:
  "map_of (map (\<lambda>r. (rr_id r, entry_of env ch r)) (set_deleted i t)) =
    (let m = map_of (map (\<lambda>r. (rr_id r, entry_of env ch r)) t)
     in m(i := map_option (\<lambda>e. e\<lparr>re_Status := StatusDeleted\<rparr>) (m i)))"
  by (induction t) (auto simp: set_deleted_def entry_of_def fun_eq_iff Let_def)

lemma view_None_iff: "view_of env f ch i = None \<longleftrightarrow> i \<notin> rr_id ` set (db_recordings (f ch))"
  by (force simp: view_of_def map_of_eq_None_iff)

lemma deleteIn_correct:
  assumes "index_inv s" "deleteIn env i chs s = (r, s')"
  shows "index_inv s' \<and> sx_dbs s' = sx_dbs s
    \<and> (index_view_of env s' = index_view_of env s
       \<or> (\<exists>ch \<in> set chs. index_view_of env s' = mark_deleted ch i (index_view_of env s)))
    \<and> (\<not> isl r \<longrightarrow> (\<exists>ch \<in> set chs. index_view_of env s ch i \<noteq> None) \<longrightarrow>
         (\<exists>ch \<in> set chs. index_view_of env s ch i \<noteq> None \<and>
            index_view_of env s' = mark_deleted ch i (index_view_of env s)))"
  using assms
proof (induction chs)
  case (Cons ch chs)
  let ?db = "(db_of s ch)\<lparr>db_recordings := set_deleted i (recs s ch)\<rparr>"
  show ?case
  proof (cases "en_fail env (ExecDelete ch) = None \<and> i \<in> rr_id ` set (recs s ch)")
    case True
    then have "filter (\<lambda>r. rr_id r = i) (recs s ch) \<noteq> []" by (auto simp: filter_empty_conv)
    with True have hit: "r = Inr ()" "s' = put_db ch ?db s"
      using Cons.prems(2) by (simp_all add: Let_def)
    moreover have "index_inv (put_db ch ?db s)"
      using Cons.prems(1) set_deleted_ok [of "recs s ch" i]
      by (intro index_inv_put_db) (auto simp: index_inv_def tables_ok_def)
    moreover have "index_view_of env (put_db ch ?db s) = mark_deleted ch i (index_view_of env s)"
      by (simp add: index_view_of_def mark_deleted_def map_of_set_deleted Let_def) (simp add: view_of_def)
    moreover have "index_view_of env s ch i \<noteq> None"
      using True unfolding index_view_of_def view_None_iff by simp
    ultimately show ?thesis by auto
  next
    case False
    show ?thesis
    proof (cases "en_fail env (ExecDelete ch)")
      case None
      with False have "i \<notin> rr_id ` set (recs s ch)" by simp
      then have "index_view_of env s ch i = None" "filter (\<lambda>r. rr_id r = i) (recs s ch) = []"
        unfolding index_view_of_def view_None_iff by (auto simp: filter_empty_conv)
      moreover from this have "deleteIn env i chs s = (r, s')" using Cons.prems(2) None by simp
      ultimately show ?thesis using Cons.IH Cons.prems(1) by fastforce
    next
      case (Some e)
      then show ?thesis using Cons.prems by auto
    qed
  qed
qed auto

lemma Delete_correct:
  assumes "index_inv s" "Delete env i s = (r, s')"
  shows "index_inv s' \<and> set (sx_dbs s') = set (sx_dbs s)
    \<and> (index_view_of env s' = index_view_of env s
       \<or> (\<exists>ch \<in> set (sx_dbs s). index_view_of env s' = mark_deleted ch i (index_view_of env s)))
    \<and> (\<not> isl r \<longrightarrow> (\<exists>ch \<in> set (sx_dbs s). index_view_of env s ch i \<noteq> None) \<longrightarrow>
         (\<exists>ch \<in> set (sx_dbs s). index_view_of env s ch i \<noteq> None \<and>
            index_view_of env s' = mark_deleted ch i (index_view_of env s)))"
  using deleteIn_correct [OF assms(1), of env i "sx_dbs s" r s'] assms(2) by (simp add: Delete_def)

interpretation sx: recording_index "sqlite_ops env" index_inv "index_view_of env" "\<lambda>s. set (sx_dbs s)"
  for env
proof unfold_locales
  fix s e r s'
  assume a: "index_inv s" "storable e" and "ix_Insert (sqlite_ops env) e s = (r, s')"
  then have "Insert env e s = (r, s')" by (simp add: sqlite_ops_def)
  with a show "index_inv s'
    \<and> index_view_of env s' = (if isl r then index_view_of env s else put_entry e (index_view_of env s))
    \<and> (\<not> isl r \<longrightarrow> re_ChannelID e \<in> set (sx_dbs s'))"
    by (rule Insert_correct)
next
  fix s ch "from" to q s'
  assume a: "index_inv s" and "ix_QueryByChannel (sqlite_ops env) ch from to s = (q, s')"
  then have "QueryByChannel env ch from to s = (q, s')" by (simp add: sqlite_ops_def)
  with a show "index_inv s' \<and> index_view_of env s' = index_view_of env s
    \<and> (\<forall>es. q = Inr es \<longrightarrow> ch \<in> set (sx_dbs s') \<and> distinct (map re_ID es)
         \<and> (\<forall>e \<in> set es. index_view_of env s ch (re_ID e) = Some e \<and> re_ChannelID e = ch \<and> playable e)
         \<and> (from = zero_time \<and> to = zero_time \<longrightarrow>
              (\<forall>i e. index_view_of env s ch i = Some e \<and> playable e \<longrightarrow> e \<in> set es)))"
    by (rule QueryByChannel_correct)
next
  fix s i r s'
  assume a: "index_inv s" and "ix_Delete (sqlite_ops env) i s = (r, s')"
  then have "Delete env i s = (r, s')" by (simp add: sqlite_ops_def)
  with a show "index_inv s' \<and> set (sx_dbs s') = set (sx_dbs s)
    \<and> (index_view_of env s' = index_view_of env s
       \<or> (\<exists>ch \<in> set (sx_dbs s). index_view_of env s' = mark_deleted ch i (index_view_of env s)))
    \<and> (\<not> isl r \<longrightarrow> (\<exists>ch \<in> set (sx_dbs s). index_view_of env s ch i \<noteq> None) \<longrightarrow>
         (\<exists>ch \<in> set (sx_dbs s). index_view_of env s ch i \<noteq> None \<and>
            index_view_of env s' = mark_deleted ch i (index_view_of env s)))"
    by (rule Delete_correct)
next
  fix s ch i e
  assume "index_inv s" "index_view_of env s ch i = Some e"
  then show "re_ID e = i \<and> re_ChannelID e = ch"
    by (auto simp: index_inv_def index_view_of_def view_of_Some)
qed

subsection \<open>Sealing interrupted recordings\<close>

lemma seal_row_idem [simp]: "seal_row (seal_row r) = seal_row r"
  by (simp add: seal_row_def)

lemma seal_row_simps [simp]: "rr_id (seal_row r) = rr_id r" "row_timed (seal_row r) = row_timed r"
  by (simp_all add: seal_row_def row_timed_def)

lemma entry_of_seal_row: "entry_of env ch (seal_row r) = seal_entry (entry_of env ch r)"
  by (simp add: seal_row_def seal_entry_def entry_of_def)

lemma sealDirs_correct:
  assumes "index_inv s" "sealDirs env ds s = (Inr (), s')"
  shows "index_inv s' \<and> (\<forall>ch. recs s' ch =
    (if ch \<in> fst ` set (filter (has_db env) ds) then map seal_row (recs s ch) else recs s ch))"
  using assms
proof (induction ds arbitrary: s)
  case (Cons d ds)
  show ?case
  proof (cases "has_db env d")
    case True
    obtain q s1 where g: "getDB env (fst d) s = (q, s1)" by force
    note g1 = getDB_inv [OF g Cons.prems(1)]
    let ?s2 = "put_db (fst d) ((db_of s1 (fst d))\<lparr>db_recordings := map seal_row (recs s1 (fst d))\<rparr>) s1"
    have "sealDirs env ds ?s2 = (Inr (), s')"
      using Cons.prems(2) True g by (auto simp: Let_def split: sum.splits option.splits)
    moreover have "index_inv ?s2"
      using g1 by (intro index_inv_put_db) (auto simp: index_inv_def tables_ok_def o_def)
    ultimately have "index_inv s' \<and> (\<forall>ch. recs s' ch =
      (if ch \<in> fst ` set (filter (has_db env) ds) then map seal_row (recs ?s2 ch) else recs ?s2 ch))"
      by (rule Cons.IH [rotated])
    then show ?thesis using g1 True by (auto simp: o_def)
  next
    case False
    with Cons show ?thesis by simp
  qed
qed simp

lemma map_of_seal:
  "map_of (map (\<lambda>r. (rr_id r, entry_of env ch r)) (map seal_row t)) i =
    map_option seal_entry (map_of (map (\<lambda>r. (rr_id r, entry_of env ch r)) t) i)"
  by (induction t) (auto simp: entry_of_seal_row)

lemma SealInterrupted_view:
  assumes "index_inv s" "SealInterrupted env s = (Inr (), s')" "en_fail env ReadDir = None"
    "\<And>ch. en_fail env (Stat ch) = None"
  shows "index_inv s' \<and> index_view_of env s' = (\<lambda>ch i. map_option seal_entry (index_view_of env s ch i))"
proof (cases "sx_tree s")
  case None
  then have "s' = s" "\<And>ch. recs s ch = []"
    using assms(2) by (auto simp: SealInterrupted_def readDir_def db_of_def tree_lookup_def)
  with assms(1) show ?thesis by (simp add: index_view_of_def view_of_def fun_eq_iff)
next
  case (Some t)
  then have "sealDirs env (sort_key fst t) s = (Inr (), s')"
    using assms(2,3) by (simp add: SealInterrupted_def readDir_def)
  note d = sealDirs_correct [OF assms(1) this]
  have "recs s' ch = map seal_row (recs s ch)" for ch
  proof (cases "\<exists>db. tree_lookup s ch = Some (Directory (Some db))")
    case True
    then obtain db where "(ch, Directory (Some db)) \<in> set t"
      using Some by (auto simp: tree_lookup_def dest: map_of_SomeD)
    then have "ch \<in> fst ` set (filter (has_db env) (sort_key fst t))"
      using assms(4) by (force simp: has_db_def)
    with d show ?thesis by simp
  next
    case False
    then have "recs s ch = []" by (auto simp: db_of_def split: option.split dir_entry.split)
    with d show ?thesis by simp
  qed
  with d show ?thesis by (simp add: index_view_of_def view_of_def fun_eq_iff map_of_seal del: map_map)
qed

text \<open>
  A \<open>SealInterrupted\<close> that succeeds, with the base directory and every database file readable, turns each entry still in
  status \<^verbatim>\<open>recording\<close>, in every channel directory, into an interrupted one and changes nothing else.
\<close>

theorem SealInterrupted_seals:
  assumes "index_inv s" "SealInterrupted env s = (Inr (), s')" "en_fail env ReadDir = None"
    "\<And>ch. en_fail env (Stat ch) = None"
  shows "index_inv s' \<and> index_view_of env s' = (\<lambda>ch i. map_option seal_entry (index_view_of env s ch i))"
  by (rule SealInterrupted_view [OF assms])

definition env0 :: sqlite_env where
  "env0 = \<lparr>en_now = 0, en_fail = (\<lambda>_. None), en_tie = (\<lambda>_. 0), en_parse = (\<lambda>_. None)\<rparr>"

lemma en_fail_env0 [simp]: "en_fail env0 c = None"
  by (simp add: env0_def)

definition marker0 :: RecordingEntry where
  "marker0 = \<lparr>re_ID = ''a'', re_ChannelID = ''c'', re_StartTime = 1000000000, re_EndTime = 0,
     re_FilePath = ''f'', re_SizeBytes = 0, re_Status = StatusRecording,
     re_HasMotion = False, re_HasObjects = False, re_HasEvents = False\<rparr>"

definition complete0 :: RecordingEntry where
  "complete0 = marker0\<lparr>re_EndTime := 301000000000, re_SizeBytes := 4096, re_Status := StatusComplete\<rparr>"

text \<open>An index with one channel, opened, whose table holds the given rows.\<close>

definition index_with :: "recording_row list \<Rightarrow> sqliteIndex" where
  "index_with rs = \<lparr>sx_baseDir = ''/rec'',
     sx_tree = Some [(''c'', Directory (Some \<lparr>db_recordings = rs, db_seek_index = []\<rparr>))],
     sx_dbs = [''c''], sx_lastAccess = [''c'' \<mapsto> 0]\<rparr>"

lemma db_of_index_with: "db_of (index_with rs) ch =
    \<lparr>db_recordings = (if ch = ''c'' then rs else []), db_seek_index = []\<rparr>"
  by (simp add: index_with_def db_of_def tree_lookup_def)

lemma getDB_index_with: "getDB env0 ''c'' (index_with rs) = (Inr (), index_with rs)"
  by (simp add: getDB_def index_with_def env0_def)

lemma row_timed_row_of: "storable e \<Longrightarrow> row_timed (row_of e)"
  by (auto simp: row_timed_def row_of_def storable_def)

lemma index_inv_index_with:
  assumes "distinct (map re_ID es)" "\<forall>e \<in> set es. storable e"
  shows "index_inv (index_with (map row_of es))"
proof -
  have "map rr_id (map row_of es) = map re_ID es" by (simp add: row_of_def)
  with assms have "tables_ok (db_of (index_with (map row_of es)))"
    by (auto simp: tables_ok_def db_of_index_with row_timed_row_of simp del: map_map)
  then show ?thesis by (simp add: index_inv_def cache_ok_def) (simp add: index_with_def tree_lookup_def)
qed

lemma index_inv_New: "index_inv (NewSQLiteIndex b None)"
  by (simp add: index_inv_def tables_ok_def cache_ok_def NewSQLiteIndex_def db_of_def tree_lookup_def)

lemma storable0: "storable marker0" "storable complete0"
  by (simp_all add: storable_def marker0_def complete0_def fmt_range_def)

lemma SealInterrupted_index_with: "fst (SealInterrupted env0 (index_with rs)) = Inr ()"
proof -
  have "readDir env0 (index_with rs) = Inr (the (sx_tree (index_with rs)))"
    by (simp add: readDir_def index_with_def)
  then show ?thesis
    by (simp add: SealInterrupted_def index_with_def [of rs] has_db_def Let_def)
      (simp add: getDB_index_with index_with_def [symmetric] Let_def)
qed

lemma QueryByChannel_index_with:
  "\<exists>es. QueryByChannel env0 ''c'' f t (index_with rs) = (Inr es, index_with rs)"
proof -
  have "\<exists>es. scanRows env0 ''c'' xs = Inr es" for xs
    by (induction xs) (auto simp: scanRecordingRow_def)
  then obtain es where
    "scanRows env0 ''c'' (order_by_start env0 (filter (row_selected f t) rs)) = Inr es" by blast
  then show ?thesis by (simp add: QueryByChannel_def getDB_index_with db_of_index_with)
qed

lemma SealInterrupted_seals_witness:
  "index_view_of env0 (snd (SealInterrupted env0 (index_with [row_of marker0]))) ''c'' ''a''
     = Some (seal_entry marker0)"
proof -
  let ?s = "index_with [row_of marker0]"
  have "index_inv ?s" using index_inv_index_with [of "[marker0]"] storable0 by simp
  moreover have "fst (SealInterrupted env0 ?s) = Inr ()" by (rule SealInterrupted_index_with)
  then have "SealInterrupted env0 ?s = (Inr (), snd (SealInterrupted env0 ?s))" by (metis prod.collapse)
  moreover have "index_view_of env0 ?s ''c'' ''a'' = Some marker0"
    using entry_of_row_of [OF storable0(1), of env0]
    by (simp add: index_view_of_def view_of_def db_of_index_with stored_def)
      (simp add: row_of_def marker0_def)
  ultimately show ?thesis using SealInterrupted_seals [of ?s env0] by simp
qed

subsection \<open>Queries by time\<close>

lemma selected_rows:
  assumes "index_inv s" "QueryByChannel env ch from to s = (Inr es, s')"
  shows "es = map (entry_of env ch) (order_by_start env (filter (row_selected from to) (recs s ch)))"
  using QueryByChannel_cases [OF assms(2)] getDB_inv [OF _ assms(1)] by metis

lemma entry_of_times:
  assumes "row_timed r"
  shows "rr_start_time r = fmt_RFC3339Nano (re_StartTime (entry_of env ch r))"
    and "rr_end_time r = fmt_RFC3339Nano (re_EndTime (entry_of env ch r))"
    and "fmt_range (re_StartTime (entry_of env ch r))" "fmt_range (re_EndTime (entry_of env ch r))"
  using assms by (auto simp: row_timed_def entry_of_def)

lemma fmt_skew_total:
  assumes "fmt_range t" "fmt_range t'" "t + Second \<le> t'"
  shows "fmt_RFC3339Nano t \<le> fmt_RFC3339Nano t'"
proof (rule ccontr)
  assume "\<not> ?thesis"
  with fmt_RFC3339Nano_skew [OF assms(2,1)] have "t' < t + Second" by simp
  with assms(3) show False by simp
qed

lemma QueryByChannel_bounds:
  assumes "index_inv s" "QueryByChannel env ch from to s = (Inr es, s')"
    and "fmt_range from" "fmt_range to"
  shows "\<forall>e \<in> set es. (from \<noteq> zero_time \<longrightarrow> from < re_EndTime e + Second)
            \<and> (to \<noteq> zero_time \<longrightarrow> re_StartTime e < to + Second)"
proof -
  have "row_timed r" if "r \<in> set (recs s ch)" for r
    using that assms(1) by (auto simp: index_inv_def tables_ok_def)
  note times = entry_of_times [OF this, where env = env and ch = ch]
  show ?thesis
    using selected_rows [OF assms(1,2)] times assms(3,4)
    by (auto simp: row_selected_def intro: fmt_RFC3339Nano_skew)
qed

lemma QueryByChannel_complete:
  assumes "index_inv s" "QueryByChannel env ch from to s = (Inr es, s')" "fmt_range from" "fmt_range to"
    and "index_view_of env s ch i = Some e" "playable e"
    and "from \<noteq> zero_time \<longrightarrow> from + Second \<le> re_EndTime e \<or> from = re_EndTime e"
    and "to \<noteq> zero_time \<longrightarrow> re_StartTime e + Second \<le> to"
  shows "e \<in> set es"
proof -
  have t: "tables_ok (db_of s)" using assms(1) by (simp add: index_inv_def)
  then obtain r where r: "r \<in> set (recs s ch)" "e = entry_of env ch r"
    using assms(5) by (auto simp: index_view_of_def view_of_Some)
  then have "row_timed r" using t by (auto simp: tables_ok_def)
  note times = entry_of_times [OF this, where env = env and ch = ch]
  have "row_selected from to r"
    using assms(3,4,6-8) r(2) times fmt_skew_total by (auto simp: row_selected_def)
  with r selected_rows [OF assms(1,2)] show ?thesis by auto
qed

text \<open>
  C10: the entries a bounded query returns end after \<open>from\<close> and start before \<open>to\<close>, to within a
  second, and come in ascending order of start time, to within a second; and the query misses no
  playable entry that overlaps the range by a second or more at both ends.
\<close>

theorem QueryByChannel_range:
  assumes "index_inv s" "QueryByChannel env ch from to s = (Inr es, s')"
    and "fmt_range from" "fmt_range to"
  shows "(\<forall>e \<in> set es. (from \<noteq> zero_time \<longrightarrow> from < re_EndTime e + Second)
            \<and> (to \<noteq> zero_time \<longrightarrow> re_StartTime e < to + Second))
    \<and> (\<forall>i j. i < j \<and> j < length es \<longrightarrow> re_StartTime (es ! i) < re_StartTime (es ! j) + Second)
    \<and> (\<forall>i e. index_view_of env s ch i = Some e \<and> playable e
          \<and> (from \<noteq> zero_time \<longrightarrow> from + Second \<le> re_EndTime e)
          \<and> (to \<noteq> zero_time \<longrightarrow> re_StartTime e + Second \<le> to) \<longrightarrow> e \<in> set es)"
proof (intro conjI)
  let ?rs = "order_by_start env (filter (row_selected from to) (recs s ch))"
  note es = selected_rows [OF assms(1,2)]
  have t: "tables_ok (db_of s)" using assms(1) by (simp add: index_inv_def)
  then have timed: "row_timed r" if "r \<in> set (recs s ch)" for r using that by (auto simp: tables_ok_def)
  note times = entry_of_times [OF timed, where env = env and ch = ch]
  show "\<forall>e \<in> set es. (from \<noteq> zero_time \<longrightarrow> from < re_EndTime e + Second)
            \<and> (to \<noteq> zero_time \<longrightarrow> re_StartTime e < to + Second)"
    by (rule QueryByChannel_bounds [OF assms])
  show "\<forall>i j. i < j \<and> j < length es \<longrightarrow> re_StartTime (es ! i) < re_StartTime (es ! j) + Second"
  proof (intro allI impI, elim conjE)
    fix i j assume ij: "i < j" "j < length es"
    then have "?rs ! i \<in> set (recs s ch)" "?rs ! j \<in> set (recs s ch)"
      using es nth_mem [of _ ?rs] by auto
    moreover have "rr_start_time (?rs ! i) \<le> rr_start_time (?rs ! j)"
      using sorted_nth_mono [OF order_by_start_sorted, of i j env "filter (row_selected from to) (recs s ch)"]
        ij es by simp
    ultimately show "re_StartTime (es ! i) < re_StartTime (es ! j) + Second"
      using fmt_RFC3339Nano_skew [OF times(3,3), of "?rs ! i" "?rs ! j"] times(1) es ij by simp
  qed
  show "\<forall>i e. index_view_of env s ch i = Some e \<and> playable e
          \<and> (from \<noteq> zero_time \<longrightarrow> from + Second \<le> re_EndTime e)
          \<and> (to \<noteq> zero_time \<longrightarrow> re_StartTime e + Second \<le> to) \<longrightarrow> e \<in> set es"
    using QueryByChannel_complete [OF assms] by blast
qed

definition late0 :: RecordingEntry where
  "late0 = complete0\<lparr>re_ID := ''b'', re_StartTime := 1500000000, re_FilePath := ''g''\<rparr>"

definition index1 :: sqliteIndex where
  "index1 = index_with (map row_of [complete0, late0])"

lemma storable_late0: "storable late0"
  by (simp add: storable_def late0_def complete0_def marker0_def fmt_range_def)

lemma index_inv_index1: "index_inv index1"
  unfolding index1_def
  by (rule index_inv_index_with)
    (use storable0 storable_late0 in \<open>auto simp: late0_def complete0_def marker0_def\<close>)

lemma view_index1: "index_view_of env0 index1 ch i =
    (if ch = ''c'' \<and> i = ''a'' then Some complete0 else if ch = ''c'' \<and> i = ''b'' then Some late0 else None)"
proof -
  have "entry_of env0 ''c'' (row_of late0) = late0" "entry_of env0 ''c'' (row_of complete0) = complete0"
    using entry_of_row_of [OF storable_late0, of env0] entry_of_row_of [OF storable0(2), of env0]
    by (simp_all add: stored_def late0_def complete0_def marker0_def)
  moreover have "rr_id (row_of late0) = ''b''" "rr_id (row_of complete0) = ''a''"
    by (simp_all add: row_of_def late0_def complete0_def marker0_def)
  ultimately show ?thesis by (simp add: index_view_of_def view_of_def index1_def db_of_index_with)
qed

lemma late_before_complete: "rr_start_time (row_of late0) < rr_start_time (row_of complete0)"
  using fmt_RFC3339Nano_inverted [of 1000000000 500000000]
  by (simp add: row_of_def late0_def complete0_def marker0_def fmt_range_def Second_def)

lemma QueryByChannel_index1:
  "QueryByChannel env0 ''c'' 0 0 index1 = (Inr [late0, complete0], index1)"
proof -
  have "getDB env0 ''c'' index1 = (Inr (), index1)"
    by (simp add: index1_def getDB_index_with)
  moreover have "scanRows env0 ''c'' [row_of late0, row_of complete0] = Inr [late0, complete0]"
  proof -
    have "entry_of env0 ''c'' (row_of late0) = late0" "entry_of env0 ''c'' (row_of complete0) = complete0"
      using entry_of_row_of [OF storable_late0, of env0] entry_of_row_of [OF storable0(2), of env0]
      by (simp_all add: stored_def late0_def complete0_def marker0_def)
    then show ?thesis by (simp add: scanRecordingRow_def)
  qed
  moreover have "order_by_start env0 (filter (row_selected 0 0) [row_of complete0, row_of late0])
      = [row_of late0, row_of complete0]"
  proof -
    have "row_selected 0 0 (row_of complete0)" "row_selected 0 0 (row_of late0)"
      by (simp_all add: row_selected_def row_playable_def row_of_def late0_def complete0_def status_defs)
    then show ?thesis using late_before_complete by (simp add: order_by_start_def env0_def)
  qed
  ultimately show ?thesis
    by (simp add: QueryByChannel_def db_of_index_with index1_def del: filter.simps scanRows.simps)
qed

lemma QueryByChannel_range_witness:
  "re_StartTime ([late0, complete0] ! 0) < re_StartTime ([late0, complete0] ! 1) + Second"
proof -
  have "fmt_range 0" by (simp add: fmt_range_def)
  note QueryByChannel_range [OF index_inv_index1 QueryByChannel_index1 this this, THEN conjunct2, THEN conjunct1]
  then show ?thesis by (metis One_nat_def Suc_1 length_Cons lessI list.size(3) zero_less_one)
qed

text \<open>
  Within one second the order is the wrong way round: a recording that starts on a whole second
  is returned after one that starts later in that second.
\<close>

theorem QueryByChannel_inverted:
  assumes "index_inv s" "QueryByChannel env ch 0 0 s = (Inr es, s')"
    and "i < length es" "j < length es" "re_StartTime (es ! i) mod Second = 0"
    and "re_StartTime (es ! i) < re_StartTime (es ! j)" "re_StartTime (es ! j) < re_StartTime (es ! i) + Second"
  shows "j < i"
proof (rule ccontr)
  assume "\<not> j < i"
  let ?rs = "order_by_start env (filter (row_selected 0 0) (recs s ch))"
  note es = selected_rows [OF assms(1,2)]
  have "?rs ! i \<in> set (recs s ch)" "?rs ! j \<in> set (recs s ch)"
    using assms(3,4) es nth_mem [of _ ?rs] by auto
  then have timed: "row_timed (?rs ! i)" "row_timed (?rs ! j)"
    using assms(1) by (auto simp: index_inv_def tables_ok_def)
  note ti = entry_of_times [OF timed(1), where env = env and ch = ch]
    and tj = entry_of_times [OF timed(2), where env = env and ch = ch]
  have "rr_start_time (?rs ! i) \<le> rr_start_time (?rs ! j)"
    using sorted_nth_mono [OF order_by_start_sorted, of i j env "filter (row_selected 0 0) (recs s ch)"]
      \<open>\<not> j < i\<close> assms(4) es by simp
  then have "fmt_RFC3339Nano (re_StartTime (es ! i)) \<le> fmt_RFC3339Nano (re_StartTime (es ! j))"
    using ti(1) tj(1) es assms(3,4) by simp
  moreover have "fmt_range (re_StartTime (es ! i))" using ti(3) es assms(3) by simp
  ultimately show False
    using fmt_RFC3339Nano_inverted [of "re_StartTime (es ! i)" "re_StartTime (es ! j) - re_StartTime (es ! i)"]
      assms(5-7) by simp
qed

lemma QueryByChannel_inverted_witness:
  "QueryByChannel env0 ''c'' 0 0 index1 = (Inr [late0, complete0], index1)
   \<and> re_StartTime complete0 < re_StartTime late0 \<and> (0 :: nat) < 1"
proof -
  have "re_StartTime complete0 mod Second = 0" "re_StartTime complete0 < re_StartTime late0"
    "re_StartTime late0 < re_StartTime complete0 + Second"
    by (simp_all add: complete0_def late0_def marker0_def Second_def)
  then show ?thesis
    using QueryByChannel_inverted [OF index_inv_index1 QueryByChannel_index1, of 1 0] QueryByChannel_index1
    by simp
qed

subsection \<open>Inserting, deleting, finding\<close>

text \<open>
  A segment's completion entry, inserted under the identifier of its recording marker, replaces
  the marker: a later query of the channel returns it, and nothing else carries the identifier.
\<close>

theorem Insert_completion_replaces_marker:
  assumes "index_inv s" "storable m" "storable e" "re_ID m = re_ID e" "re_ChannelID m = re_ChannelID e"
    and "playable e"
    and "Insert env m s = (Inr (), s1)" "Insert env e s1 = (Inr (), s2)"
    and "QueryByChannel env (re_ChannelID e) 0 0 s2 = (Inr es, s3)"
  shows "stored e \<in> set es \<and> filter (\<lambda>x. re_ID x = re_ID e) es = [stored e]"
proof -
  have view: "index_view_of env s2 = put_entry e (index_view_of env s)"
    using sx.replace_entry [OF assms(1-5), of env s1 s2] assms(7,8) by (simp add: sqlite_ops_def)
  have inv2: "index_inv s2"
    using Insert_correct [OF _ assms(3,8)] Insert_correct [OF assms(1,2,7)] by blast
  have look: "index_view_of env s2 (re_ChannelID e) (re_ID e) = Some (stored e)"
    by (simp add: view put_entry_def)
  have "playable (stored e)" using assms(6) by (simp add: stored_def playable_def)
  moreover note conjunct2 [OF conjunct2 [OF QueryByChannel_correct [OF inv2 assms(9)]], rule_format, OF refl]
  ultimately have q: "stored e \<in> set es" "distinct (map re_ID es)" using look by blast+
  moreover have "re_ID (stored e) = re_ID e" by (simp add: stored_def)
  ultimately show ?thesis by (metis filter_key_unique)
qed

lemma Insert_index_with:
  "re_ChannelID e = ''c'' \<Longrightarrow>
     Insert env0 e (index_with rs) = (Inr (), index_with (insert_or_replace (row_of e) rs))"
  by (simp add: Insert_def getDB_index_with Let_def db_of_index_with)
    (simp add: index_with_def put_db_def tree_update_def)

lemma Insert_completion_replaces_marker_witness:
  "\<exists>es. QueryByChannel env0 ''c'' 0 0
     (index_with (insert_or_replace (row_of complete0) (insert_or_replace (row_of marker0) [])))
     = (Inr es, index_with (insert_or_replace (row_of complete0) (insert_or_replace (row_of marker0) [])))
   \<and> filter (\<lambda>x. re_ID x = re_ID complete0) es = [stored complete0]"
proof -
  have 0: "index_inv (index_with [])" using index_inv_index_with [of "[]"] by simp
  have 1: "re_ID marker0 = re_ID complete0" "re_ChannelID marker0 = re_ChannelID complete0"
    "re_ChannelID complete0 = ''c''" "playable complete0" "re_ChannelID marker0 = ''c''"
    by (simp_all add: complete0_def marker0_def playable_def)
  obtain es where q: "QueryByChannel env0 (re_ChannelID complete0) 0 0
      (index_with (insert_or_replace (row_of complete0) (insert_or_replace (row_of marker0) [])))
      = (Inr es, index_with (insert_or_replace (row_of complete0) (insert_or_replace (row_of marker0) [])))"
    using QueryByChannel_index_with unfolding 1(3) by blast
  show ?thesis
    using Insert_completion_replaces_marker [OF 0 storable0 1(1,2,4) Insert_index_with [OF 1(5)]
        Insert_index_with [OF 1(3)] q] q unfolding 1(3) by blast
qed


lemma Delete_index1: "Delete env0 ''b'' index1 = (Inr (), index_with (set_deleted ''b'' (map row_of [complete0, late0])))"
proof -
  have "filter (\<lambda>r. rr_id r = ''b'') (map row_of [complete0, late0]) = [row_of late0]"
    by (simp add: row_of_def late0_def complete0_def marker0_def)
  then show ?thesis
    by (simp add: Delete_def index1_def db_of_index_with Let_def del: filter.simps list.map)
      (simp add: index_with_def put_db_def tree_update_def db_of_def tree_lookup_def)
qed


text \<open>
  \<open>Delete\<close> reports success without deleting anything when the database of the entry's channel is
  not open (it was evicted, or not yet used).
\<close>

theorem Delete_unopened_noop:
  assumes "\<forall>ch \<in> set (sx_dbs s). index_view_of env s ch i = None \<and> en_fail env (ExecDelete ch) = None"
  shows "Delete env i s = (Inr (), s)"
proof -
  have "deleteIn env i chs s = (Inr (), s)" if "set chs \<subseteq> set (sx_dbs s)" for chs
    using that
  proof (induction chs)
    case (Cons ch chs)
    then have "filter (\<lambda>r. rr_id r = i) (recs s ch) = []" "en_fail env (ExecDelete ch) = None"
      using assms by (auto simp: index_view_of_def view_None_iff filter_empty_conv)
    with Cons show ?case by simp
  qed simp
  then show ?thesis by (simp add: Delete_def)
qed

lemma Delete_unopened_noop_witness:
  "Delete env0 ''b'' (index1\<lparr>sx_dbs := []\<rparr>) = (Inr (), index1\<lparr>sx_dbs := []\<rparr>)
   \<and> index_view_of env0 (index1\<lparr>sx_dbs := []\<rparr>) ''c'' ''b'' \<noteq> None"
  using Delete_unopened_noop [of "index1\<lparr>sx_dbs := []\<rparr>" env0 "''b''"]
  by (simp add: index_view_of_def view_None_iff index1_def db_of_index_with)
    (simp add: row_of_def late0_def)



lemma scan_query_row:
  assumes "scanSingleRow env ch (query_row env ch rs) = Inr e"
  obtains r xs where "rs = r # xs" "e = entry_of env ch r"
  using assms
  by (auto simp: scanSingleRow_def query_row_def ErrNoRecordings_def split: option.splits list.splits if_splits)

text \<open>An entry that \<open>FirstAvailable\<close> or \<open>LastAvailable\<close> returns is a playable entry of the channel.\<close>

lemma FirstAvailable_entry:
  assumes "index_inv s" "FirstAvailable env ch s = (r, s')"
  shows "index_inv s' \<and> db_of s' = db_of s
    \<and> (\<forall>e. r = Inr e \<longrightarrow> index_view_of env s ch (re_ID e) = Some e \<and> playable e)"
proof -
  obtain q s1 where g: "getDB env ch s = (q, s1)" by force
  note g1 = getDB_inv [OF g assms(1)]
  have t: "tables_ok (db_of s)" using assms(1) by (simp add: index_inv_def)
  have "s' = s1" "\<And>e. r = Inr e \<Longrightarrow> scanSingleRow env ch (query_row env ch
      (order_by_start env (filter row_playable (recs s1 ch)))) = Inr e"
    using assms(2) g by (auto simp: FirstAvailable_def split: sum.splits if_splits)
  moreover have "index_view_of env s ch (re_ID e) = Some e \<and> playable e"
    if "scanSingleRow env ch (query_row env ch (order_by_start env (filter row_playable (recs s1 ch)))) = Inr e" for e
  proof -
    from that obtain x xs where "order_by_start env (filter row_playable (recs s1 ch)) = x # xs" "e = entry_of env ch x"
      by (rule scan_query_row)
    moreover from this have "x \<in> set (filter row_playable (recs s1 ch))"
      by (metis list.set_intros(1) order_by_start_set)
    ultimately show ?thesis using g1 by (auto simp: index_view_of_def view_of_Some [OF t])
  qed
  ultimately show ?thesis using g1 by auto
qed

lemma LastAvailable_entry:
  assumes "index_inv s" "LastAvailable env ch s = (r, s')"
  shows "index_inv s' \<and> db_of s' = db_of s
    \<and> (\<forall>e. r = Inr e \<longrightarrow> index_view_of env s ch (re_ID e) = Some e \<and> playable e)"
proof -
  obtain q s1 where g: "getDB env ch s = (q, s1)" by force
  note g1 = getDB_inv [OF g assms(1)]
  have t: "tables_ok (db_of s)" using assms(1) by (simp add: index_inv_def)
  have "s' = s1" "\<And>e. r = Inr e \<Longrightarrow> scanSingleRow env ch (query_row env ch
      (rev (order_by_start env (filter row_playable (recs s1 ch))))) = Inr e"
    using assms(2) g by (auto simp: LastAvailable_def split: sum.splits if_splits)
  moreover have "index_view_of env s ch (re_ID e) = Some e \<and> playable e"
    if "scanSingleRow env ch (query_row env ch (rev (order_by_start env (filter row_playable (recs s1 ch))))) = Inr e" for e
  proof -
    from that obtain x xs where "rev (order_by_start env (filter row_playable (recs s1 ch))) = x # xs" "e = entry_of env ch x"
      by (rule scan_query_row)
    moreover from this have "x \<in> set (filter row_playable (recs s1 ch))"
      by (metis list.set_intros(1) order_by_start_set set_rev)
    ultimately show ?thesis using g1 by (auto simp: index_view_of_def view_of_Some [OF t])
  qed
  ultimately show ?thesis using g1 by auto
qed

subsection \<open>Keyframe positions\<close>

definition seek_key :: "string \<Rightarrow> int \<Rightarrow> seek_row \<Rightarrow> bool" where
  "seek_key i d r \<longleftrightarrow> sk_recording_id r = i \<and> sk_dts_ms r = d"

definition seek_row_of :: "string \<Rightarrow> SeekEntry \<Rightarrow> seek_row" where
  "seek_row_of i se = \<lparr>sk_recording_id = i, sk_dts_ms = se_DTSMS se, sk_byte_offset = se_ByteOffset se\<rparr>"

lemma insertSeeks_other:
  "insertSeeks env ch i ses t = Inr t' \<Longrightarrow> d \<notin> se_DTSMS ` set ses \<Longrightarrow>
     filter (seek_key i d) t' = filter (seek_key i d) t"
proof (induction ses arbitrary: t)
  case (Cons se ses)
  let ?t = "filter (\<lambda>r. \<not> (sk_recording_id r = i \<and> sk_dts_ms r = se_DTSMS se)) t
      @ [\<lparr>sk_recording_id = i, sk_dts_ms = se_DTSMS se, sk_byte_offset = se_ByteOffset se\<rparr>]"
  have "filter (seek_key i d) ?t = filter (seek_key i d) t"
    using Cons.prems(2) by (auto simp: seek_key_def intro!: filter_cong)
  moreover have "insertSeeks env ch i ses ?t = Inr t'" using Cons.prems(1) by (simp split: option.splits)
  ultimately show ?case using Cons.IH Cons.prems(2) by simp
qed simp

lemma insertSeeks_entry:
  "insertSeeks env ch i ses t = Inr t' \<Longrightarrow> distinct (map se_DTSMS ses) \<Longrightarrow> se \<in> set ses \<Longrightarrow>
     filter (seek_key i (se_DTSMS se)) t' = [seek_row_of i se]"
proof (induction ses arbitrary: t)
  case (Cons a ses)
  let ?t = "filter (\<lambda>r. \<not> (sk_recording_id r = i \<and> sk_dts_ms r = se_DTSMS a)) t
      @ [\<lparr>sk_recording_id = i, sk_dts_ms = se_DTSMS a, sk_byte_offset = se_ByteOffset a\<rparr>]"
  have ins: "insertSeeks env ch i ses ?t = Inr t'" using Cons.prems(1) by (simp split: option.splits)
  show ?case
  proof (cases "se \<in> set ses")
    case True
    with Cons ins show ?thesis by simp
  next
    case False
    with Cons.prems(3) have "se = a" by simp
    moreover have "filter (seek_key i (se_DTSMS a)) ?t = [seek_row_of i a]"
      by (auto simp: seek_key_def seek_row_of_def filter_empty_conv)
    moreover have "se_DTSMS a \<notin> se_DTSMS ` set ses" using Cons.prems(2) by auto
    ultimately show ?thesis using insertSeeks_other [OF ins] by simp
  qed
qed simp

lemma sorted_last_max:
  assumes "sorted (map f xs)" "x \<in> set xs"
  shows "f x \<le> f (last xs)"
proof -
  from assms(2) obtain i where "i < length xs" "x = xs ! i" by (auto simp: in_set_conv_nth)
  moreover have "xs \<noteq> []" using assms(2) by auto
  ultimately show ?thesis
    using sorted_nth_mono [OF assms(1), of i "length xs - 1"] by (simp add: last_conv_nth)
qed

text \<open>
  C13: after the keyframes of a segment have been stored, a seek to the timestamp of a keyframe
  finds the byte offset of that keyframe.
\<close>

theorem SeekInSegment_finds_keyframe:
  assumes "cache_ok s" "InsertSeekEntries env ch i ses s = (Inr (), s1)"
    and "distinct (map se_DTSMS ses)" "se \<in> set ses" "en_fail env (QuerySeek ch) = None"
  shows "fst (SeekInSegment env ch i (se_DTSMS se) s1) = Inr (se_ByteOffset se)"
proof -
  let ?d = "se_DTSMS se"
  obtain q s0 where g: "getDB env ch s = (q, s0)" by force
  have "ses \<noteq> []" using assms(4) by auto
  then obtain t' where q: "\<not> isl q" and ins: "insertSeeks env ch i ses (db_seek_index (db_of s0 ch)) = Inr t'"
    and s1: "s1 = put_db ch ((db_of s0 ch)\<lparr>db_seek_index := t'\<rparr>) s0"
    using assms(2) g by (auto simp: InsertSeekEntries_def split: sum.splits option.splits)
  have open1: "ch \<in> set (sx_dbs s1)" using getDB_frame [OF g assms(1)] q s1 by simp
  let ?c = "filter (\<lambda>r. sk_recording_id r = i \<and> sk_dts_ms r \<le> ?d) t'"
  let ?xs = "sort_key sk_dts_ms ?c"
  note one = insertSeeks_entry [OF ins assms(3,4)]
  then have mem: "seek_row_of i se \<in> set t'" by (metis filter_is_subset in_mono list.set_intros(1))
  then have mem': "seek_row_of i se \<in> set ?xs" by (simp add: seek_row_of_def)
  then have ne: "?xs \<noteq> []" by (metis empty_iff list.set(1))
  have last: "last ?xs \<in> set t'" "sk_recording_id (last ?xs) = i" "sk_dts_ms (last ?xs) \<le> ?d"
    using last_in_set [OF ne] by auto
  moreover have "?d \<le> sk_dts_ms (last ?xs)"
    using sorted_last_max [OF _ mem', of sk_dts_ms] by (simp add: seek_row_of_def)
  ultimately have "last ?xs \<in> set (filter (seek_key i ?d) t')" by (simp add: seek_key_def)
  with one have "last ?xs = seek_row_of i se" by simp
  then obtain zs where "?xs = zs @ [seek_row_of i se]" using ne by (metis append_butlast_last_id)
  then show ?thesis
    using open1 assms(5) s1 by (simp add: SeekInSegment_def getDB_def) (simp add: seek_row_of_def)
qed

lemma SeekInSegment_finds_keyframe_witness:
  "fst (SeekInSegment env0 ''c'' ''a'' 40 (snd (InsertSeekEntries env0 ''c'' ''a''
     [\<lparr>se_DTSMS = 0, se_ByteOffset = 100\<rparr>, \<lparr>se_DTSMS = 40, se_ByteOffset = 900\<rparr>] index1))) = Inr 900"
proof -
  let ?l = "[\<lparr>se_DTSMS = 0, se_ByteOffset = 100\<rparr>, \<lparr>se_DTSMS = 40, se_ByteOffset = 900\<rparr>]"
  have "cache_ok index1" using index_inv_index1 by (simp add: index_inv_def)
  moreover have "fst (InsertSeekEntries env0 ''c'' ''a'' ?l index1) = Inr ()"
    by (simp add: InsertSeekEntries_def index1_def getDB_index_with)
  then have "InsertSeekEntries env0 ''c'' ''a'' ?l index1 = (Inr (), snd (InsertSeekEntries env0 ''c'' ''a'' ?l index1))"
    by (metis prod.collapse)
  ultimately show ?thesis
    using SeekInSegment_finds_keyframe [of index1 env0 "''c''" "''a''" ?l _ "\<lparr>se_DTSMS = 40, se_ByteOffset = 900\<rparr>"]
    by simp
qed

end
