(* ===== verification/Playback.thy ===== *)
theory Playback
  imports Record_Index
begin

text \<open>
  The view service of \<^verbatim>\<open>pkg/edgeview/stream.go\<close>: the camera list, the resolution of a playback start,
  and the segment source that chains recorded files and goes over to the near-live buffer.

  The service works over any recording index. The environment of a call gives the index, the clock,
  the outcome of \<^verbatim>\<open>os.Open\<close> on a segment file, which channels have a packet buffer, and the relay hub's
  statistics. A demuxer is represented by what it plays. A wait for new segments is a list of
  environments, one per timer tick; the context is cancelled when the list ends.
\<close>

subsection \<open>The service\<close>

definition PlaybackModeRecorded :: string where "PlaybackModeRecorded = ''recorded''"
definition PlaybackModeFirstAvailable :: string where "PlaybackModeFirstAvailable = ''first_available''"
definition PlaybackModeLive :: string where "PlaybackModeLive = ''live''"

lemmas mode_defs = PlaybackModeRecorded_def PlaybackModeFirstAvailable_def PlaybackModeLive_def

definition errNoRecordingIndex :: go_error where
  "errNoRecordingIndex = ErrorString ''no recording index available on this relay''"
definition errNoRecordingsFound :: go_error where
  "errNoRecordingsFound = ErrorString ''no recordings found for the given range''"
definition io_EOF :: go_error where "io_EOF = ErrorString ''EOF''"
definition context_Canceled :: go_error where "context_Canceled = ErrorString ''context canceled''"

record CameraInfo =
  cam_CameraID :: string
  cam_Name :: string
  cam_Codec :: string
  cam_Resolution :: string
  cam_FPS :: int
  cam_Recording :: bool
  cam_Analytics :: bool
  cam_State :: string

record relay_stream =
  rs_Width :: int
  rs_Height :: int
  rs_Codec :: string

record 'ix Service =
  sv_recIndex :: "'ix option"
  sv_bufProv :: bool
  sv_chanW :: bool
  sv_recProv :: bool
  sv_collector :: bool
  sv_cameras :: "(string \<times> CameraInfo) list"
  sv_analyticsRelayHub :: bool
  sv_persistReader :: bool
  sv_liveAnalyticsStore :: bool
  sv_activeConsumers :: int

record 'ix play_env =
  pe_ops :: "'ix RecordingIndex"
  pe_now :: instant
  pe_Open :: "string \<Rightarrow> go_error option"
  pe_PacketBuffer :: "string \<Rightarrow> bool"
  pe_ActiveChannels :: "string set"
  pe_RelayStats :: "string \<Rightarrow> (rat \<times> relay_stream list) option"
  pe_mapOrder :: "(string \<times> CameraInfo) list \<Rightarrow> (string \<times> CameraInfo) list"

datatype service_option =
    WithChannelWriter | WithRecordingProvider | WithCollector | WithAnalyticsRelayHub
  | WithPersistenceReader | WithLiveAnalyticsStore

fun apply_service_option :: "service_option \<Rightarrow> 'ix Service \<Rightarrow> 'ix Service" where
  "apply_service_option WithChannelWriter s = s\<lparr>sv_chanW := True\<rparr>"
| "apply_service_option WithRecordingProvider s = s\<lparr>sv_recProv := True\<rparr>"
| "apply_service_option WithCollector s = s\<lparr>sv_collector := True\<rparr>"
| "apply_service_option WithAnalyticsRelayHub s = s\<lparr>sv_analyticsRelayHub := True\<rparr>"
| "apply_service_option WithPersistenceReader s = s\<lparr>sv_persistReader := True\<rparr>"
| "apply_service_option WithLiveAnalyticsStore s = s\<lparr>sv_liveAnalyticsStore := True\<rparr>"

definition NewService :: "'ix option \<Rightarrow> bool \<Rightarrow> service_option list \<Rightarrow> 'ix Service" where
  "NewService recIndex bufProv opts =
    fold apply_service_option opts
      \<lparr>sv_recIndex = recIndex, sv_bufProv = bufProv, sv_chanW = False, sv_recProv = False,
       sv_collector = False, sv_cameras = [], sv_analyticsRelayHub = False,
       sv_persistReader = False, sv_liveAnalyticsStore = False, sv_activeConsumers = 0\<rparr>"

definition SetAnalyticsRelayHub :: "'ix Service \<Rightarrow> 'ix Service" where
  "SetAnalyticsRelayHub s = s\<lparr>sv_analyticsRelayHub := True\<rparr>"

text \<open>The parts of a service that may be missing; the source of live analytics is named by its channel.\<close>

definition svc_AnalyticsRelayHub :: "'ix Service \<Rightarrow> bool" where [simp]: "svc_AnalyticsRelayHub s = sv_analyticsRelayHub s"
definition svc_PersistReader :: "'ix Service \<Rightarrow> bool" where [simp]: "svc_PersistReader s = sv_persistReader s"
definition svc_RecIndex :: "'ix Service \<Rightarrow> 'ix option" where [simp]: "svc_RecIndex s = sv_recIndex s"
definition svc_ChannelWriter :: "'ix Service \<Rightarrow> bool" where [simp]: "svc_ChannelWriter s = sv_chanW s"

definition svc_LiveAnalyticsSource :: "string \<Rightarrow> 'ix Service \<Rightarrow> string option" where [simp]:
  "svc_LiveAnalyticsSource channelID s = (if sv_liveAnalyticsStore s then Some channelID else None)"

definition RegisterCamera :: "CameraInfo \<Rightarrow> 'ix Service \<Rightarrow> 'ix Service" where
  "RegisterCamera info s = s\<lparr>sv_cameras := AList.update (cam_CameraID info) info (sv_cameras s)\<rparr>"

definition UnregisterCamera :: "string \<Rightarrow> 'ix Service \<Rightarrow> 'ix Service" where
  "UnregisterCamera cameraID s = s\<lparr>sv_cameras := AList.delete cameraID (sv_cameras s)\<rparr>"

definition enrich_camera :: "'ix play_env \<Rightarrow> 'ix Service \<Rightarrow> CameraInfo \<Rightarrow> CameraInfo" where
  "enrich_camera env s c =
    (let info = c\<lparr>cam_Recording := sv_recProv s \<and> cam_CameraID c \<in> pe_ActiveChannels env\<rparr>
     in case pe_RelayStats env (cam_CameraID info) of
          None \<Rightarrow> info
        | Some (fps, streams) \<Rightarrow>
          (let info = info\<lparr>cam_FPS := int64_of_float fps, cam_State := ''streaming''\<rparr>
           in case find (\<lambda>st. rs_Width st > 0) streams of
                None \<Rightarrow> info
              | Some st \<Rightarrow> info\<lparr>cam_Codec := rs_Codec st,
                  cam_Resolution := itoa (rs_Width st) @ ''x'' @ itoa (rs_Height st)\<rparr>))"

text \<open>The loop ranges over a Go map: each call visits its entries in an order of its own, \<open>pe_mapOrder\<close>.\<close>

definition ListCameras :: "'ix play_env \<Rightarrow> 'ix Service \<Rightarrow> CameraInfo list" where
  "ListCameras env s = map (\<lambda>(i, c). enrich_camera env s c) (pe_mapOrder env (sv_cameras s))"

definition HasPlayback :: "'ix Service \<Rightarrow> bool" where
  "HasPlayback s \<longleftrightarrow> sv_recIndex s \<noteq> None"

definition ViewerCount :: "'ix Service \<Rightarrow> int" where
  "ViewerCount s = sv_activeConsumers s"

text \<open>\<open>TrackConsumer\<close> counts a viewer; the function it returns is \<open>untrackConsumer\<close>.\<close>

definition TrackConsumer :: "'ix Service \<Rightarrow> 'ix Service" where
  "TrackConsumer s = s\<lparr>sv_activeConsumers := sv_activeConsumers s + 1\<rparr>"

definition untrackConsumer :: "'ix Service \<Rightarrow> 'ix Service" where
  "untrackConsumer s = s\<lparr>sv_activeConsumers := sv_activeConsumers s - 1\<rparr>"

definition ResolvePlaybackStart ::
  "'ix play_env \<Rightarrow> string \<Rightarrow> instant \<Rightarrow> instant \<Rightarrow> 'ix Service \<Rightarrow> (instant \<times> string) result \<times> 'ix Service" where
  "ResolvePlaybackStart env channelID from to s =
    (case sv_recIndex s of
       None \<Rightarrow> (Inl errNoRecordingIndex, s)
     | Some ix \<Rightarrow>
       (case ix_LastAvailable (pe_ops env) channelID ix of
          (Inl _, ix) \<Rightarrow>
            (if pe_now env < from then Inr (zero_time, PlaybackModeLive) else Inl errNoRecordingsFound,
             s\<lparr>sv_recIndex := Some ix\<rparr>)
        | (Inr latest, ix) \<Rightarrow>
            if re_EndTime latest < from then (Inr (zero_time, PlaybackModeLive), s\<lparr>sv_recIndex := Some ix\<rparr>)
            else
              (case ix_QueryByChannel (pe_ops env) channelID from to ix of
                 (Inl e, ix) \<Rightarrow> (Inl e, s\<lparr>sv_recIndex := Some ix\<rparr>)
               | (Inr (e # _), ix) \<Rightarrow>
                   (Inr (if from < re_StartTime e then re_StartTime e else from, PlaybackModeRecorded),
                    s\<lparr>sv_recIndex := Some ix\<rparr>)
               | (Inr [], ix) \<Rightarrow>
                   (case ix_FirstAvailable (pe_ops env) channelID ix of
                      (Inl _, ix) \<Rightarrow> (Inl errNoRecordingsFound, s\<lparr>sv_recIndex := Some ix\<rparr>)
                    | (Inr first, ix) \<Rightarrow>
                        (Inr (re_StartTime first, PlaybackModeFirstAvailable),
                         s\<lparr>sv_recIndex := Some ix\<rparr>)))))"

definition Timeline ::
  "'ix play_env \<Rightarrow> string \<Rightarrow> instant \<Rightarrow> instant \<Rightarrow> 'ix Service \<Rightarrow> RecordingEntry list result \<times> 'ix Service" where
  "Timeline env cameraID start end_time s =
    (case sv_recIndex s of
       None \<Rightarrow> (Inl errNoRecordingIndex, s)
     | Some ix \<Rightarrow>
       (case ix_QueryByChannel (pe_ops env) cameraID start end_time ix of
          (r, ix) \<Rightarrow> (r, s\<lparr>sv_recIndex := Some ix\<rparr>)))"

subsection \<open>Segment sources\<close>

datatype demuxer =
    FileDemuxer string
  | WallClockStamping demuxer instant
  | BufferDemuxer string instant
  | MetadataMerger demuxer string bool

text \<open>What a source hands to the metrics collector; the latencies themselves are left out.\<close>

datatype playback_report = SegmentOpened string | FragmentGap duration string | RecToLive string

record indexSource =
  is_entries :: "RecordingEntry list"
  is_idx :: nat
  is_seenIDs :: "string set"
  is_follow :: bool
  is_channelID :: string
  is_bufProv :: bool
  is_usedBuf :: bool
  is_wallClockStamp :: bool
  is_lastSegEnd :: instant
  is_lastGap :: duration
  is_collector :: bool
  is_reports :: "playback_report list"

definition gapThreshold :: duration where "gapThreshold = 5 * Second"

definition openFMP4File :: "'ix play_env \<Rightarrow> string \<Rightarrow> demuxer result" where
  "openFMP4File env path = (case pe_Open env path of Some e \<Rightarrow> Inl e | None \<Rightarrow> Inr (FileDemuxer path))"

definition stamp :: "bool \<Rightarrow> RecordingEntry \<Rightarrow> demuxer \<Rightarrow> demuxer" where
  "stamp wallClockStamp e dmx =
    (if wallClockStamp \<and> re_StartTime e \<noteq> zero_time then WallClockStamping dmx (re_StartTime e) else dmx)"

fun openFrom ::
  "'ix play_env \<Rightarrow> bool \<Rightarrow> nat \<Rightarrow> RecordingEntry list \<Rightarrow> (demuxer option \<times> nat) result" where
  "openFrom env wallClockStamp i [] = Inr (None, 0)"
| "openFrom env wallClockStamp i (e # es) =
    (case openFMP4File env (re_FilePath e) of
       Inl err \<Rightarrow> if os_IsNotExist err then openFrom env wallClockStamp (i + 1) es else Inl err
     | Inr dmx \<Rightarrow> Inr (Some (stamp wallClockStamp e dmx), i + 1))"

definition openFirstSegment ::
  "'ix play_env \<Rightarrow> RecordingEntry list \<Rightarrow> bool \<Rightarrow> (demuxer option \<times> nat) result" where
  "openFirstSegment env entries wallClockStamp = openFrom env wallClockStamp 0 entries"

definition liveFallback :: "'ix play_env \<Rightarrow> 'ix Service \<Rightarrow> string \<Rightarrow> instant \<Rightarrow> bool \<Rightarrow> demuxer option" where
  "liveFallback env s channelID from follow =
    (if \<not> follow \<or> \<not> sv_bufProv s then None
     else if pe_PacketBuffer env channelID then Some (BufferDemuxer channelID from) else None)"

definition wrapWithAnalyticsMerger :: "demuxer \<Rightarrow> string \<Rightarrow> bool \<Rightarrow> demuxer" where
  "wrapWithAnalyticsMerger dmx channelID liveSource = MetadataMerger dmx channelID liveSource"

text \<open>A chain is its first demuxer and the source of the rest; a buffer demuxer has no source.\<close>

definition recordedChain ::
  "'ix play_env \<Rightarrow> bool \<Rightarrow> string \<Rightarrow> instant \<Rightarrow> instant \<Rightarrow> 'ix Service
     \<Rightarrow> (demuxer \<times> indexSource option) result \<times> 'ix Service" where
  "recordedChain env wallClockStamp channelID from to s =
    (let follow = (to = zero_time) in
     case sv_recIndex s of
       None \<Rightarrow> (Inl errNoRecordingIndex, s)
     | Some ix \<Rightarrow>
       (case ix_QueryByChannel (pe_ops env) channelID from to ix of
          (Inl e, ix) \<Rightarrow> (Inl e, s\<lparr>sv_recIndex := Some ix\<rparr>)
        | (Inr entries, ix) \<Rightarrow>
          (let s = s\<lparr>sv_recIndex := Some ix\<rparr> in
           case openFirstSegment env entries wallClockStamp of
             Inl e \<Rightarrow> (Inl e, s)
           | Inr (None, _) \<Rightarrow>
               (case liveFallback env s channelID from follow of
                  Some dmx \<Rightarrow> (Inr (dmx, None), s)
                | None \<Rightarrow> (Inl errNoRecordingsFound, s))
           | Inr (Some first, startIdx) \<Rightarrow>
               (Inr (first, Some \<lparr>is_entries = entries, is_idx = startIdx,
                  is_seenIDs = re_ID ` set entries, is_follow = follow, is_channelID = channelID,
                  is_bufProv = sv_bufProv s, is_usedBuf = False, is_wallClockStamp = wallClockStamp,
                  is_lastSegEnd = zero_time, is_lastGap = 0,
                  is_collector = sv_collector s, is_reports = []\<rparr>), s))))"

definition RecordedDemuxerFactory ::
  "'ix play_env \<Rightarrow> string \<Rightarrow> instant \<Rightarrow> instant \<Rightarrow> 'ix Service
     \<Rightarrow> (demuxer \<times> indexSource option) result \<times> 'ix Service" where
  "RecordedDemuxerFactory env channelID from to s = recordedChain env False channelID from to s"

definition AnalyticsRecordedDemuxerFactory ::
  "'ix play_env \<Rightarrow> string \<Rightarrow> instant \<Rightarrow> instant \<Rightarrow> bool \<Rightarrow> 'ix Service
     \<Rightarrow> (demuxer \<times> indexSource option) result \<times> 'ix Service" where
  "AnalyticsRecordedDemuxerFactory env channelID from to liveSource s =
    (case recordedChain env True channelID from to s of
       (Inl e, s) \<Rightarrow> (Inl e, s)
     | (Inr (dmx, src), s) \<Rightarrow> (Inr (wrapWithAnalyticsMerger dmx channelID liveSource, src), s))"

definition report_playback :: "playback_report list \<Rightarrow> indexSource \<Rightarrow> indexSource" where
  "report_playback rs src = (if is_collector src then src\<lparr>is_reports := is_reports src @ rs\<rparr> else src)"

lemma report_playback_simps [simp]:
  "is_entries (report_playback rs src) = is_entries src" "is_idx (report_playback rs src) = is_idx src"
  "is_seenIDs (report_playback rs src) = is_seenIDs src" "is_follow (report_playback rs src) = is_follow src"
  "is_channelID (report_playback rs src) = is_channelID src" "is_bufProv (report_playback rs src) = is_bufProv src"
  "is_usedBuf (report_playback rs src) = is_usedBuf src" "is_lastSegEnd (report_playback rs src) = is_lastSegEnd src"
  "is_wallClockStamp (report_playback rs src) = is_wallClockStamp src" "is_lastGap (report_playback rs src) = is_lastGap src"
  "is_collector (report_playback rs src) = is_collector src"
  "is_reports (report_playback rs src) = is_reports src @ (if is_collector src then rs else [])"
  by (simp_all add: report_playback_def)

definition openEntry ::
  "'ix play_env \<Rightarrow> RecordingEntry \<Rightarrow> indexSource \<Rightarrow> demuxer result \<times> indexSource" where
  "openEntry env entry src =
    (case openFMP4File env (re_FilePath entry) of
       Inl e \<Rightarrow> (Inl e, src)
     | Inr dmx \<Rightarrow>
       (let gap = time_Sub (re_StartTime entry) (is_lastSegEnd src);
            lastGap = (if is_lastSegEnd src \<noteq> zero_time \<and> re_StartTime entry \<noteq> zero_time
                          \<and> gap \<ge> gapThreshold then gap else 0)
        in (Inr (stamp (is_wallClockStamp src) entry dmx),
            (report_playback (SegmentOpened (re_FilePath entry) # (if lastGap \<noteq> 0 then [FragmentGap lastGap (is_channelID src)] else []))
               src)\<lparr>is_lastGap := lastGap,
                is_lastSegEnd := (if re_EndTime entry \<noteq> zero_time then re_EndTime entry
                                  else is_lastSegEnd src)\<rparr>)))"

text \<open>The loop \<^verbatim>\<open>for s.idx < len(s.entries)\<close>, over the entries that are left.\<close>

fun openRemaining ::
  "'ix play_env \<Rightarrow> RecordingEntry list \<Rightarrow> indexSource \<Rightarrow> demuxer option result \<times> indexSource" where
  "openRemaining env [] src = (Inr None, src)"
| "openRemaining env (e # es) src =
    (case openEntry env e (src\<lparr>is_idx := is_idx src + 1\<rparr>) of
       (Inl err, src) \<Rightarrow> if os_IsNotExist err then openRemaining env es src else (Inl err, src)
     | (Inr dmx, src) \<Rightarrow> (Inr (Some dmx), src))"

definition openPending :: "'ix play_env \<Rightarrow> indexSource \<Rightarrow> demuxer option result \<times> indexSource" where
  "openPending env src = openRemaining env (drop (is_idx src) (is_entries src)) src"

definition addUnseen :: "RecordingEntry list \<Rightarrow> indexSource \<Rightarrow> indexSource" where
  "addUnseen newEntries src =
    fold (\<lambda>e src. if re_ID e \<in> is_seenIDs src then src
                   else src\<lparr>is_seenIDs := insert (re_ID e) (is_seenIDs src),
                            is_entries := is_entries src @ [e]\<rparr>) newEntries src"

definition afterTime :: "indexSource \<Rightarrow> instant" where
  "afterTime src = (if is_entries src \<noteq> [] then re_EndTime (last (is_entries src)) else zero_time)"

definition waitForNextWithTimeout ::
  "'ix play_env \<Rightarrow> indexSource \<Rightarrow> 'ix \<Rightarrow> demuxer option result \<times> indexSource \<times> 'ix" where
  "waitForNextWithTimeout env src ix =
    (case ix_QueryByChannel (pe_ops env) (is_channelID src) (afterTime src) zero_time ix of
       (Inl _, ix) \<Rightarrow> (Inr None, src, ix)
     | (Inr newEntries, ix) \<Rightarrow>
       (case openPending env (addUnseen newEntries src) of (r, src) \<Rightarrow> (r, src, ix)))"

fun pollNext ::
  "'ix play_env list \<Rightarrow> instant \<Rightarrow> indexSource \<Rightarrow> 'ix \<Rightarrow> demuxer result \<times> indexSource \<times> 'ix" where
  "pollNext [] after src ix = (Inl context_Canceled, src, ix)"
| "pollNext (env # envs) after src ix =
    (case ix_QueryByChannel (pe_ops env) (is_channelID src) after zero_time ix of
       (Inl _, ix) \<Rightarrow> pollNext envs after src ix
     | (Inr newEntries, ix) \<Rightarrow>
       (case openPending env (addUnseen newEntries src) of
          (Inl err, src) \<Rightarrow> (Inl err, src, ix)
        | (Inr (Some dmx), src) \<Rightarrow> (Inr dmx, src, ix)
        | (Inr None, src) \<Rightarrow> pollNext envs after src ix))"

definition waitForNext ::
  "'ix play_env list \<Rightarrow> indexSource \<Rightarrow> 'ix \<Rightarrow> demuxer result \<times> indexSource \<times> 'ix" where
  "waitForNext ticks src ix = pollNext ticks (afterTime src) src ix"

definition tryLiveTransition :: "'ix play_env \<Rightarrow> indexSource \<Rightarrow> demuxer option \<times> indexSource" where
  "tryLiveTransition env src =
    (if is_usedBuf src \<or> \<not> is_bufProv src then (None, src)
     else if \<not> pe_PacketBuffer env (is_channelID src) then (None, src)
     else let since = (if is_entries src \<noteq> [] then re_EndTime (last (is_entries src))
                       else pe_now env - 30 * Second)
          in (Some (BufferDemuxer (is_channelID src) since),
              report_playback [RecToLive (is_channelID src)] (src\<lparr>is_usedBuf := True\<rparr>)))"

definition Next ::
  "'ix play_env \<Rightarrow> 'ix play_env list \<Rightarrow> indexSource \<Rightarrow> 'ix \<Rightarrow> demuxer result \<times> indexSource \<times> 'ix" where
  "Next env ticks src ix =
    (case openPending env src of
       (Inl e, src) \<Rightarrow> (Inl e, src, ix)
     | (Inr (Some dmx), src) \<Rightarrow> (Inr dmx, src, ix)
     | (Inr None, src) \<Rightarrow>
       if \<not> is_follow src then (Inl io_EOF, src, ix)
       else
         (case waitForNextWithTimeout env src ix of
            (Inl e, src, ix) \<Rightarrow> (Inl e, src, ix)
          | (Inr (Some dmx), src, ix) \<Rightarrow> (Inr dmx, src, ix)
          | (Inr None, src, ix) \<Rightarrow>
            (case tryLiveTransition env src of
               (Some dmx, src) \<Rightarrow> (Inr dmx, src, ix)
             | (None, src) \<Rightarrow> waitForNext ticks src ix)))"

definition LastGap :: "indexSource \<Rightarrow> duration" where
  "LastGap src = is_lastGap src"

fun openAtFrom ::
  "'ix play_env \<Rightarrow> RecordingEntry list \<Rightarrow> nat \<Rightarrow> RecordingEntry list \<Rightarrow> indexSource \<Rightarrow> demuxer result \<times> indexSource" where
  "openAtFrom env entries i [] src = (Inl io_EOF, src)"
| "openAtFrom env entries i (e # es) src =
    (case openFMP4File env (re_FilePath e) of
       Inl err \<Rightarrow> if os_IsNotExist err then openAtFrom env entries (i + 1) es src else (Inl err, src)
     | Inr dmx \<Rightarrow>
       (Inr (stamp (is_wallClockStamp src) e dmx),
        src\<lparr>is_entries := entries, is_idx := i + 1,
            is_seenIDs := re_ID ` set entries \<union> is_seenIDs src, is_lastGap := 0,
            is_lastSegEnd := (if re_EndTime e \<noteq> zero_time then re_EndTime e else is_lastSegEnd src)\<rparr>))"

definition OpenAt ::
  "'ix play_env \<Rightarrow> instant \<Rightarrow> indexSource \<Rightarrow> 'ix \<Rightarrow> demuxer result \<times> indexSource \<times> 'ix" where
  "OpenAt env ts src ix =
    (case ix_QueryByChannel (pe_ops env) (is_channelID src) ts zero_time ix of
       (Inl e, ix) \<Rightarrow> (Inl (WrapError ''openat query: '' e []), src, ix)
     | (Inr entries, ix) \<Rightarrow>
       if entries = [] then (Inl io_EOF, src, ix)
       else (case openAtFrom env entries 0 entries src of (r, src) \<Rightarrow> (r, src, ix)))"

subsection \<open>Resolving a playback start\<close>

lemma mode_neq [simp]:
  "PlaybackModeLive \<noteq> PlaybackModeRecorded" "PlaybackModeLive \<noteq> PlaybackModeFirstAvailable"
  "PlaybackModeRecorded \<noteq> PlaybackModeFirstAvailable" "PlaybackModeRecorded \<noteq> PlaybackModeLive"
  "PlaybackModeFirstAvailable \<noteq> PlaybackModeRecorded" "PlaybackModeFirstAvailable \<noteq> PlaybackModeLive"
  by (simp_all add: mode_defs)

lemma ResolvePlaybackStart_cases:
  assumes "ResolvePlaybackStart env ch from to s = (Inr (t, mode), s')" "sv_recIndex s = Some ix"
  obtains
    (none) err ix1 where "ix_LastAvailable (pe_ops env) ch ix = (Inl err, ix1)" "pe_now env < from"
      "t = zero_time" "mode = PlaybackModeLive"
  | (beyond) latest ix1 where "ix_LastAvailable (pe_ops env) ch ix = (Inr latest, ix1)"
      "re_EndTime latest < from" "t = zero_time" "mode = PlaybackModeLive"
  | (recorded) latest ix1 e es ix2 where "ix_LastAvailable (pe_ops env) ch ix = (Inr latest, ix1)"
      "from \<le> re_EndTime latest" "ix_QueryByChannel (pe_ops env) ch from to ix1 = (Inr (e # es), ix2)"
      "t = max from (re_StartTime e)" "mode = PlaybackModeRecorded"
  | (first) latest ix1 ix2 e ix3 where "ix_LastAvailable (pe_ops env) ch ix = (Inr latest, ix1)"
      "from \<le> re_EndTime latest" "ix_QueryByChannel (pe_ops env) ch from to ix1 = (Inr [], ix2)"
      "ix_FirstAvailable (pe_ops env) ch ix2 = (Inr e, ix3)" "t = re_StartTime e"
      "mode = PlaybackModeFirstAvailable"
proof -
  obtain l ix1 where l: "ix_LastAvailable (pe_ops env) ch ix = (l, ix1)" by force
  show ?thesis
  proof (cases l)
    case (Inl err)
    then show ?thesis using assms l none by (auto simp: ResolvePlaybackStart_def split: if_splits)
  next
    case (Inr latest)
    obtain q ix2 where q: "ix_QueryByChannel (pe_ops env) ch from to ix1 = (q, ix2)" by force
    obtain f ix3 where f: "ix_FirstAvailable (pe_ops env) ch ix2 = (f, ix3)" by force
    show ?thesis
    proof (cases "re_EndTime latest < from")
      case True
      then show ?thesis using assms l Inr beyond by (simp add: ResolvePlaybackStart_def)
    next
      case False
      show ?thesis
      proof (cases q)
        case (Inl e)
        then show ?thesis using assms l Inr False q by (simp add: ResolvePlaybackStart_def)
      next
        case entries: (Inr es)
        show ?thesis
        proof (cases es)
          case Nil
          then show ?thesis using assms l Inr False q f entries first
            by (auto simp: ResolvePlaybackStart_def split: sum.splits)
        next
          case (Cons e es')
          then show ?thesis using assms l Inr False q entries recorded [of latest ix1 e es' ix2]
            by (auto simp: ResolvePlaybackStart_def max_def)
        qed
      qed
    qed
  qed
qed

lemma order_by_start_single [simp]: "order_by_start env [r] = [r]" "order_by_start env [] = []"
  by (simp_all add: order_by_start_def)

lemma row_playable_row_of [simp]: "row_playable (row_of e) = playable e"
  by (simp add: row_playable_def playable_def row_of_def status_defs)

text \<open>The index that holds one entry.\<close>

lemma single_entry:
  assumes "storable e" "playable e" "re_ChannelID e = ''c''"
  shows "LastAvailable env0 ''c'' (index_with [row_of e]) = (Inr (stored e), index_with [row_of e])"
    and "FirstAvailable env0 ''c'' (index_with [row_of e]) = (Inr (stored e), index_with [row_of e])"
    and "QueryByChannel env0 ''c'' f t (index_with [row_of e])
      = (Inr (if row_selected f t (row_of e) then [stored e] else []), index_with [row_of e])"
    and "index_inv (index_with [row_of e])"
proof -
  have "entry_of env0 ''c'' (row_of e) = stored e" using entry_of_row_of [OF assms(1), of env0] assms(3) by simp
  with assms(2) show "LastAvailable env0 ''c'' (index_with [row_of e]) = (Inr (stored e), index_with [row_of e])"
    "FirstAvailable env0 ''c'' (index_with [row_of e]) = (Inr (stored e), index_with [row_of e])"
    "QueryByChannel env0 ''c'' f t (index_with [row_of e])
      = (Inr (if row_selected f t (row_of e) then [stored e] else []), index_with [row_of e])"
    by (simp_all add: LastAvailable_def FirstAvailable_def QueryByChannel_def getDB_index_with db_of_index_with
        query_row_def scanSingleRow_def scanRecordingRow_def)
  show "index_inv (index_with [row_of e])" using index_inv_index_with [of "[e]"] assms(1) by simp
qed

definition clip0 :: RecordingEntry where
  "clip0 = \<lparr>re_ID = ''a'', re_ChannelID = ''c'', re_StartTime = 500000000, re_EndTime = 1500000000,
     re_FilePath = ''f'', re_SizeBytes = 4096, re_Status = StatusComplete,
     re_HasMotion = False, re_HasObjects = False, re_HasEvents = False\<rparr>"

definition play_env0 :: "sqliteIndex play_env" where
  "play_env0 = \<lparr>pe_ops = sqlite_ops env0, pe_now = 9, pe_Open = (\<lambda>_. None), pe_PacketBuffer = (\<lambda>_. True),
     pe_ActiveChannels = {}, pe_RelayStats = (\<lambda>_. None), pe_mapOrder = (\<lambda>xs. xs)\<rparr>"

definition service0 :: "sqliteIndex Service" where
  "service0 = NewService (Some (index_with [row_of clip0])) True []"

lemma clip0_ok: "storable clip0" "playable clip0" "re_ChannelID clip0 = ''c''" "stored clip0 = clip0"
  by (simp_all add: clip0_def storable_def playable_def stored_def fmt_range_def)

lemma service0_fields: "pe_ops play_env0 = sqlite_ops env0" "sv_recIndex service0 = Some (index_with [row_of clip0])"
  by (simp_all add: play_env0_def service0_def NewService_def)

lemma row_selected_clip0: "row_selected 0 0 (row_of clip0)" "\<not> row_selected 1000000000 0 (row_of clip0)"
  using fmt_RFC3339Nano_inverted [of 1000000000 500000000]
  by (simp_all add: row_selected_def clip0_ok) (simp add: row_of_def clip0_def fmt_range_def Second_def)

lemma Resolve_clip0:
  "ResolvePlaybackStart play_env0 ''c'' 0 0 service0 = (Inr (500000000, PlaybackModeRecorded), service0)"
  "ResolvePlaybackStart play_env0 ''c'' 1000000000 0 service0 = (Inr (500000000, PlaybackModeFirstAvailable), service0)"
  using single_entry [OF clip0_ok(1-3)] row_selected_clip0 clip0_ok(4) service0_fields
  by (simp_all add: ResolvePlaybackStart_def sqlite_ops_def clip0_def service0_def NewService_def)



text \<open>
  With an open upper bound, as every caller has it, mode \<^verbatim>\<open>first_available\<close> is never chosen for a
  start before the recordings: it needs a latest recording that ends after the requested time, but
  by less than a second, and that the text comparison of the index misses.
\<close>

theorem first_available_only_by_skew:
  assumes "pe_ops env = sqlite_ops ie" "sv_recIndex s = Some ix" "index_inv ix" "fmt_range from"
    and "ResolvePlaybackStart env ch from zero_time s = (Inr (t, PlaybackModeFirstAvailable), s')"
  shows "\<exists>latest. index_view_of ie ix ch (re_ID latest) = Some latest \<and> playable latest
    \<and> from < re_EndTime latest \<and> re_EndTime latest < from + Second"
  using assms(5,2)
proof (cases rule: ResolvePlaybackStart_cases)
  case (first latest ix1 ix2 e ix3)
  have l: "index_inv ix1" "index_view_of ie ix1 = index_view_of ie ix"
    "index_view_of ie ix ch (re_ID latest) = Some latest" "playable latest"
    using LastAvailable_entry [OF assms(3)] first(1) assms(1) by (auto simp: sqlite_ops_def index_view_of_def)
  have q: "QueryByChannel ie ch from zero_time ix1 = (Inr [], ix2)"
    using first(3) assms(1) by (simp add: sqlite_ops_def)
  have "\<not> (from = zero_time \<or> from + Second \<le> re_EndTime latest \<or> from = re_EndTime latest)"
    using QueryByChannel_complete [OF l(1) q assms(4), of "re_ID latest" latest] l
    by (auto simp: fmt_range_def)
  with first(2) l show ?thesis by auto
qed simp_all

lemma first_available_only_by_skew_witness:
  "\<exists>latest. index_view_of env0 (index_with [row_of clip0]) ''c'' (re_ID latest) = Some latest
     \<and> 1000000000 < re_EndTime latest \<and> re_EndTime latest < 1000000000 + Second"
proof -
  have "fmt_range 1000000000" by (simp add: fmt_range_def)
  from first_available_only_by_skew [OF service0_fields single_entry(4) [OF clip0_ok(1-3)] this Resolve_clip0(2)]
  show ?thesis by blast
qed

subsection \<open>Playing the recorded segments in order\<close>

definition openable :: "'ix play_env \<Rightarrow> RecordingEntry \<Rightarrow> bool" where
  "openable env e \<longleftrightarrow> pe_Open env (re_FilePath e) = None"

text \<open>Every file opens, or was removed by retention.\<close>

definition files_settled :: "'ix play_env \<Rightarrow> RecordingEntry list \<Rightarrow> bool" where
  "files_settled env es \<longleftrightarrow> (\<forall>e \<in> set es. \<forall>err. pe_Open env (re_FilePath e) = Some err \<longrightarrow> os_IsNotExist err)"

definition segment_of :: "bool \<Rightarrow> RecordingEntry \<Rightarrow> demuxer" where
  "segment_of w e = stamp w e (FileDemuxer (re_FilePath e))"

text \<open>What a reader gets that asks for the next segment \<open>n\<close> times, up to the first error.\<close>

fun playout :: "nat \<Rightarrow> 'ix play_env \<Rightarrow> indexSource \<Rightarrow> 'ix \<Rightarrow> demuxer list" where
  "playout 0 env src ix = []"
| "playout (Suc n) env src ix =
    (case Next env [] src ix of
       (Inl _, src, ix) \<Rightarrow> []
     | (Inr dmx, src, ix) \<Rightarrow> dmx # playout n env src ix)"

lemma openEntry_missing:
  "openFMP4File env (re_FilePath e) = Inl err \<Longrightarrow> openEntry env e src = (Inl err, src)"
  by (simp add: openEntry_def)

lemma openEntry_frame:
  "openEntry env e src = (r, src') \<Longrightarrow>
     is_idx src' = is_idx src \<and> is_entries src' = is_entries src \<and> is_seenIDs src' = is_seenIDs src
     \<and> is_follow src' = is_follow src \<and> is_channelID src' = is_channelID src
     \<and> is_wallClockStamp src' = is_wallClockStamp src \<and> is_usedBuf src' = is_usedBuf src
     \<and> is_bufProv src' = is_bufProv src"
  by (auto simp: openEntry_def Let_def split: sum.splits)

lemma openRemaining_spec:
  assumes "files_settled env es"
  shows "\<exists>src'. openRemaining env es src =
      (Inr (map_option (segment_of (is_wallClockStamp src)) (find (openable env) es)), src')
    \<and> is_idx src' = is_idx src + length es - length (tl (dropWhile (\<lambda>e. \<not> openable env e) es))
    \<and> is_entries src' = is_entries src \<and> is_seenIDs src' = is_seenIDs src \<and> is_follow src' = is_follow src
    \<and> is_channelID src' = is_channelID src \<and> is_wallClockStamp src' = is_wallClockStamp src
    \<and> is_usedBuf src' = is_usedBuf src \<and> is_bufProv src' = is_bufProv src"
  using assms
proof (induction es arbitrary: src)
  case (Cons e es)
  let ?src = "src\<lparr>is_idx := is_idx src + 1\<rparr>"
  show ?case
  proof (cases "openable env e")
    case True
    obtain r src' where o: "openEntry env e ?src = (r, src')" by force
    have "r = Inr (segment_of (is_wallClockStamp src) e)"
      using o True by (auto simp: openEntry_def openFMP4File_def openable_def segment_of_def Let_def)
    with o True openEntry_frame [OF o] show ?thesis by simp
  next
    case False
    then obtain err where err: "pe_Open env (re_FilePath e) = Some err" by (auto simp: openable_def)
    then have "os_IsNotExist err" using Cons.prems by (simp add: files_settled_def)
    moreover have "openEntry env e ?src = (Inl err, ?src)"
      using err by (simp add: openEntry_missing openFMP4File_def)
    moreover have "files_settled env es" using Cons.prems by (simp add: files_settled_def)
    ultimately show ?thesis using Cons.IH [of ?src] False by auto
  qed
qed simp

lemma find_dropWhile: "find P xs = (case dropWhile (\<lambda>x. \<not> P x) xs of [] \<Rightarrow> None | x # _ \<Rightarrow> Some x)"
  by (induction xs) auto

lemma filter_dropWhile: "filter P (dropWhile (\<lambda>x. \<not> P x) xs) = filter P xs"
  by (induction xs) auto

lemma Next_recorded:
  assumes "files_settled env (drop (is_idx src) (is_entries src))" "\<not> is_follow src" "is_idx src \<le> length (is_entries src)"
  shows "case dropWhile (\<lambda>e. \<not> openable env e) (drop (is_idx src) (is_entries src)) of
      [] \<Rightarrow> fst (Next env ticks src ix) = Inl io_EOF
    | e # rest \<Rightarrow> \<exists>src'. Next env ticks src ix = (Inr (segment_of (is_wallClockStamp src) e), src', ix)
        \<and> drop (is_idx src') (is_entries src') = rest \<and> is_entries src' = is_entries src
        \<and> is_idx src' \<le> length (is_entries src') \<and> \<not> is_follow src'
        \<and> is_wallClockStamp src' = is_wallClockStamp src"
proof -
  let ?es = "drop (is_idx src) (is_entries src)"
  let ?dw = "dropWhile (\<lambda>e. \<not> openable env e) ?es"
  obtain src' where o: "openRemaining env ?es src =
      (Inr (map_option (segment_of (is_wallClockStamp src)) (find (openable env) ?es)), src')"
    and i: "is_idx src' = is_idx src + length ?es - length (tl ?dw)"
    and f: "is_entries src' = is_entries src" "is_follow src' = is_follow src"
      "is_wallClockStamp src' = is_wallClockStamp src"
    using openRemaining_spec [OF assms(1), of src] by blast
  show ?thesis
  proof (cases ?dw)
    case Nil
    have "find (openable env) ?es = None" unfolding find_dropWhile Nil by simp
    then show ?thesis unfolding Nil using o f assms(2) by (simp add: Next_def openPending_def)
  next
    case (Cons e rest)
    have "is_idx src' = length (is_entries src) - length rest" using i assms(3) Cons by simp
    moreover have "suffix rest (is_entries src)"
    proof -
      have "suffix ?dw ?es" by (rule suffix_dropWhile)
      moreover have "suffix rest ?dw" using Cons by (simp add: suffix_ConsI)
      ultimately show ?thesis using suffix_drop suffix_order.order_trans by blast
    qed
    ultimately have "drop (is_idx src') (is_entries src') = rest" "is_idx src' \<le> length (is_entries src')"
      using f(1) by (auto simp: suffix_def)
    then show ?thesis using Cons o f assms(2) by (simp add: Next_def openPending_def find_dropWhile)
  qed
qed


definition source0 :: indexSource where
  "source0 = \<lparr>is_entries = [clip0, clip0\<lparr>re_ID := ''b'', re_FilePath := ''gone''\<rparr>], is_idx = 0,
     is_seenIDs = {''a'', ''b''}, is_follow = False, is_channelID = ''c'', is_bufProv = True,
     is_usedBuf = False, is_wallClockStamp = False, is_lastSegEnd = 0, is_lastGap = 0,
     is_collector = True, is_reports = []\<rparr>"

definition play_env1 :: "sqliteIndex play_env" where
  "play_env1 = play_env0\<lparr>pe_Open := (\<lambda>p. if p = ''gone'' then Some (PathError ENOENT ''gone'') else None)\<rparr>"


subsection \<open>Following the live edge\<close>

definition source_inv :: "indexSource \<Rightarrow> bool" where
  "source_inv src \<longleftrightarrow> distinct (map re_ID (is_entries src)) \<and> re_ID ` set (is_entries src) \<subseteq> is_seenIDs src
     \<and> is_idx src \<le> length (is_entries src)"

text \<open>How a step may change a source: entries are only appended and the cursor only advances.\<close>

definition advances :: "indexSource \<Rightarrow> indexSource \<Rightarrow> bool" where
  "advances src src' \<longleftrightarrow> source_inv src' \<and> (\<exists>xs. is_entries src' = is_entries src @ xs) \<and> is_idx src \<le> is_idx src'"

lemma advances_refl: "source_inv src \<Longrightarrow> advances src src"
  by (simp add: advances_def)

lemma advances_trans: "advances a b \<Longrightarrow> advances b c \<Longrightarrow> advances a c"
  by (auto simp: advances_def)

lemma openRemaining_frame:
  assumes "openRemaining env es src = (r, src')"
  shows "is_entries src' = is_entries src \<and> is_seenIDs src' = is_seenIDs src \<and> is_idx src \<le> is_idx src'
    \<and> is_idx src' \<le> is_idx src + length es \<and> (\<forall>d. r = Inr (Some d) \<longrightarrow> is_idx src < is_idx src')"
  using assms
proof (induction es arbitrary: src)
  case (Cons e es)
  obtain q src1 where o: "openEntry env e (src\<lparr>is_idx := is_idx src + 1\<rparr>) = (q, src1)" by force
  note f = openEntry_frame [OF o]
  show ?case
  proof (cases "\<exists>err. q = Inl err \<and> os_IsNotExist err")
    case True
    then have "openRemaining env es src1 = (r, src')" using Cons.prems o by auto
    from Cons.IH [OF this] f show ?thesis by auto
  next
    case False
    then have "src' = src1" using Cons.prems o by (auto split: sum.splits if_splits)
    then show ?thesis using f by simp
  qed
qed auto

lemma openRemaining_channel: "openRemaining env es src = (r, src') \<Longrightarrow> is_channelID src' = is_channelID src"
proof (induction es arbitrary: src)
  case (Cons e es)
  obtain q src1 where o: "openEntry env e (src\<lparr>is_idx := is_idx src + 1\<rparr>) = (q, src1)" by force
  with Cons openEntry_frame [OF o] show ?case by (auto split: sum.splits if_splits)
qed simp

lemma openPending_advances:
  assumes "source_inv src" "openPending env src = (r, src')"
  shows "advances src src' \<and> (\<forall>d. r = Inr (Some d) \<longrightarrow> is_idx src < is_idx src')"
  using openRemaining_frame [OF assms(2) [unfolded openPending_def]] assms(1)
  by (auto simp: advances_def source_inv_def)

lemma addUnseen_simps:
  "addUnseen [] src = src"
  "re_ID e \<in> is_seenIDs src \<Longrightarrow> addUnseen (e # es) src = addUnseen es src"
  "re_ID e \<notin> is_seenIDs src \<Longrightarrow> addUnseen (e # es) src = addUnseen es
     (src\<lparr>is_seenIDs := insert (re_ID e) (is_seenIDs src), is_entries := is_entries src @ [e]\<rparr>)"
  by (simp_all add: addUnseen_def)

lemma addUnseen_advances: "source_inv src \<Longrightarrow> advances src (addUnseen es src)"
proof (induction es arbitrary: src)
  case Nil
  then show ?case by (simp add: addUnseen_simps advances_refl)
next
  case (Cons e es)
  show ?case
  proof (cases "re_ID e \<in> is_seenIDs src")
    case True
    with Cons show ?thesis by (simp add: addUnseen_simps)
  next
    case False
    let ?src = "src\<lparr>is_seenIDs := insert (re_ID e) (is_seenIDs src), is_entries := is_entries src @ [e]\<rparr>"
    have i: "source_inv ?src" using Cons.prems False by (auto simp: source_inv_def)
    then have "advances src ?src" by (simp add: advances_def)
    from advances_trans [OF this Cons.IH [OF i]] show ?thesis using False by (simp add: addUnseen_simps(3))
  qed
qed

lemma addUnseen_channel [simp]: "is_channelID (addUnseen es src) = is_channelID src"
  by (induction es arbitrary: src) (auto simp: addUnseen_def)

lemma addUnseen_idx [simp]: "is_idx (addUnseen es src) = is_idx src"
  by (induction es arbitrary: src) (auto simp: addUnseen_def)

lemma query_advances:
  assumes "source_inv src" "openPending env (addUnseen es src) = (r, src')"
  shows "advances src src' \<and> (\<forall>d. r = Inr (Some d) \<longrightarrow> is_idx src < is_idx src')"
proof -
  have a: "advances src (addUnseen es src)" by (rule addUnseen_advances [OF assms(1)])
  then have "source_inv (addUnseen es src)" by (simp add: advances_def)
  with openPending_advances [OF this assms(2)] a show ?thesis using advances_trans by auto
qed

lemma pollNext_advances:
  assumes "source_inv src" "pollNext ticks t src ix = (r, src', ix')"
  shows "advances src src' \<and> (\<forall>d. r = Inr d \<longrightarrow> is_idx src < is_idx src')"
  using assms
proof (induction ticks arbitrary: src ix)
  case Nil
  then show ?case by (auto simp: advances_refl)
next
  case (Cons env ticks)
  obtain q ix1 where q: "ix_QueryByChannel (pe_ops env) (is_channelID src) t 0 ix = (q, ix1)" by force
  show ?case
  proof (cases q)
    case (Inl err)
    then show ?thesis using Cons q by simp
  next
    case (Inr es)
    obtain p src1 where p: "openPending env (addUnseen es src) = (p, src1)" by force
    note a = query_advances [OF Cons.prems(1) p]
    show ?thesis
    proof (cases "p = Inr None")
      case True
      then have "pollNext ticks t src1 ix1 = (r, src', ix')" using Cons.prems(2) q Inr p by simp
      moreover have "source_inv src1" using a by (simp add: advances_def)
      ultimately have "advances src1 src' \<and> (\<forall>d. r = Inr d \<longrightarrow> is_idx src1 < is_idx src')" by (rule Cons.IH [rotated])
      then show ?thesis using a advances_trans by (auto simp: advances_def)
    next
      case False
      then have "src' = src1" "\<forall>d. r = Inr d \<longrightarrow> p = Inr (Some d)"
        using Cons.prems(2) q Inr p by (auto split: sum.splits option.splits)
      with a show ?thesis by blast
    qed
  qed
qed

lemma waitForNextWithTimeout_advances:
  assumes "source_inv src" "waitForNextWithTimeout env src ix = (w, src', ix')"
  shows "advances src src' \<and> (\<forall>d. w = Inr (Some d) \<longrightarrow> is_idx src < is_idx src') \<and> is_channelID src' = is_channelID src"
proof -
  obtain q ix1 where q: "ix_QueryByChannel (pe_ops env) (is_channelID src) (afterTime src) 0 ix = (q, ix1)" by force
  show ?thesis
  proof (cases q)
    case (Inl err)
    then show ?thesis using assms(2) q advances_refl [OF assms(1)] by (auto simp: waitForNextWithTimeout_def)
  next
    case (Inr es)
    then have o: "openPending env (addUnseen es src) = (w, src')"
      using assms(2) q by (auto simp: waitForNextWithTimeout_def split: prod.splits)
    then have "is_channelID src' = is_channelID src"
      unfolding openPending_def by (auto dest: openRemaining_channel)
    with query_advances [OF assms(1) o] show ?thesis by blast
  qed
qed

lemma tryLiveTransition_advances:
  assumes "source_inv src" "tryLiveTransition env src = (l, src')"
  shows "advances src src' \<and> (\<forall>d. l = Some d \<longrightarrow> (\<exists>t. d = BufferDemuxer (is_channelID src) t))"
proof -
  have "advances src (report_playback rs (src\<lparr>is_usedBuf := x\<rparr>))" for rs x using assms(1) by (simp add: advances_def source_inv_def)
  with assms advances_refl show ?thesis by (auto simp: tryLiveTransition_def Let_def split: if_splits)
qed

text \<open>
  C15: asking for the next segment, with any index and any course of polling, only appends unseen
  entries to the list and moves the cursor forward, past the segment it returns: no segment of a
  source is played twice. The near-live buffer is the only other thing it returns.
\<close>

theorem Next_never_repeats:
  assumes "source_inv src" "Next env ticks src ix = (r, src', ix')"
  shows "source_inv src' \<and> (\<exists>xs. is_entries src' = is_entries src @ xs) \<and> is_idx src \<le> is_idx src'
    \<and> (\<forall>dmx. r = Inr dmx \<longrightarrow> is_idx src < is_idx src' \<or> (\<exists>t. dmx = BufferDemuxer (is_channelID src) t))"
proof -
  obtain p src1 where p: "openPending env src = (p, src1)" by force
  note a = openPending_advances [OF assms(1) p]
  have ch1: "is_channelID src1 = is_channelID src"
    using p unfolding openPending_def by (rule openRemaining_channel)
  have i1: "source_inv src1" using a by (simp add: advances_def)
  obtain w src2 ix2 where w: "waitForNextWithTimeout env src1 ix = (w, src2, ix2)" by (metis prod_cases3)
  note b = waitForNextWithTimeout_advances [OF i1 w]
  obtain l src3 where l: "tryLiveTransition env src2 = (l, src3)" by force
  have "source_inv src2" using b by (simp add: advances_def)
  note c = tryLiveTransition_advances [OF this l]
  have i3: "source_inv src3" using c by (simp add: advances_def)
  have d: "advances src3 src' \<and> (\<forall>d. r = Inr d \<longrightarrow> is_idx src3 < is_idx src')"
    if "waitForNext ticks src3 ix2 = (r, src', ix')"
    using pollNext_advances [OF i3] that by (simp add: waitForNext_def)
  consider "src' = src1" "\<forall>x. r = Inr x \<longrightarrow> p = Inr (Some x)"
    | "src' = src2" "\<forall>x. r = Inr x \<longrightarrow> w = Inr (Some x)"
    | "src' = src3" "\<forall>x. r = Inr x \<longrightarrow> l = Some x"
    | "waitForNext ticks src3 ix2 = (r, src', ix')"
    using assms(2) p w l by (auto simp: Next_def split: sum.splits option.splits if_splits)
  then have "advances src src' \<and>
      (\<forall>x. r = Inr x \<longrightarrow> is_idx src < is_idx src' \<or> (\<exists>t. x = BufferDemuxer (is_channelID src) t))"
  proof cases
    case 1
    then show ?thesis using a by auto
  next
    case 2
    then show ?thesis using a b advances_trans by (fastforce simp: advances_def)
  next
    case 3
    have "advances src src3" using a b c advances_trans by blast
    with 3 b c ch1 show ?thesis by auto
  next
    case 4
    have "advances src src3" using a b c advances_trans by blast
    moreover have "is_idx src \<le> is_idx src3" using calculation by (simp add: advances_def)
    ultimately show ?thesis using d [OF 4] advances_trans by fastforce
  qed
  then show ?thesis by (auto simp: advances_def)
qed

lemma source0_inv: "source_inv source0"
  by (simp add: source_inv_def source0_def clip0_def)

lemma Next_never_repeats_witness:
  "source_inv (fst (snd (Next play_env1 [] source0 (index_with []))))
   \<and> is_idx source0 \<le> is_idx (fst (snd (Next play_env1 [] source0 (index_with []))))"
  using Next_never_repeats [OF source0_inv, of play_env1 "[]" "index_with []"] by (metis prod.collapse)

subsection \<open>Gaps between segments\<close>

text \<open>Nothing was opened by the source yet, and no gap is noted.\<close>

definition no_gap :: "indexSource \<Rightarrow> bool" where
  "no_gap src \<longleftrightarrow> is_lastSegEnd src = zero_time \<and> is_lastGap src = 0"

lemma openEntry_no_gap:
  assumes "openEntry env e src = (r, src')" "no_gap src"
  shows "is_lastGap src' = 0 \<and> (\<forall>err. r = Inl err \<longrightarrow> no_gap src')"
  using assms by (auto simp: openEntry_def no_gap_def Let_def split: sum.splits)

lemma openRemaining_no_gap:
  assumes "openRemaining env es src = (r, src')" "no_gap src"
  shows "is_lastGap src' = 0 \<and> (r = Inr None \<longrightarrow> no_gap src')"
  using assms
proof (induction es arbitrary: src)
  case (Cons e es)
  obtain q src1 where o: "openEntry env e (src\<lparr>is_idx := is_idx src + 1\<rparr>) = (q, src1)" by force
  have "no_gap (src\<lparr>is_idx := is_idx src + 1\<rparr>)" using Cons.prems(2) by (simp add: no_gap_def)
  note f = openEntry_no_gap [OF o this]
  show ?case
  proof (cases "\<exists>err. q = Inl err \<and> os_IsNotExist err")
    case True
    then have "openRemaining env es src1 = (r, src')" using Cons.prems(1) o by auto
    from Cons.IH [OF this] f True show ?thesis by blast
  next
    case False
    then have "src' = src1 \<and> r \<noteq> Inr None" using Cons.prems(1) o by (auto split: sum.splits if_splits)
    then show ?thesis using f by simp
  qed
qed (simp add: no_gap_def)

lemma addUnseen_no_gap [simp]: "no_gap (addUnseen es src) = no_gap src"
  by (induction es arbitrary: src) (auto simp: addUnseen_def no_gap_def)

lemma query_no_gap:
  assumes "openPending env (addUnseen es src) = (r, src')" "no_gap src"
  shows "is_lastGap src' = 0 \<and> (r = Inr None \<longrightarrow> no_gap src')"
  using openRemaining_no_gap [OF assms(1) [unfolded openPending_def]] assms(2) by simp

lemma pollNext_no_gap:
  assumes "pollNext ticks t src ix = (r, src', ix')" "no_gap src"
  shows "is_lastGap src' = 0"
  using assms
proof (induction ticks arbitrary: src ix)
  case (Cons env ticks)
  obtain q ix1 where q: "ix_QueryByChannel (pe_ops env) (is_channelID src) t 0 ix = (q, ix1)" by force
  show ?case
  proof (cases q)
    case (Inl err)
    then show ?thesis using Cons q by simp
  next
    case (Inr es)
    obtain p src1 where p: "openPending env (addUnseen es src) = (p, src1)" by force
    note a = query_no_gap [OF p Cons.prems(2)]
    show ?thesis
    proof (cases "p = Inr None")
      case True
      then have "pollNext ticks t src1 ix1 = (r, src', ix')" using Cons.prems(1) q Inr p by simp
      then show ?thesis using Cons.IH a True by blast
    next
      case False
      then show ?thesis using Cons.prems(1) q Inr p a by (auto split: sum.splits option.splits)
    qed
  qed
qed (simp add: no_gap_def)

text \<open>
  The gap behind the first segment is missed. The factory opens the first segment itself and does not
  tell the source when it ended, so however long the camera was not recorded between the first and the
  second segment of a playback, no gap is noted at that transition, and no discontinuity follows from it.
\<close>

lemma first_gap_missed:
  assumes "recordedChain env w ch from to s = (Inr (first, Some src), s')" "Next env' ticks src ix = (r, src', ix')"
  shows "LastGap src' = 0"
proof -
  have g: "no_gap src" using assms(1) by (auto simp: recordedChain_def Let_def no_gap_def split: option.splits prod.splits sum.splits)
  obtain p src1 where p: "openPending env' src = (p, src1)" by force
  note a = openRemaining_no_gap [OF p [unfolded openPending_def] g]
  obtain q ix1 where q: "ix_QueryByChannel (pe_ops env') (is_channelID src1) (afterTime src1) 0 ix = (q, ix1)" by force
  obtain w' src2 ix2 where w: "waitForNextWithTimeout env' src1 ix = (w', src2, ix2)" by (metis prod_cases3)
  have b: "is_lastGap src2 = 0 \<and> (w' = Inr None \<longrightarrow> no_gap src2)" if "p = Inr None"
  proof (cases q)
    case (Inl err)
    then show ?thesis using w q a that by (auto simp: waitForNextWithTimeout_def no_gap_def)
  next
    case (Inr es)
    then have "openPending env' (addUnseen es src1) = (w', src2)" using w q by (auto simp: waitForNextWithTimeout_def split: prod.splits)
    then show ?thesis using query_no_gap a that by blast
  qed
  obtain l src3 where l: "tryLiveTransition env' src2 = (l, src3)" by force
  then have c: "no_gap src2 \<Longrightarrow> no_gap src3" by (auto simp: tryLiveTransition_def no_gap_def Let_def split: if_splits)
  consider "src' = src1" | "p = Inr None" "src' = src2" | "p = Inr None" "w' = Inr None" "src' = src3"
    | "p = Inr None" "w' = Inr None" "waitForNext ticks src3 ix2 = (r, src', ix')"
    using assms(2) p w l by (auto simp: Next_def split: sum.splits option.splits if_splits)
  then have "is_lastGap src' = 0"
  proof cases
    case 3
    then show ?thesis using b c by (simp add: no_gap_def)
  next
    case 4
    then show ?thesis using b c pollNext_no_gap by (auto simp: waitForNext_def)
  qed (use a b in auto)
  then show ?thesis by (simp add: LastGap_def)
qed

text \<open>Between later segments a gap is noted, and reported, exactly when it lasts five seconds or more.\<close>

lemma later_gap_noted:
  assumes "openEntry env e src = (Inr dmx, src')" "is_lastSegEnd src \<noteq> zero_time" "re_StartTime e \<noteq> zero_time" "is_collector src"
  shows "LastGap src' = (let gap = time_Sub (re_StartTime e) (is_lastSegEnd src) in if gapThreshold \<le> gap then gap else 0)
    \<and> (FragmentGap (LastGap src') (is_channelID src) \<in> set (drop (length (is_reports src)) (is_reports src')) \<longleftrightarrow> LastGap src' \<noteq> 0)"
  using assms by (auto simp: openEntry_def LastGap_def Let_def split: sum.splits)

subsection \<open>Seeking in a source\<close>

lemma openAtFrom_spec:
  assumes "openAtFrom env entries i es src = (Inr dmx, src')" "drop i entries = es" "i \<le> length entries"
  shows "\<exists>e. e \<in> set entries \<and> openable env e \<and> dmx = segment_of (is_wallClockStamp src) e
    \<and> 0 < is_idx src' \<and> is_idx src' \<le> length entries \<and> is_entries src' = entries
    \<and> entries ! (is_idx src' - 1) = e \<and> is_seenIDs src' = re_ID ` set entries \<union> is_seenIDs src
    \<and> is_usedBuf src' = is_usedBuf src \<and> is_lastGap src' = 0"
  using assms
proof (induction es arbitrary: i)
  case (Cons e es)
  then have i: "i < length entries" "entries ! i = e" "drop (i + 1) entries = es"
    by (metis drop_eq_Nil linorder_not_less list.distinct(1)) (metis Cons.prems(2) nth_via_drop, metis Cons.prems(2) Suc_eq_plus1 drop_Suc list.sel(3) tl_drop)
  show ?case
  proof (cases "pe_Open env (re_FilePath e)")
    case None
    then show ?thesis using Cons.prems(1) i
      by (auto simp: openFMP4File_def openable_def segment_of_def intro!: exI [of _ e])
  next
    case (Some err)
    then have "openAtFrom env entries (i + 1) es src = (Inr dmx, src')"
      using Cons.prems(1) by (simp add: openFMP4File_def split: if_splits)
    then show ?thesis by (rule Cons.IH) (use i in auto)
  qed
qed simp

text \<open>
  A seek inside a recorded playback lands on a playable entry of the channel whose file opens
  and that ends after the target (to within a second), and the source goes on right after it. What
  it does not reset is the mark that the near-live buffer was used: after such a seek back from the
  live edge the source never goes over to the buffer again.
\<close>

theorem OpenAt_lands:
  assumes "pe_ops env = sqlite_ops ie" "index_inv ix" "fmt_range ts"
    and "OpenAt env ts src ix = (Inr dmx, src', ix')"
  shows "(\<exists>e. index_view_of ie ix (is_channelID src) (re_ID e) = Some e \<and> playable e \<and> openable env e
      \<and> dmx = segment_of (is_wallClockStamp src) e \<and> (ts \<noteq> zero_time \<longrightarrow> ts < re_EndTime e + Second)
      \<and> is_entries src' ! (is_idx src' - 1) = e)
    \<and> source_inv src'
    \<and> (is_usedBuf src \<longrightarrow> fst (tryLiveTransition env' src') = None)"
proof -
  obtain entries where q: "QueryByChannel ie (is_channelID src) ts zero_time ix = (Inr entries, ix')"
    and o: "openAtFrom env entries 0 entries src = (Inr dmx, src')"
    using assms(1,4) by (auto simp: OpenAt_def sqlite_ops_def split: prod.splits sum.splits if_splits)
  from openAtFrom_spec [OF o] obtain e where e: "e \<in> set entries" "openable env e"
    "dmx = segment_of (is_wallClockStamp src) e" "is_idx src' \<le> length entries" "is_entries src' = entries"
    "entries ! (is_idx src' - 1) = e" "is_seenIDs src' = re_ID ` set entries \<union> is_seenIDs src"
    "is_usedBuf src' = is_usedBuf src" by auto
  have f0: "fmt_range zero_time" by (simp add: fmt_range_def)
  have c: "distinct (map re_ID entries)" "index_view_of ie ix (is_channelID src) (re_ID e) = Some e" "playable e"
    using QueryByChannel_correct [OF assms(2) q] e(1) by auto
  have "ts \<noteq> zero_time \<longrightarrow> ts < re_EndTime e + Second"
    using QueryByChannel_bounds [OF assms(2) q assms(3) f0] e(1) by blast
  moreover have "source_inv src'" using c e by (simp add: source_inv_def)
  moreover have "is_usedBuf src \<longrightarrow> fst (tryLiveTransition env' src') = None"
    using e(8) by (simp add: tryLiveTransition_def)
  ultimately show ?thesis using c e by blast
qed

lemma OpenAt_lands_witness:
  "fst (OpenAt play_env0 0 (source0\<lparr>is_usedBuf := True\<rparr>) (index_with [row_of clip0])) = Inr (FileDemuxer ''f'')
   \<and> fst (tryLiveTransition play_env0 (fst (snd (OpenAt play_env0 0 (source0\<lparr>is_usedBuf := True\<rparr>)
        (index_with [row_of clip0]))))) = None"
proof -
  let ?src = "source0\<lparr>is_usedBuf := True\<rparr>"
  have "fmt_range 0" by (simp add: fmt_range_def)
  moreover have "QueryByChannel env0 (is_channelID ?src) 0 0 (index_with [row_of clip0]) = (Inr [clip0], index_with [row_of clip0])"
    using single_entry(3) [OF clip0_ok(1-3), of 0 0] row_selected_clip0 clip0_ok(4) by (simp add: source0_def)
  then have o: "fst (OpenAt play_env0 0 ?src (index_with [row_of clip0])) = Inr (FileDemuxer ''f'')"
    by (simp add: OpenAt_def play_env0_def sqlite_ops_def openFMP4File_def stamp_def)
      (simp add: source0_def clip0_def)
  ultimately show ?thesis
    using OpenAt_lands [OF service0_fields(1) single_entry(4) [OF clip0_ok(1-3)], of 0 ?src] o
    by (cases "OpenAt play_env0 0 ?src (index_with [row_of clip0])") auto
qed

end
