(* ===== verification/Stream_Session.thy ===== *)
theory Stream_Session
  imports Playback
begin

text \<open>
  The WebSocket streaming session of \<^verbatim>\<open>pkg/edgeview/ws_stream.go\<close>: live and recorded mode, play, pause,
  resume, seek and skip, and what they do to the hubs, consumers, writers and the viewer count.

  A session carries the shared view service, the messages it has sent and the set of resources it
  has opened and not closed. The environment of a command gives the playback environment, the
  outcomes of starting a playback hub, of creating an MSE writer and of attaching a consumer, and the
  codec string of a writer. Latencies reported to the metrics collector are left out. Times are sent
  as instants; their text form is the SDK's. The commands read from the socket are a list.
\<close>

subsection \<open>Durations\<close>

text \<open>
  \<^verbatim>\<open>time.ParseDuration\<close>: a sign and a sequence of decimal numbers, each with a unit. A fraction is
  scaled exactly and cut off. The result is an error when it does not fit in 64 bits.
\<close>

definition is_digit :: "char \<Rightarrow> bool" where
  "is_digit c \<longleftrightarrow> digit_val c \<noteq> None"

definition duration_unit :: "string \<Rightarrow> int option" where
  "duration_unit u = map_of
    [(''ns'', 1), (''us'', 1000), ([CHR 0xC2, CHR 0xB5, CHR ''s''], 1000),
     ([CHR 0xCE, CHR 0xBC, CHR ''s''], 1000), (''ms'', Millisecond), (''s'', Second),
     (''m'', Minute), (''h'', Hour)] u"

fun duration_loop :: "nat \<Rightarrow> string \<Rightarrow> int \<Rightarrow> int option" where
  "duration_loop fuel [] d = Some d"
| "duration_loop 0 (c # s) d = None"
| "duration_loop (Suc fuel) (c # s) d =
    (let ds = takeWhile is_digit (c # s); r1 = dropWhile is_digit (c # s);
         (fs, r2) = (case r1 of CHR ''.'' # r \<Rightarrow> (takeWhile is_digit r, dropWhile is_digit r) | _ \<Rightarrow> ([], r1));
         u = takeWhile (\<lambda>x. x \<noteq> CHR ''.'' \<and> \<not> is_digit x) r2;
         r3 = dropWhile (\<lambda>x. x \<noteq> CHR ''.'' \<and> \<not> is_digit x) r2
     in if ds = [] \<and> fs = [] then None
        else case duration_unit u of
          None \<Rightarrow> None
        | Some k \<Rightarrow>
          (let v = int (the (digits_val 0 ds)) * k + int (the (digits_val 0 fs)) * k div 10 ^ length fs
           in if int (the (digits_val 0 ds)) > 2 ^ 63 div k \<or> v > 2 ^ 63 \<or> d + v > 2 ^ 63 then None
              else duration_loop fuel r3 (d + v)))"

definition ParseDuration :: "string \<Rightarrow> duration option" where
  "ParseDuration s =
    (let (neg, r) = (case s of CHR ''-'' # r \<Rightarrow> (True, r) | CHR ''+'' # r \<Rightarrow> (False, r) | _ \<Rightarrow> (False, s))
     in if r = ''0'' then Some 0
        else if r = [] then None
        else case duration_loop (length r) r 0 of
          None \<Rightarrow> None
        | Some d \<Rightarrow> if neg then Some (- d) else if d > 2 ^ 63 - 1 then None else Some d)"

subsection \<open>Sessions\<close>

definition cmdTypeMSE :: string where "cmdTypeMSE = ''mse''"

definition errCameraIDRequired :: go_error where "errCameraIDRequired = ErrorString ''camera_id is required''"
definition errNoPlaybackSession :: go_error where "errNoPlaybackSession = ErrorString ''no playback session''"
definition errInvalidStartRFC3339 :: go_error where
  "errInvalidStartRFC3339 = ErrorString ''invalid start, expected RFC3339''"

record wsCommand =
  wc_Type :: string
  wc_Value :: string
  wc_Time :: string
  wc_Seq :: int
  wc_Offset :: string

record seekedResponse =
  sr_WallClock :: instant
  sr_Mode :: string
  sr_CodecChanged :: bool
  sr_Codecs :: string
  sr_Gap :: bool
  sr_Seq :: int

datatype ws_message =
    ModeChangeLive instant
  | PlaybackInfo instant string
  | Seeked seekedResponse
  | ErrorMessage string

datatype hub = MainHub | AnalyticsHub | SessionHub nat

datatype resource = PlaybackHub nat | Consumer nat | LiveHandle nat | MSEWriter nat

record 'ix streamSession =
  ss_cameraID :: string
  ss_playSM :: "nat option"
  ss_ms :: "nat option"
  ss_consumer :: "nat option"
  ss_liveMode :: bool
  ss_liveHandle :: "nat option"
  ss_untrack :: bool
  ss_analyticsMode :: bool
  ss_lastSeqSeen :: int
  ss_lastSeekTime :: instant
  ss_lastMode :: string
  ss_lastCodecStr :: string
  ss_svc :: "'ix Service"
  ss_sent :: "ws_message list"
  ss_open :: "resource set"
  ss_paused :: bool
  ss_fresh :: nat

record 'ix session_env =
  se_play :: "'ix play_env"
  se_HubStart :: "go_error option"
  se_NewWriter :: "go_error option"
  se_Consume :: "hub \<Rightarrow> go_error option"
  se_CodecString :: "nat \<Rightarrow> string"
  se_parse :: "string \<Rightarrow> instant option"

definition send :: "ws_message \<Rightarrow> 'ix streamSession \<Rightarrow> 'ix streamSession" where
  "send m s = s\<lparr>ss_sent := ss_sent s @ [m]\<rparr>"

definition writeWSErrorResponse :: "go_error \<Rightarrow> string \<Rightarrow> 'ix streamSession \<Rightarrow> 'ix streamSession" where
  "writeWSErrorResponse err msg s = send (ErrorMessage (msg @ '': '' @ error_string err)) s"

definition newSession :: "string \<Rightarrow> bool \<Rightarrow> 'ix Service \<Rightarrow> 'ix streamSession" where
  "newSession cameraID analyticsMode svc =
    \<lparr>ss_cameraID = cameraID, ss_playSM = None, ss_ms = None, ss_consumer = None, ss_liveMode = False,
     ss_liveHandle = None, ss_untrack = False, ss_analyticsMode = analyticsMode, ss_lastSeqSeen = 0,
     ss_lastSeekTime = zero_time, ss_lastMode = [], ss_lastCodecStr = [], ss_svc = svc, ss_sent = [],
     ss_open = {}, ss_paused = False, ss_fresh = 0\<rparr>"

definition startLive :: "'ix session_env \<Rightarrow> 'ix streamSession \<Rightarrow> 'ix streamSession" where
  "startLive env s =
    (send (ModeChangeLive (pe_now (se_play env))) s)
      \<lparr>ss_liveMode := True, ss_playSM := None, ss_ms := None, ss_consumer := None,
       ss_liveHandle := None, ss_untrack := False\<rparr>"

text \<open>
  The playback hub of a session; the demuxer factory it is given (\<^verbatim>\<open>recordedFactory\<close>) runs when a
  consumer attaches.
\<close>

definition startRecordedAt ::
  "'ix session_env \<Rightarrow> instant \<Rightarrow> 'ix streamSession \<Rightarrow> go_error option \<times> 'ix streamSession" where
  "startRecordedAt env from s =
    (case se_HubStart env of
       Some e \<Rightarrow> (Some (WrapError ''start playback: '' e []), s)
     | None \<Rightarrow>
       (None, s\<lparr>ss_playSM := Some (ss_fresh s), ss_liveMode := False, ss_liveHandle := None,
                ss_untrack := False, ss_ms := None, ss_consumer := None,
                ss_open := insert (PlaybackHub (ss_fresh s)) (ss_open s), ss_paused := False,
                ss_fresh := ss_fresh s + 1\<rparr>))"

definition resolve ::
  "'ix session_env \<Rightarrow> instant \<Rightarrow> 'ix streamSession \<Rightarrow> (instant \<times> string) result \<times> 'ix streamSession" where
  "resolve env from s =
    (case ResolvePlaybackStart (se_play env) (ss_cameraID s) from zero_time (ss_svc s) of
       (r, svc) \<Rightarrow> (r, s\<lparr>ss_svc := svc\<rparr>))"

definition startResolved ::
  "'ix session_env \<Rightarrow> instant \<Rightarrow> 'ix streamSession \<Rightarrow> go_error option \<times> 'ix streamSession" where
  "startResolved env from s =
    (case resolve env from s of
       (Inl e, s) \<Rightarrow> (Some (WrapError ''resolve playback: '' e []), s)
     | (Inr (resolvedFrom, mode), s) \<Rightarrow>
       if mode = PlaybackModeLive then (None, startLive env s)
       else
         (let s = (if mode = PlaybackModeFirstAvailable then send (PlaybackInfo resolvedFrom ''first_available'') s
                   else if mode = PlaybackModeRecorded then send (PlaybackInfo resolvedFrom ''recorded'') s
                   else s)
          in case startRecordedAt env resolvedFrom s of
               (Some e, s) \<Rightarrow> (Some e, s)
             | (None, s) \<Rightarrow> (None, s\<lparr>ss_lastSeekTime := resolvedFrom, ss_lastMode := mode\<rparr>)))"

definition start :: "'ix session_env \<Rightarrow> instant \<Rightarrow> 'ix streamSession \<Rightarrow> go_error option \<times> 'ix streamSession" where
  "start env from s = (if from = zero_time then (None, startLive env s) else startResolved env from s)"

text \<open>Which demuxer factory a recorded session uses.\<close>

definition recordedFactory ::
  "'ix session_env \<Rightarrow> instant \<Rightarrow> 'ix streamSession \<Rightarrow> (demuxer \<times> indexSource option) result \<times> 'ix Service" where
  "recordedFactory env from s =
    (if ss_analyticsMode s \<and> svc_PersistReader (ss_svc s)
     then AnalyticsRecordedDemuxerFactory (se_play env) (ss_cameraID s) from zero_time
            (svc_LiveAnalyticsSource (ss_cameraID s) (ss_svc s) \<noteq> None) (ss_svc s)
     else RecordedDemuxerFactory (se_play env) (ss_cameraID s) from zero_time (ss_svc s))"

text \<open>The writer is open from \<open>buildMSEConsumer\<close> until it is closed.\<close>

definition buildMSEConsumer ::
  "'ix session_env \<Rightarrow> 'ix streamSession \<Rightarrow> nat result \<times> 'ix streamSession" where
  "buildMSEConsumer env s =
    (case se_NewWriter env of
       Some e \<Rightarrow> (Inl e, s)
     | None \<Rightarrow> (Inr (ss_fresh s), s\<lparr>ss_open := insert (MSEWriter (ss_fresh s)) (ss_open s),
                                    ss_fresh := ss_fresh s + 1\<rparr>))"

definition close_resource :: "resource \<Rightarrow> 'ix streamSession \<Rightarrow> 'ix streamSession" where
  "close_resource r s = s\<lparr>ss_open := ss_open s - {r}\<rparr>"

definition live_hub :: "'ix streamSession \<Rightarrow> hub" where
  "live_hub s = (if ss_analyticsMode s \<and> svc_AnalyticsRelayHub (ss_svc s) then AnalyticsHub else MainHub)"

definition attachLiveConsumer ::
  "'ix session_env \<Rightarrow> nat \<Rightarrow> 'ix streamSession \<Rightarrow> go_error option \<times> 'ix streamSession" where
  "attachLiveConsumer env localMs s =
    (case se_Consume env (live_hub s) of
       Some e \<Rightarrow> (Some e, close_resource (MSEWriter localMs) s)
     | None \<Rightarrow>
       (None, s\<lparr>ss_svc := TrackConsumer (ss_svc s), ss_ms := Some localMs,
                ss_liveHandle := Some (ss_fresh s), ss_untrack := True,
                ss_open := insert (LiveHandle (ss_fresh s)) (ss_open s), ss_fresh := ss_fresh s + 1\<rparr>))"

definition attachConsumer ::
  "'ix session_env \<Rightarrow> 'ix streamSession \<Rightarrow> go_error option \<times> 'ix streamSession" where
  "attachConsumer env s =
    (let sm = ss_playSM s; live = ss_liveMode s in
     case buildMSEConsumer env s of
       (Inl e, s) \<Rightarrow> (Some e, s)
     | (Inr localMs, s) \<Rightarrow>
       if live then attachLiveConsumer env localMs s
       else if sm = None then (Some errNoPlaybackSession, close_resource (MSEWriter localMs) s)
       else (case se_Consume env (SessionHub (the sm)) of
               Some e \<Rightarrow> (Some e, close_resource (MSEWriter localMs) s)
             | None \<Rightarrow>
               (None, s\<lparr>ss_ms := Some localMs, ss_consumer := Some (ss_fresh s),
                        ss_open := insert (Consumer (ss_fresh s)) (ss_open s),
                        ss_fresh := ss_fresh s + 1\<rparr>)))"

text \<open>Pausing reaches the session's own hub only, never the shared live relay.\<close>

definition pause :: "'ix streamSession \<Rightarrow> 'ix streamSession" where
  "pause s = (if ss_liveMode s then s else if ss_playSM s \<noteq> None then s\<lparr>ss_paused := True\<rparr> else s)"

definition resume :: "'ix streamSession \<Rightarrow> 'ix streamSession" where
  "resume s = (if ss_liveMode s then s else if ss_playSM s \<noteq> None then s\<lparr>ss_paused := False\<rparr> else s)"

definition close_opt :: "(nat \<Rightarrow> resource) \<Rightarrow> nat option \<Rightarrow> 'ix streamSession \<Rightarrow> 'ix streamSession" where
  "close_opt k x s = (case x of None \<Rightarrow> s | Some n \<Rightarrow> close_resource (k n) s)"

definition stop :: "'ix streamSession \<Rightarrow> 'ix streamSession" where
  "stop s =
    (let s1 = s\<lparr>ss_consumer := None, ss_liveHandle := None, ss_ms := None, ss_playSM := None,
                ss_liveMode := False, ss_untrack := False\<rparr>;
         s2 = close_opt LiveHandle (ss_liveHandle s) (close_opt Consumer (ss_consumer s) s1);
         s3 = (if ss_untrack s then s2\<lparr>ss_svc := untrackConsumer (ss_svc s2)\<rparr> else s2)
     in close_opt PlaybackHub (ss_playSM s) (close_opt MSEWriter (ss_ms s) s3))"

definition captureCodecStr :: "'ix session_env \<Rightarrow> 'ix streamSession \<Rightarrow> string" where
  "captureCodecStr env s = (case ss_ms s of None \<Rightarrow> [] | Some n \<Rightarrow> se_CodecString env n)"

definition sendSeekedResponse ::
  "'ix session_env \<Rightarrow> instant \<Rightarrow> string \<Rightarrow> bool \<Rightarrow> bool \<Rightarrow> string \<Rightarrow> int \<Rightarrow> 'ix streamSession \<Rightarrow> 'ix streamSession" where
  "sendSeekedResponse env resolvedFrom mode gap codecChanged newCodecStr seq s =
    send (Seeked \<lparr>sr_WallClock = (if mode = PlaybackModeLive then pe_now (se_play env) else resolvedFrom),
                  sr_Mode = mode, sr_CodecChanged = codecChanged,
                  sr_Codecs = (if codecChanged then newCodecStr else []), sr_Gap = gap, sr_Seq = seq\<rparr>) s"

definition resolveAndStartSeek ::
  "'ix session_env \<Rightarrow> instant \<Rightarrow> 'ix streamSession \<Rightarrow> (instant \<times> string \<times> bool) result \<times> 'ix streamSession" where
  "resolveAndStartSeek env seekTime s =
    (case resolve env seekTime s of
       (r, s) \<Rightarrow>
       (case (case r of
                Inr (t, m) \<Rightarrow> Inr (t, m)
              | Inl e \<Rightarrow> if pe_now (se_play env) < seekTime then Inr (zero_time, PlaybackModeLive) else Inl e) of
          Inl e \<Rightarrow> (Inl e, s)
        | Inr (resolvedFrom, mode) \<Rightarrow>
          if mode = PlaybackModeLive then (Inr (resolvedFrom, mode, False), startLive env s)
          else if mode = PlaybackModeFirstAvailable \<or> mode = PlaybackModeRecorded then
            (let gap = (mode = PlaybackModeFirstAvailable \<or> time_Sub resolvedFrom seekTime \<ge> gapThreshold)
             in case startRecordedAt env resolvedFrom s of
                  (Some e, s) \<Rightarrow> (Inl e, s)
                | (None, s) \<Rightarrow> (Inr (resolvedFrom, mode, gap), s))
          else (Inr (resolvedFrom, mode, False), s)))"

definition executeSeek ::
  "'ix session_env \<Rightarrow> instant \<Rightarrow> int \<Rightarrow> string \<Rightarrow> 'ix streamSession \<Rightarrow> go_error option \<times> 'ix streamSession" where
  "executeSeek env seekTime seq prevCodecStr s =
    (case resolveAndStartSeek env seekTime (stop s) of
       (Inl e, s) \<Rightarrow> (Some e, s)
     | (Inr (resolvedFrom, mode, gap), s) \<Rightarrow>
       if seq > 0 \<and> seq < ss_lastSeqSeen s then (None, stop s)
       else
         (case attachConsumer env s of
            (Some e, s) \<Rightarrow> (Some e, s)
          | (None, s) \<Rightarrow>
            (let newCodecStr = captureCodecStr env s;
                 codecChanged = (prevCodecStr \<noteq> [] \<and> newCodecStr \<noteq> [] \<and> prevCodecStr \<noteq> newCodecStr);
                 s = sendSeekedResponse env resolvedFrom mode gap codecChanged newCodecStr seq s
             in (None, s\<lparr>ss_lastSeekTime := (if mode = PlaybackModeLive then pe_now (se_play env) else resolvedFrom),
                         ss_lastMode := mode, ss_lastCodecStr := newCodecStr\<rparr>))))"

definition stale :: "wsCommand \<Rightarrow> 'ix streamSession \<Rightarrow> bool" where
  "stale cmd s \<longleftrightarrow> wc_Seq cmd > 0 \<and> wc_Seq cmd \<le> ss_lastSeqSeen s"

definition note_seq :: "wsCommand \<Rightarrow> 'ix streamSession \<Rightarrow> 'ix streamSession" where
  "note_seq cmd s = (if wc_Seq cmd > 0 then s\<lparr>ss_lastSeqSeen := wc_Seq cmd\<rparr> else s)"

definition handleSeek ::
  "'ix session_env \<Rightarrow> wsCommand \<Rightarrow> 'ix streamSession \<Rightarrow> go_error option \<times> 'ix streamSession" where
  "handleSeek env cmd s =
    (if stale cmd s then (None, s)
     else let s = note_seq cmd s; prevCodecStr = ss_lastCodecStr s in
       if wc_Time cmd = ''now'' then
         (case attachConsumer env (startLive env (stop s)) of
            (Some e, s) \<Rightarrow> (Some e, s)
          | (None, s) \<Rightarrow>
            (None, send (Seeked \<lparr>sr_WallClock = pe_now (se_play env), sr_Mode = PlaybackModeLive,
                                 sr_CodecChanged = False, sr_Codecs = [], sr_Gap = False,
                                 sr_Seq = wc_Seq cmd\<rparr>) s))
       else (case time_Parse (se_parse env) (wc_Time cmd) of
               None \<Rightarrow> (None, send (ErrorMessage (''invalid seek time, expected RFC3339 or '' @ quoted ''now'')) s)
             | Some seekTime \<Rightarrow> executeSeek env seekTime (wc_Seq cmd) prevCodecStr s))"

definition handleSkip ::
  "'ix session_env \<Rightarrow> wsCommand \<Rightarrow> 'ix streamSession \<Rightarrow> go_error option \<times> 'ix streamSession" where
  "handleSkip env cmd s =
    (case ParseDuration (wc_Offset cmd) of
       None \<Rightarrow> (None, send (ErrorMessage (''invalid offset, expected Go duration (e.g. '' @ quoted ''-30s'' @ '', '' @ quoted ''60s'' @ '')'')) s)
     | Some offset \<Rightarrow>
       if stale cmd s then (None, s)
       else let base = (if ss_lastSeekTime s = zero_time then pe_now (se_play env) else ss_lastSeekTime s);
                prevCodecStr = ss_lastCodecStr s
            in executeSeek env (base + offset) (wc_Seq cmd) prevCodecStr (note_seq cmd s))"

text \<open>One pass of the read loop; a result \<open>Some e\<close> ends it.\<close>

definition dispatch ::
  "'ix session_env \<Rightarrow> wsCommand \<Rightarrow> 'ix streamSession \<Rightarrow> go_error option \<times> 'ix streamSession" where
  "dispatch env cmd s =
    (if wc_Type cmd \<noteq> cmdTypeMSE then (None, s)
     else if wc_Value cmd = [] then
       (case attachConsumer env s of
          (Some e, s) \<Rightarrow> (Some e, writeWSErrorResponse e ''consume failed'' s) | (None, s) \<Rightarrow> (None, s))
     else if wc_Value cmd = ''pause'' then (None, pause s)
     else if wc_Value cmd = ''resume'' then (None, resume s)
     else if wc_Value cmd = ''seek'' then
       (case handleSeek env cmd s of
          (Some e, s) \<Rightarrow> (Some e, writeWSErrorResponse e ''seek failed'' s) | (None, s) \<Rightarrow> (None, s))
     else if wc_Value cmd = ''skip'' then
       (case handleSkip env cmd s of
          (Some e, s) \<Rightarrow> (Some e, writeWSErrorResponse e ''skip failed'' s) | (None, s) \<Rightarrow> (None, s))
     else (None, s))"

fun readLoop :: "('ix session_env \<times> wsCommand) list \<Rightarrow> 'ix streamSession \<Rightarrow> 'ix streamSession" where
  "readLoop [] s = s"
| "readLoop ((env, cmd) # cmds) s =
    (case dispatch env cmd s of (Some _, s) \<Rightarrow> s | (None, s) \<Rightarrow> readLoop cmds s)"

definition parseWSCameraID :: "string \<Rightarrow> string result" where
  "parseWSCameraID i = (if i = [] then Inl errCameraIDRequired else Inr i)"

definition parseWSOptionalTime :: "(string \<Rightarrow> instant option) \<Rightarrow> string \<Rightarrow> instant result" where
  "parseWSOptionalTime general s =
    (if s = [] then Inr zero_time
     else case time_Parse general s of None \<Rightarrow> Inl errInvalidStartRFC3339 | Some t \<Rightarrow> Inr t)"

text \<open>The handler: a bad request is a status, otherwise the session runs and is stopped.\<close>

definition wsStream ::
  "'ix session_env \<Rightarrow> string \<Rightarrow> string \<Rightarrow> bool \<Rightarrow> ('ix session_env \<times> wsCommand) list \<Rightarrow> 'ix Service
     \<Rightarrow> go_error + 'ix streamSession" where
  "wsStream env cameraParam startParam analyticsMode cmds svc =
    (case parseWSCameraID cameraParam of
       Inl e \<Rightarrow> Inl e
     | Inr cameraID \<Rightarrow>
       (case parseWSOptionalTime (se_parse env) startParam of
          Inl e \<Rightarrow> Inl e
        | Inr from \<Rightarrow>
          (case start env from (newSession cameraID analyticsMode svc) of
             (Some e, s) \<Rightarrow> Inr (writeWSErrorResponse e ''stream start failed'' s)
           | (None, s) \<Rightarrow> Inr (stop (readLoop cmds s)))))"

subsection \<open>What a session holds\<close>

definition owned :: "'ix streamSession \<Rightarrow> resource set" where
  "owned s = PlaybackHub ` set_option (ss_playSM s) \<union> Consumer ` set_option (ss_consumer s)
     \<union> LiveHandle ` set_option (ss_liveHandle s) \<union> MSEWriter ` set_option (ss_ms s)"

text \<open>
  A session is balanced over \<open>base\<close> other viewers when everything open is referenced, it counts as
  one viewer exactly when it is attached live, and identifiers are fresh.
\<close>

definition balanced :: "int \<Rightarrow> 'ix streamSession \<Rightarrow> bool" where
  "balanced base s \<longleftrightarrow> ss_open s = owned s
     \<and> sv_activeConsumers (ss_svc s) = base + (if ss_untrack s then 1 else 0)
     \<and> (ss_liveMode s \<longrightarrow> ss_playSM s = None) \<and> (ss_untrack s \<longleftrightarrow> ss_liveHandle s \<noteq> None)"

definition detached :: "'ix streamSession \<Rightarrow> bool" where
  "detached s \<longleftrightarrow> ss_ms s = None \<and> ss_consumer s = None \<and> ss_liveHandle s = None"

lemma ResolvePlaybackStart_frame:
  "sv_activeConsumers (snd (ResolvePlaybackStart env ch from to s)) = sv_activeConsumers s"
  by (auto simp: ResolvePlaybackStart_def split: option.split prod.split sum.split list.split)

lemma balanced_send [simp]: "balanced b (send m s) = balanced b s" "detached (send m s) = detached s"
  by (simp_all add: balanced_def send_def owned_def detached_def)

lemma balanced_error [simp]: "balanced b (writeWSErrorResponse e m s) = balanced b s"
  by (simp add: writeWSErrorResponse_def)

lemma stop_releases:
  assumes "balanced base s"
  shows "balanced base (stop s) \<and> detached (stop s) \<and> ss_open (stop s) = {} \<and> ss_playSM (stop s) = None
    \<and> \<not> ss_untrack (stop s) \<and> ss_lastSeqSeen (stop s) = ss_lastSeqSeen s \<and> ss_cameraID (stop s) = ss_cameraID s"
  using assms
  by (cases "ss_consumer s"; cases "ss_liveHandle s"; cases "ss_ms s"; cases "ss_playSM s")
    (auto simp: stop_def Let_def close_opt_def close_resource_def balanced_def owned_def detached_def
      untrackConsumer_def)

lemma stop_effect:
  "ss_open (stop s) = ss_open s - owned s"
  "ss_svc (stop s) = (if ss_untrack s then untrackConsumer (ss_svc s) else ss_svc s)"
  by (cases "ss_consumer s"; cases "ss_liveHandle s"; cases "ss_ms s"; cases "ss_playSM s";
      auto simp: stop_def Let_def close_opt_def close_resource_def owned_def)+

lemma startLive_balanced:
  assumes "balanced base s" "detached s" "ss_playSM s = None"
  shows "balanced base (startLive env s) \<and> detached (startLive env s)"
  using assms by (auto simp: startLive_def send_def balanced_def owned_def detached_def)

lemma startRecordedAt_balanced:
  assumes "balanced base s" "detached s" "ss_playSM s = None" "startRecordedAt env t s = (r, s')"
  shows "balanced base s' \<and> detached s' \<and> (r = None \<longrightarrow> ss_playSM s' \<noteq> None \<and> \<not> ss_liveMode s')
    \<and> ss_lastSeqSeen s' = ss_lastSeqSeen s"
  using assms by (auto simp: startRecordedAt_def balanced_def owned_def detached_def split: option.splits)

lemma resolve_frame:
  assumes "resolve env t s = (r, s')"
  shows "balanced base s' = balanced base s" "detached s' = detached s" "ss_playSM s' = ss_playSM s"
    "ss_lastSeqSeen s' = ss_lastSeqSeen s" "ss_liveMode s' = ss_liveMode s"
proof -
  obtain q svc where q: "ResolvePlaybackStart (se_play env) (ss_cameraID s) t zero_time (ss_svc s) = (q, svc)" by force
  then have "sv_activeConsumers svc = sv_activeConsumers (ss_svc s)"
    using ResolvePlaybackStart_frame [of "se_play env" "ss_cameraID s" t zero_time "ss_svc s"] by simp
  moreover have "s' = s\<lparr>ss_svc := svc\<rparr>" using assms q by (simp add: resolve_def)
  ultimately show "balanced base s' = balanced base s" "detached s' = detached s" "ss_playSM s' = ss_playSM s"
    "ss_lastSeqSeen s' = ss_lastSeqSeen s" "ss_liveMode s' = ss_liveMode s"
    by (simp_all add: balanced_def owned_def detached_def)
qed

lemma attachConsumer_balanced:
  assumes "balanced base s" "detached s" "attachConsumer env s = (r, s')" "\<forall>n. MSEWriter n \<notin> ss_open s"
  shows "balanced base s' \<and> ss_lastSeqSeen s' = ss_lastSeqSeen s
    \<and> (r = None \<longrightarrow> (if ss_liveMode s then ss_liveMode s' \<and> ss_liveHandle s' \<noteq> None
                     else \<not> ss_liveMode s' \<and> ss_playSM s' \<noteq> None \<and> ss_consumer s' \<noteq> None))"
  using assms
  by (cases "se_NewWriter env"; cases "ss_liveMode s")
    (auto simp: attachConsumer_def buildMSEConsumer_def attachLiveConsumer_def close_resource_def balanced_def
      owned_def detached_def TrackConsumer_def Let_def split: option.splits if_splits)

lemma detached_no_writer: "balanced base s \<Longrightarrow> detached s \<Longrightarrow> MSEWriter n \<notin> ss_open s"
  by (auto simp: balanced_def owned_def detached_def)

lemma resolveAndStartSeek_balanced:
  assumes "balanced base s" "detached s" "ss_playSM s = None" "resolveAndStartSeek env t s = (r, s')"
  shows "balanced base s' \<and> detached s' \<and> ss_lastSeqSeen s' = ss_lastSeqSeen s"
proof -
  obtain q s1 where q: "resolve env t s = (q, s1)" by force
  note f = resolve_frame [OF q]
  have s1: "balanced base s1" "detached s1" "ss_playSM s1 = None" using f assms by simp_all
  have live: "balanced base (startLive env s1) \<and> detached (startLive env s1)
      \<and> ss_lastSeqSeen (startLive env s1) = ss_lastSeqSeen s1"
    using startLive_balanced [OF s1] by (simp add: startLive_def send_def)
  have rec: "balanced base x \<and> detached x \<and> ss_lastSeqSeen x = ss_lastSeqSeen s1" if "startRecordedAt env u s1 = (y, x)" for u x y
    using startRecordedAt_balanced [OF s1 that] by simp
  show ?thesis
    using assms(4) q live rec s1 f(4)
    by (auto simp: resolveAndStartSeek_def Let_def split: sum.splits prod.splits if_splits option.splits)
qed

lemma executeSeek_balanced:
  assumes "balanced base s" "executeSeek env t seq codec s = (r, s')"
  shows "balanced base s' \<and> ss_lastSeqSeen s' = ss_lastSeqSeen s"
proof -
  note st = stop_releases [OF assms(1)]
  obtain q s1 where q: "resolveAndStartSeek env t (stop s) = (q, s1)" by force
  have s1: "balanced base s1" "detached s1" "ss_lastSeqSeen s1 = ss_lastSeqSeen s"
    using resolveAndStartSeek_balanced [OF _ _ _ q] st by auto
  obtain a s2 where a: "attachConsumer env s1 = (a, s2)" by force
  have s2: "balanced base s2" "ss_lastSeqSeen s2 = ss_lastSeqSeen s1"
    using attachConsumer_balanced [OF s1(1,2) a] detached_no_writer [OF s1(1,2)] by auto
  have fin: "balanced base (x\<lparr>ss_lastSeekTime := u, ss_lastMode := v, ss_lastCodecStr := w\<rparr>) = balanced base x" for x :: "'a streamSession" and u v w
    by (simp add: balanced_def owned_def)
  consider "s' = s1" | "s' = stop s1" | "s' = s2"
    | resp u v w where "s' = (send resp s2)\<lparr>ss_lastSeekTime := u, ss_lastMode := v, ss_lastCodecStr := w\<rparr>"
    using assms(2) q a
    by (auto simp: executeSeek_def sendSeekedResponse_def Let_def split: sum.splits prod.splits if_splits option.splits)
  then show ?thesis
  proof cases
    case 4
    then show ?thesis using s1 s2 by (simp add: fin) (simp add: send_def)
  qed (use s1 s2 stop_releases [OF s1(1)] in auto)
qed

lemma note_seq_balanced [simp]: "balanced b (note_seq cmd s) = balanced b s"
  by (simp add: note_seq_def balanced_def owned_def)

lemma handleSeek_balanced:
  assumes "balanced base s" "handleSeek env cmd s = (r, s')"
  shows "balanced base s'"
proof (cases "stale cmd s")
  case True
  then show ?thesis using assms by (simp add: handleSeek_def)
next
  case False
  let ?s = "note_seq cmd s"
  have b: "balanced base ?s" using assms(1) by simp
  have live: "balanced base x" if "attachConsumer env (startLive env (stop ?s)) = (y, x)" for x y
  proof -
    have l: "balanced base (startLive env (stop ?s))" "detached (startLive env (stop ?s))"
      using startLive_balanced [of base "stop ?s" env] stop_releases [OF b] by auto
    then show ?thesis using attachConsumer_balanced [OF l that] detached_no_writer [OF l] by blast
  qed
  show ?thesis
  proof (cases "wc_Time cmd = ''now''")
    case True
    then show ?thesis using assms(2) False live
      by (auto simp: handleSeek_def Let_def split: prod.splits option.splits)
  next
    case False
    then show ?thesis using assms(2) \<open>\<not> stale cmd s\<close> b executeSeek_balanced [OF b]
      by (auto simp: handleSeek_def Let_def split: option.splits)
  qed
qed

lemma handleSkip_balanced:
  assumes "balanced base s" "handleSkip env cmd s = (r, s')"
  shows "balanced base s'"
proof -
  have b: "balanced base (note_seq cmd s)" using assms(1) by simp
  show ?thesis using assms executeSeek_balanced [OF b]
    by (auto simp: handleSkip_def Let_def split: option.splits if_splits)
qed

definition is_play :: "wsCommand \<Rightarrow> bool" where
  "is_play cmd \<longleftrightarrow> wc_Type cmd = cmdTypeMSE \<and> wc_Value cmd = []"

lemma dispatch_balanced:
  assumes "balanced base s" "is_play cmd \<longrightarrow> detached s" "dispatch env cmd s = (r, s')"
  shows "balanced base s'"
proof -
  have attach: "balanced base x" if "attachConsumer env s = (y, x)" "is_play cmd" for x y
    using attachConsumer_balanced [OF assms(1) _ that(1)] detached_no_writer [OF assms(1)] assms(2) that(2) by blast
  have pr: "balanced base (pause s)" "balanced base (resume s)"
    using assms(1) by (auto simp: pause_def resume_def balanced_def owned_def)
  show ?thesis
    using assms(1,3) attach pr handleSeek_balanced [OF assms(1)] handleSkip_balanced [OF assms(1)]
    by (auto simp: dispatch_def is_play_def split: if_splits prod.splits option.splits)
qed

lemma readLoop_balanced:
  assumes "balanced base s" "\<forall>(env, cmd) \<in> set cmds. \<not> is_play cmd"
  shows "balanced base (readLoop cmds s)"
  using assms
proof (induction cmds arbitrary: s)
  case (Cons ec cmds)
  obtain env cmd where ec: "ec = (env, cmd)" by force
  obtain r s1 where d: "dispatch env cmd s = (r, s1)" by force
  have "balanced base s1" using dispatch_balanced [OF Cons.prems(1) _ d] Cons.prems(2) ec by auto
  with Cons ec d show ?case by (auto split: option.split)
qed simp

lemma start_balanced:
  assumes "start env from (newSession cam ana svc) = (r, s)"
  shows "balanced (sv_activeConsumers svc) s \<and> detached s \<and> (r \<noteq> None \<longrightarrow> ss_open s = {})"
proof -
  let ?n = "newSession cam ana svc" and ?b = "sv_activeConsumers svc"
  have n: "balanced ?b ?n" "detached ?n" "ss_playSM ?n = None" "ss_open ?n = {}" "\<not> ss_liveMode ?n"
    by (simp_all add: balanced_def detached_def owned_def newSession_def)
  obtain q s1 where q: "resolve env from ?n = (q, s1)" by force
  have s1: "balanced ?b s1" "detached s1" "ss_playSM s1 = None" using resolve_frame [OF q] n by simp_all
  have open1: "ss_open s1 = {}" using s1 by (auto simp: balanced_def owned_def detached_def)
  have upd: "balanced ?b (x\<lparr>ss_lastSeekTime := u, ss_lastMode := v\<rparr>) = balanced ?b x"
    "detached (x\<lparr>ss_lastSeekTime := u, ss_lastMode := v\<rparr>) = detached x" for x :: "'a streamSession" and u v
    by (simp_all add: balanced_def owned_def detached_def)
  have rec: "balanced ?b x \<and> detached x \<and> (y \<noteq> None \<longrightarrow> ss_open x = {})"
    if "startRecordedAt env u (send m s1) = (y, x)" for u x y m
  proof -
    have z: "balanced ?b (send m s1)" "detached (send m s1)" "ss_playSM (send m s1) = None" "ss_open (send m s1) = {}"
      using s1 open1 by (simp_all add: send_def balanced_def owned_def detached_def)
    show ?thesis using startRecordedAt_balanced [OF z(1-3) that] that z(4)
      by (auto simp: startRecordedAt_def split: option.splits)
  qed
  have rec': "balanced ?b x \<and> detached x \<and> (y \<noteq> None \<longrightarrow> ss_open x = {})"
    if "startRecordedAt env u s1 = (y, x)" for u x y
    using startRecordedAt_balanced [OF s1 that] that open1
    by (auto simp: startRecordedAt_def split: option.splits)
  show ?thesis
    using assms q startLive_balanced [OF n(1-3), of env] startLive_balanced [OF s1, of env] s1 open1
    by (auto simp: start_def startResolved_def Let_def upd dest!: rec rec'
        split: sum.splits prod.splits if_splits option.splits)
qed

definition session_env0 :: "sqliteIndex session_env" where
  "session_env0 = \<lparr>se_play = play_env0, se_HubStart = None, se_NewWriter = None, se_Consume = (\<lambda>_. None),
     se_CodecString = (\<lambda>_. ''avc1''), se_parse = (\<lambda>_. None)\<rparr>"

lemma session_env0_simps:
  "se_HubStart session_env0 = None" "se_NewWriter session_env0 = None" "se_Consume session_env0 = (\<lambda>_. None)"
  by (simp_all add: session_env0_def)

definition command0 :: "string \<Rightarrow> string \<Rightarrow> int \<Rightarrow> wsCommand" where
  "command0 v t n = \<lparr>wc_Type = ''mse'', wc_Value = v, wc_Time = t, wc_Seq = n, wc_Offset = []\<rparr>"

definition attached0 :: "sqliteIndex streamSession" where
  "attached0 = snd (attachConsumer session_env0 (startLive session_env0 (newSession ''c'' False service0)))"

lemma attached0_simps:
  "ss_liveMode attached0" "ss_liveHandle attached0 = Some 1" "ss_fresh attached0 = 2" "ss_lastSeqSeen attached0 = 0"
  "balanced 0 attached0"
  by (simp_all add: attached0_def attachConsumer_def buildMSEConsumer_def attachLiveConsumer_def startLive_def
      send_def newSession_def session_env0_def balanced_def owned_def service0_def NewService_def
      TrackConsumer_def Let_def)
    auto



text \<open>
  Asking to play twice in live mode leaks: the first live handle stays open and the viewer
  count stays one too high after the session ends.
\<close>

theorem second_play_leaks_viewer:
  assumes "balanced base s" "ss_liveMode s" "ss_liveHandle s = Some h" "h < ss_fresh s"
    and "attachConsumer env s = (None, s')"
  shows "LiveHandle h \<in> ss_open (stop s') \<and> sv_activeConsumers (ss_svc (stop s')) = base + 1"
proof -
  have s': "ss_liveHandle s' = Some (Suc (ss_fresh s))" "ss_ms s' = Some (ss_fresh s)" "ss_consumer s' = ss_consumer s"
    "ss_playSM s' = ss_playSM s" "ss_untrack s'" "ss_svc s' = TrackConsumer (ss_svc s)" "ss_open s \<subseteq> ss_open s'"
    using assms(2,5)
    by (auto simp: attachConsumer_def buildMSEConsumer_def attachLiveConsumer_def Let_def split: option.splits)
  have "LiveHandle h \<in> ss_open s" using assms(1,3) by (simp add: balanced_def owned_def)
  moreover have "LiveHandle h \<notin> owned s'" using s' assms(4) by (auto simp: owned_def)
  ultimately show ?thesis using s' assms(1,3) stop_effect [of s']
    by (auto simp: balanced_def TrackConsumer_def untrackConsumer_def)
qed

lemma second_play_leaks_viewer_witness:
  "sv_activeConsumers (ss_svc (stop (snd (attachConsumer session_env0 attached0)))) = 1"
proof -
  have "fst (attachConsumer session_env0 attached0) = None"
    using attached0_simps(1)
    by (simp add: attachConsumer_def buildMSEConsumer_def attachLiveConsumer_def Let_def session_env0_def)
  then have "attachConsumer session_env0 attached0 = (None, snd (attachConsumer session_env0 attached0))"
    by (metis prod.collapse)
  with second_play_leaks_viewer [OF attached0_simps(5,1,2) _ this] attached0_simps(3) show ?thesis by simp
qed

text \<open>
  Seek debouncing. A seek whose sequence number is not newer than the newest one seen changes
  nothing; a newer one becomes the newest.
\<close>

theorem seek_debounce:
  assumes "balanced base s" "handleSeek env cmd s = (r, s')" "0 < wc_Seq cmd"
  shows "if wc_Seq cmd \<le> ss_lastSeqSeen s then r = None \<and> s' = s else ss_lastSeqSeen s' = wc_Seq cmd"
proof (cases "stale cmd s")
  case True
  then show ?thesis using assms(2,3) by (auto simp: handleSeek_def stale_def)
next
  case False
  let ?s = "note_seq cmd s"
  have b: "balanced base ?s" "ss_lastSeqSeen ?s = wc_Seq cmd" using assms(1,3) by (auto simp: note_seq_def balanced_def owned_def)
  have live: "ss_lastSeqSeen x = wc_Seq cmd" if "attachConsumer env (startLive env (stop ?s)) = (y, x)" for x y
  proof -
    have l: "balanced base (startLive env (stop ?s))" "detached (startLive env (stop ?s))"
      using startLive_balanced [of base "stop ?s" env] stop_releases [OF b(1)] by auto
    have "ss_lastSeqSeen (startLive env (stop ?s)) = wc_Seq cmd"
      using stop_releases [OF b(1)] b(2) by (simp add: startLive_def send_def)
    then show ?thesis using attachConsumer_balanced [OF l that] detached_no_writer [OF l] by auto
  qed
  have "ss_lastSeqSeen s' = wc_Seq cmd"
    using assms(2) False live executeSeek_balanced [OF b(1)] b(2)
    by (auto simp: handleSeek_def Let_def send_def split: if_splits prod.splits option.splits)
  with False assms(3) show ?thesis by (auto simp: stale_def)
qed

lemma seek_debounce_witness:
  "ss_lastSeqSeen (snd (handleSeek session_env0 (command0 ''seek'' ''now'' 7) attached0)) = 7"
  using seek_debounce [OF attached0_simps(5), of session_env0 "command0 ''seek'' ''now'' 7"] attached0_simps(4)
  by (metis command0_def prod.collapse not_numeral_le_zero wsCommand.select_convs(4) zero_less_numeral)

lemma ResolvePlaybackStart_modes:
  "ResolvePlaybackStart env ch from to s = (Inr (t, m), s') \<Longrightarrow>
     m = PlaybackModeLive \<or> m = PlaybackModeRecorded \<or> m = PlaybackModeFirstAvailable"
  by (auto simp: ResolvePlaybackStart_def split: option.splits prod.splits sum.splits if_splits list.splits)

lemma resolveAndStartSeek_mode:
  assumes "balanced base s" "detached s" "ss_playSM s = None"
    and "resolveAndStartSeek env t s = (Inr (u, m, g), s')"
  shows "ss_liveMode s' \<and> m = PlaybackModeLive
    \<or> \<not> ss_liveMode s' \<and> ss_playSM s' \<noteq> None \<and> m \<in> {PlaybackModeRecorded, PlaybackModeFirstAvailable}"
proof -
  obtain q s1 where q: "resolve env t s = (q, s1)" by force
  have s1: "balanced base s1" "detached s1" "ss_playSM s1 = None" using resolve_frame [OF q] assms by simp_all
  have live: "ss_liveMode (startLive env s1)" by (simp add: startLive_def)
  have rec: "\<not> ss_liveMode x \<and> ss_playSM x \<noteq> None" if "startRecordedAt env v s1 = (None, x)" for v x
    using startRecordedAt_balanced [OF s1 that] by simp
  have modes: "m' = PlaybackModeLive \<or> m' = PlaybackModeRecorded \<or> m' = PlaybackModeFirstAvailable"
    if "q = Inr (v, m')" for v m'
    using q that ResolvePlaybackStart_modes by (fastforce simp: resolve_def split: prod.splits)
  show ?thesis
    using assms(4) q live rec modes
    by (fastforce simp: resolveAndStartSeek_def Let_def split: sum.splits prod.splits if_splits option.splits)
qed



end
