(* ===== verification/Http_Api.thy ===== *)
theory Http_Api
  imports Stream_Session "HOL-Library.Word"
begin

text \<open>
  The HTTP surface of \<^verbatim>\<open>pkg/edgeview\<close>: \<^verbatim>\<open>http_handler.go\<close> (authentication, paging, the time range
  parameters, camera, timeline, statistics and health endpoints, and the chunked video stream),
  \<^verbatim>\<open>http_analytics.go\<close>, the path test of \<^verbatim>\<open>ui_embed.go\<close> and the writer wrapper of
  \<^verbatim>\<open>pkg/metrics/middleware.go\<close>.

  A handler returns a reply: the status and the detail text of a problem, or the body. The
  environment gives the clock, the general time parser, the relay statistics, the analytics reader of
  the SDK and the Go runtime's counters. Floating point sums are exact here. The route table is the theory
  \<open>Router\<close>.
\<close>

type_synonym 'a reply = "(nat \<times> string) + 'a"

definition writeProblem :: "nat \<Rightarrow> string \<Rightarrow> 'a reply" where
  "writeProblem status detail = Inl (status, detail)"

subsection \<open>Requests and authentication\<close>

record http_request =
  rq_Path :: string
  rq_Header :: "string \<Rightarrow> string"
  rq_Query :: "string \<Rightarrow> string"

text \<open>\<^verbatim>\<open>strings.ToLower\<close> and \<^verbatim>\<open>strings.EqualFold\<close> on ASCII text.\<close>

definition lower_char :: "char \<Rightarrow> char" where
  "lower_char c = (if CHR ''A'' \<le> c \<and> c \<le> CHR ''Z'' then char_of (of_char c + 32 :: nat) else c)"

definition to_lower :: "string \<Rightarrow> string" where
  "to_lower s = map lower_char s"

definition equal_fold :: "string \<Rightarrow> string \<Rightarrow> bool" where
  "equal_fold s t \<longleftrightarrow> to_lower s = to_lower t"

definition isUIPath :: "bool \<Rightarrow> string \<Rightarrow> bool" where
  "isUIPath uiAvailable path \<longleftrightarrow> uiAvailable \<and> \<not> has_prefix path ''/api/'' \<and> \<not> has_prefix path ''/health''
     \<and> \<not> has_prefix path ''/docs'' \<and> \<not> has_prefix path ''/openapi''"

definition isWebSocketUpgrade :: "http_request \<Rightarrow> bool" where
  "isWebSocketUpgrade r \<longleftrightarrow> equal_fold (rq_Header r ''Connection'') ''upgrade''
     \<and> equal_fold (rq_Header r ''Upgrade'') ''websocket''"

definition authMiddleware ::
  "bool \<Rightarrow> string \<Rightarrow> (http_request \<Rightarrow> 'a reply) \<Rightarrow> http_request \<Rightarrow> 'a reply" where
  "authMiddleware uiAvailable authToken next r =
    (if rq_Path r \<in> {''/healthz'', ''/health'', ''/docs'', ''/docs/'', ''/openapi.json'', ''/openapi.yaml''}
        \<or> isUIPath uiAvailable (rq_Path r)
     then next r
     else if authToken = [] then next r
     else
       (let token = rq_Header r ''Authorization'';
            token = (if token = [] \<and> isWebSocketUpgrade r then ''Bearer '' @ rq_Query r ''token'' else token)
        in if token \<noteq> ''Bearer '' @ authToken then writeProblem 401 ''missing or invalid bearer token''
           else next r))"

subsection \<open>Paging\<close>

record paginatedInput =
  pi_Limit :: int
  pi_Offset :: int

definition effectiveLimit :: "paginatedInput \<Rightarrow> int" where
  "effectiveLimit p = (if pi_Limit p \<le> 0 then 100 else if pi_Limit p > 1000 then 1000 else pi_Limit p)"

record 'a paged =
  pg_Items :: "'a list"
  pg_TotalCount :: int
  pg_Limit :: int
  pg_Offset :: int

text \<open>A slice expression panics outside of its bounds.\<close>

definition go_slice :: "'a list \<Rightarrow> int \<Rightarrow> int \<Rightarrow> 'a list option" where
  "go_slice xs a b =
    (if 0 \<le> a \<and> a \<le> b \<and> b \<le> int (length xs) then Some (take (nat (b - a)) (drop (nat a) xs)) else None)"

definition page :: "paginatedInput \<Rightarrow> 'a list \<Rightarrow> 'a paged option" where
  "page input xs =
    (let count = int (length xs); limit = effectiveLimit input; offset = min (pi_Offset input) count;
         endt = min (offset + limit) count
     in case go_slice xs offset endt of
          None \<Rightarrow> None
        | Some items \<Rightarrow> Some \<lparr>pg_Items = items, pg_TotalCount = count, pg_Limit = limit, pg_Offset = offset\<rparr>)"

subsection \<open>Time ranges\<close>

definition errInvalidTimeRange :: go_error where
  "errInvalidTimeRange = ErrorString ''end must be greater than or equal to start''"
definition errInvalidEndRFC3339 :: go_error where
  "errInvalidEndRFC3339 = ErrorString ''invalid end, expected RFC3339''"

definition parsePlaybackStart :: "(string \<Rightarrow> instant option) \<Rightarrow> http_request \<Rightarrow> instant result" where
  "parsePlaybackStart general r =
    (if rq_Query r ''start'' = [] then Inr zero_time
     else case time_Parse general (rq_Query r ''start'') of
       None \<Rightarrow> Inl errInvalidStartRFC3339
     | Some t \<Rightarrow> Inr t)"

definition parseOptionalTimeRange ::
  "(string \<Rightarrow> instant option) \<Rightarrow> instant \<Rightarrow> string \<Rightarrow> string \<Rightarrow> (instant \<times> instant) result" where
  "parseOptionalTimeRange general now startStr endStr =
    (case (if startStr \<noteq> [] then time_Parse general startStr else Some (now - 24 * Hour)) of
       None \<Rightarrow> Inl errInvalidStartRFC3339
     | Some t0 \<Rightarrow>
       (case (if endStr \<noteq> [] then time_Parse general endStr else Some now) of
          None \<Rightarrow> Inl errInvalidEndRFC3339
        | Some t1 \<Rightarrow> if t1 < t0 then Inl errInvalidTimeRange else Inr (t0, t1)))"

subsection \<open>Cameras and timelines\<close>

record relayStats =
  rl_ID :: string
  rl_PacketsRead :: "64 word"
  rl_BytesRead :: "64 word"
  rl_KeyFrames :: "64 word"
  rl_DroppedPackets :: "64 word"
  rl_BitrateBps :: rat
  rl_ActualFPS :: rat

record 'ix http_env =
  he_play :: "'ix play_env"
  he_now :: instant
  he_parse :: "string \<Rightarrow> instant option"
  he_GetRelayStats :: "relayStats list"
  he_GetActiveRelayCount :: int
  he_Goroutines :: int
  he_Alloc :: "64 word"
  he_Sys :: "64 word"
  he_HeapInuse :: "64 word"
  he_NumGC :: "32 word"

record 'ix HTTPHandler =
  hh_svc :: "'ix Service"
  hh_authToken :: string
  hh_segmentCounter :: "int option"
  hh_collector :: bool
  hh_analyticsHub :: bool
  hh_analyticsReader :: bool
  hh_startTime :: instant

text \<open>The options of a handler; the hub, the reader and the collector are present or not.\<close>

datatype HTTPHandlerOption = WithSegmentCounter int | WithMetricsCollector | WithAnalyticsHub | WithAnalyticsReader

fun apply_handler_option :: "HTTPHandlerOption \<Rightarrow> 'ix HTTPHandler \<Rightarrow> 'ix HTTPHandler" where
  "apply_handler_option (WithSegmentCounter n) h = h\<lparr>hh_segmentCounter := Some n\<rparr>"
| "apply_handler_option WithMetricsCollector h = h\<lparr>hh_collector := True\<rparr>"
| "apply_handler_option WithAnalyticsHub h = h\<lparr>hh_analyticsHub := True\<rparr>"
| "apply_handler_option WithAnalyticsReader h = h\<lparr>hh_analyticsReader := True\<rparr>"

definition NewHTTPHandler :: "'ix Service \<Rightarrow> string \<Rightarrow> instant \<Rightarrow> HTTPHandlerOption list \<Rightarrow> 'ix HTTPHandler" where
  "NewHTTPHandler svc authToken now opts = fold apply_handler_option opts
     \<lparr>hh_svc = svc, hh_authToken = authToken, hh_segmentCounter = None, hh_collector = False, hh_analyticsHub = False,
      hh_analyticsReader = False, hh_startTime = now\<rparr>"

definition humaListCameras ::
  "'ix http_env \<Rightarrow> paginatedInput \<Rightarrow> 'ix HTTPHandler \<Rightarrow> CameraInfo paged option" where
  "humaListCameras env input h = page input (ListCameras (he_play env) (hh_svc h))"

text \<open>Go's integer division truncates towards zero.\<close>

definition Milliseconds :: "duration \<Rightarrow> int" where
  "Milliseconds d = d sdiv Millisecond"

record timelineSummary =
  ts_Start :: instant
  ts_End :: instant
  ts_DurationMs :: int
  ts_HasEvents :: bool

record TimelineEntry =
  te_ID :: string
  te_Start :: instant
  te_End :: instant
  te_DurationMs :: int
  te_SizeBytes :: int
  te_Status :: string
  te_HasMotion :: bool
  te_HasObjects :: bool

definition timeline_summary :: "RecordingEntry \<Rightarrow> timelineSummary" where
  "timeline_summary e =
    \<lparr>ts_Start = re_StartTime e, ts_End = re_EndTime e,
     ts_DurationMs = Milliseconds (time_Sub (re_EndTime e) (re_StartTime e)), ts_HasEvents = re_HasEvents e\<rparr>"

definition timeline_entry :: "RecordingEntry \<Rightarrow> TimelineEntry" where
  "timeline_entry e =
    \<lparr>te_ID = re_ID e, te_Start = re_StartTime e, te_End = re_EndTime e,
     te_DurationMs = Milliseconds (time_Sub (re_EndTime e) (re_StartTime e)), te_SizeBytes = re_SizeBytes e,
     te_Status = re_Status e, te_HasMotion = re_HasMotion e, te_HasObjects = re_HasObjects e\<rparr>"

record timelineInput = paginatedInput +
  ti_CameraID :: string
  ti_Start :: string
  ti_End :: string

text \<open>
  The two timeline endpoints differ in the shape of an item. A reply \<open>Inr None\<close> is a panic of the
  slice expression.
\<close>

definition timeline_page ::
  "'ix http_env \<Rightarrow> (RecordingEntry \<Rightarrow> 'b) \<Rightarrow> timelineInput \<Rightarrow> 'ix HTTPHandler
     \<Rightarrow> 'b paged option reply \<times> 'ix HTTPHandler" where
  "timeline_page env item input h =
    (case parseOptionalTimeRange (he_parse env) (he_now env) (ti_Start input) (ti_End input) of
       Inl e \<Rightarrow> (Inl (400, error_string e), h)
     | Inr (t0, t1) \<Rightarrow>
       (case Timeline (he_play env) (ti_CameraID input) t0 t1 (hh_svc h) of
          (Inl e, svc) \<Rightarrow> (Inl (500, error_string e), h\<lparr>hh_svc := svc\<rparr>)
        | (Inr entries, svc) \<Rightarrow>
            (Inr (page (paginatedInput.truncate input) (map item entries)), h\<lparr>hh_svc := svc\<rparr>)))"

definition humaGetTimeline ::
  "'ix http_env \<Rightarrow> timelineInput \<Rightarrow> 'ix HTTPHandler \<Rightarrow> timelineSummary paged option reply \<times> 'ix HTTPHandler" where
  "humaGetTimeline env input h = timeline_page env timeline_summary input h"

definition humaRecordingTimeline ::
  "'ix http_env \<Rightarrow> timelineInput \<Rightarrow> 'ix HTTPHandler \<Rightarrow> TimelineEntry paged option reply \<times> 'ix HTTPHandler" where
  "humaRecordingTimeline env input h = timeline_page env timeline_entry input h"

subsection \<open>Statistics and health\<close>

definition humaCameraStatsByID :: "(string \<Rightarrow> relayStats option) \<Rightarrow> string \<Rightarrow> relayStats reply" where
  "humaCameraStatsByID GetRelayStatsByID cameraID =
    (case GetRelayStatsByID cameraID of None \<Rightarrow> Inl (404, ''camera not streaming'') | Some stats \<Rightarrow> Inr stats)"

definition humaProducerStats :: "'ix http_env \<Rightarrow> relayStats list \<times> int" where
  "humaProducerStats env = (he_GetRelayStats env, int (length (he_GetRelayStats env)))"

record SystemStats =
  sy_TotalCameras :: int
  sy_StreamingCameras :: int
  sy_RecordingCameras :: int
  sy_TotalPacketsRead :: "64 word"
  sy_TotalBytesRead :: "64 word"
  sy_TotalKeyFrames :: "64 word"
  sy_TotalDropped :: "64 word"
  sy_AvgFPS :: rat
  sy_TotalBitrateBps :: rat
  sy_ActiveSegments :: int
  sy_ActiveViewers :: int

definition add_relay :: "relayStats \<Rightarrow> SystemStats \<times> rat \<Rightarrow> SystemStats \<times> rat" where
  "add_relay rs = (\<lambda>(stats, fpsSum).
    (stats\<lparr>sy_StreamingCameras := sy_StreamingCameras stats + 1,
           sy_TotalPacketsRead := sy_TotalPacketsRead stats + rl_PacketsRead rs,
           sy_TotalBytesRead := sy_TotalBytesRead stats + rl_BytesRead rs,
           sy_TotalKeyFrames := sy_TotalKeyFrames stats + rl_KeyFrames rs,
           sy_TotalDropped := sy_TotalDropped stats + rl_DroppedPackets rs,
           sy_TotalBitrateBps := sy_TotalBitrateBps stats + rl_BitrateBps rs\<rparr>,
     fpsSum + rl_ActualFPS rs))"

definition humaSystemStats :: "'ix http_env \<Rightarrow> 'ix HTTPHandler \<Rightarrow> SystemStats" where
  "humaSystemStats env h =
    (let cameras = ListCameras (he_play env) (hh_svc h);
         stats = \<lparr>sy_TotalCameras = int (length cameras), sy_StreamingCameras = 0,
                  sy_RecordingCameras = int (length (filter cam_Recording cameras)), sy_TotalPacketsRead = 0,
                  sy_TotalBytesRead = 0, sy_TotalKeyFrames = 0, sy_TotalDropped = 0, sy_AvgFPS = 0,
                  sy_TotalBitrateBps = 0, sy_ActiveSegments = 0, sy_ActiveViewers = 0\<rparr>;
         (stats, fpsSum) = fold add_relay (he_GetRelayStats env) (stats, 0);
         stats = (if sy_StreamingCameras stats > 0
                  then stats\<lparr>sy_AvgFPS := fpsSum / of_int (sy_StreamingCameras stats)\<rparr> else stats);
         stats = (case hh_segmentCounter h of None \<Rightarrow> stats | Some n \<Rightarrow> stats\<lparr>sy_ActiveSegments := n\<rparr>)
     in stats\<lparr>sy_ActiveViewers := ViewerCount (hh_svc h)\<rparr>)"

record HealthMemory =
  hm_AllocMB :: rat
  hm_SysMB :: rat
  hm_HeapInuse :: rat
  hm_GCRuns :: "32 word"

record HealthSnapshot =
  hs_Status :: string
  hs_UptimeSeconds :: int
  hs_Goroutines :: int
  hs_Memory :: HealthMemory
  hs_ActiveRelays :: int
  hs_ActiveViewers :: int
  hs_ActiveSegments :: int
  hs_Timestamp :: instant

definition megabytes :: "64 word \<Rightarrow> rat" where
  "megabytes n = rat_of_int (uint n) / 2 ^ 20"

definition collectHealth :: "'ix http_env \<Rightarrow> 'ix HTTPHandler \<Rightarrow> HealthSnapshot" where
  "collectHealth env h =
    \<lparr>hs_Status = ''ok'',
     hs_UptimeSeconds = int64_of_float (of_int (time_Sub (he_now env) (hh_startTime h)) / of_int Second),
     hs_Goroutines = he_Goroutines env,
     hs_Memory = \<lparr>hm_AllocMB = megabytes (he_Alloc env), hm_SysMB = megabytes (he_Sys env),
                  hm_HeapInuse = megabytes (he_HeapInuse env), hm_GCRuns = he_NumGC env\<rparr>,
     hs_ActiveRelays = he_GetActiveRelayCount env, hs_ActiveViewers = ViewerCount (hh_svc h),
     hs_ActiveSegments = (case hh_segmentCounter h of None \<Rightarrow> 0 | Some n \<Rightarrow> n), hs_Timestamp = he_now env\<rparr>"

definition humaHealthz :: string where "humaHealthz = ''ok''"

text \<open>The lookback window of the metrics endpoint; a duration that does not parse is ignored.\<close>

definition metrics_since :: "string \<Rightarrow> duration" where
  "metrics_since since =
    (if since \<noteq> [] then (case ParseDuration since of Some d \<Rightarrow> d | None \<Rightarrow> Hour) else Hour)"

subsection \<open>The video stream\<close>

text \<open>
  The response writer a handler gets: the server's own, which implements \<^verbatim>\<open>http.Flusher\<close>, or the
  status recorder around it, whose method set is that of \<^verbatim>\<open>http.ResponseWriter\<close> alone.
\<close>

datatype writer = ServerWriter | StatusRecorder writer

fun is_Flusher :: "writer \<Rightarrow> bool" where
  "is_Flusher ServerWriter \<longleftrightarrow> True"
| "is_Flusher (StatusRecorder w) \<longleftrightarrow> False"

definition ChiMiddleware :: "(writer \<Rightarrow> http_request \<Rightarrow> 'a) \<Rightarrow> writer \<Rightarrow> http_request \<Rightarrow> 'a" where
  "ChiMiddleware next w r = next (StatusRecorder w) r"

text \<open>What a streaming request does, in order. A consumer is attached with or without flushing.\<close>

datatype stream_event =
    Tracked | Untracked | HubStarted | HubStopped | Attached hub bool | Detached hub | Problem nat string

definition httpStreamLive ::
  "'ix session_env \<Rightarrow> writer \<Rightarrow> string \<Rightarrow> 'ix Service \<Rightarrow> stream_event list \<times> 'ix Service" where
  "httpStreamLive env w cameraID svc =
    (let flusher = is_Flusher w; svc1 = TrackConsumer svc in
     case se_Consume env MainHub of
       Some e \<Rightarrow> ([Tracked, Problem 404 (error_string e), Untracked], untrackConsumer svc1)
     | None \<Rightarrow> ([Tracked, Attached MainHub flusher, Detached MainHub, Untracked], untrackConsumer svc1))"

definition httpStreamRecorded ::
  "'ix session_env \<Rightarrow> writer \<Rightarrow> string \<Rightarrow> instant \<Rightarrow> 'ix Service \<Rightarrow> stream_event list \<times> 'ix Service" where
  "httpStreamRecorded env w cameraID from svc =
    (case se_HubStart env of
       Some e \<Rightarrow> ([Problem 500 (error_string e)], svc)
     | None \<Rightarrow>
       (let flusher = is_Flusher w in
        case se_Consume env (SessionHub 0) of
          Some e \<Rightarrow> ([HubStarted, Problem 404 (error_string e), HubStopped], svc)
        | None \<Rightarrow> ([HubStarted, Attached (SessionHub 0) flusher, Detached (SessionHub 0), HubStopped], svc)))"

definition httpStream ::
  "'ix session_env \<Rightarrow> writer \<Rightarrow> string \<Rightarrow> http_request \<Rightarrow> 'ix Service \<Rightarrow> stream_event list \<times> 'ix Service" where
  "httpStream env w cameraID r svc =
    (if cameraID = [] then ([Problem 400 ''missing cameraId''], svc)
     else case parsePlaybackStart (se_parse env) r of
       Inl e \<Rightarrow> ([Problem 400 (error_string e)], svc)
     | Inr from \<Rightarrow>
       if from = zero_time then httpStreamLive env w cameraID svc
       else httpStreamRecorded env w cameraID from svc)"

text \<open>The stream route behind the middleware stack of the router.\<close>

definition route_stream ::
  "'ix session_env \<Rightarrow> string \<Rightarrow> http_request \<Rightarrow> 'ix HTTPHandler \<Rightarrow> stream_event list \<times> 'ix Service" where
  "route_stream env cameraID r h =
    (if hh_collector h then ChiMiddleware (\<lambda>w r. httpStream env w cameraID r (hh_svc h)) ServerWriter r
     else httpStream env ServerWriter cameraID r (hh_svc h))"

subsection \<open>Analytics queries\<close>

text \<open>\<^verbatim>\<open>strconv.Atoi\<close>: an optional sign and decimal digits, in the range of 64 bits.\<close>

definition Atoi :: "string \<Rightarrow> int option" where
  "Atoi s =
    (let (neg, ds) = (case s of CHR ''-'' # r \<Rightarrow> (True, r) | CHR ''+'' # r \<Rightarrow> (False, r) | _ \<Rightarrow> (False, s))
     in if ds = [] then None
        else case digits_val 0 ds of
          None \<Rightarrow> None
        | Some n \<Rightarrow> (let v = (if neg then - int n else int n) in if fits64 v then Some v else None))"

definition parseOptionalInt :: "string \<Rightarrow> string \<Rightarrow> int option reply" where
  "parseOptionalInt val field =
    (if val = [] then Inr None
     else case Atoi val of
       None \<Rightarrow> Inl (400, ''invalid '' @ field @ '': expected integer'')
     | Some n \<Rightarrow> Inr (Some n))"

record query_opts =
  qo_Limit :: int
  qo_Offset :: int
  qo_ClassID :: "int option"
  qo_MinConfidence :: "int option"
  qo_EventsOnly :: bool

record ('f, 'b) analytics_reader =
  an_QueryFrames :: "string \<Rightarrow> instant \<Rightarrow> instant \<Rightarrow> query_opts \<Rightarrow> ('f list \<times> int) result"
  an_CountsByInterval :: "string \<Rightarrow> instant \<Rightarrow> instant \<Rightarrow> int \<Rightarrow> 'b list result"
  an_SearchByTrackID :: "string \<Rightarrow> int \<Rightarrow> instant \<Rightarrow> instant \<Rightarrow> query_opts \<Rightarrow> ('f list \<times> int) result"

record analyticsInput = timelineInput +
  ai_ClassID :: string
  ai_MinConfidence :: string

definition time_range ::
  "'ix http_env \<Rightarrow> ('z timelineInput_scheme) \<Rightarrow> (instant \<times> instant) reply" where
  "time_range env input =
    (case parseOptionalTimeRange (he_parse env) (he_now env) (ti_Start input) (ti_End input) of
       Inl e \<Rightarrow> Inl (400, ''invalid time range: '' @ error_string e)
     | Inr r \<Rightarrow> Inr r)"

definition frames_page ::
  "string \<Rightarrow> ('z timelineInput_scheme) \<Rightarrow> ('f list \<times> int) result \<Rightarrow> 'f paged reply" where
  "frames_page msg input r =
    (case r of
       Inl e \<Rightarrow> Inl (500, msg @ error_string e)
     | Inr (frames, n) \<Rightarrow>
       Inr \<lparr>pg_Items = frames, pg_TotalCount = n, pg_Limit = effectiveLimit (paginatedInput.truncate input),
            pg_Offset = pi_Offset input\<rparr>)"

definition humaGetAnalytics ::
  "'ix http_env \<Rightarrow> ('f, 'b) analytics_reader \<Rightarrow> analyticsInput \<Rightarrow> 'f paged reply" where
  "humaGetAnalytics env reader input =
    (case time_range env input of
       Inl p \<Rightarrow> Inl p
     | Inr (t0, t1) \<Rightarrow>
       (case parseOptionalInt (ai_ClassID input) ''classId'' of
          Inl p \<Rightarrow> Inl p
        | Inr classID \<Rightarrow>
          (case parseOptionalInt (ai_MinConfidence input) ''minConfidence'' of
             Inl p \<Rightarrow> Inl p
           | Inr minConfidence \<Rightarrow>
             frames_page ''query analytics: '' input
               (an_QueryFrames reader (ti_CameraID input) t0 t1
                  \<lparr>qo_Limit = effectiveLimit (paginatedInput.truncate input), qo_Offset = pi_Offset input,
                   qo_ClassID = classID, qo_MinConfidence = minConfidence, qo_EventsOnly = False\<rparr>))))"

definition humaGetAnalyticsCounts ::
  "'ix http_env \<Rightarrow> ('f, 'b) analytics_reader \<Rightarrow> timelineInput \<Rightarrow> int \<Rightarrow> 'b list reply" where
  "humaGetAnalyticsCounts env reader input intervalParam =
    (case time_range env input of
       Inl p \<Rightarrow> Inl p
     | Inr (t0, t1) \<Rightarrow>
       (let interval = (if intervalParam \<le> 0 then 60 else intervalParam) in
        case an_CountsByInterval reader (ti_CameraID input) t0 t1 interval of
          Inl e \<Rightarrow> Inl (500, ''query analytics counts: '' @ error_string e)
        | Inr buckets \<Rightarrow> Inr buckets))"

definition humaGetAnalyticsTrack ::
  "'ix http_env \<Rightarrow> ('f, 'b) analytics_reader \<Rightarrow> timelineInput \<Rightarrow> int \<Rightarrow> 'f paged reply" where
  "humaGetAnalyticsTrack env reader input trackID =
    (case time_range env input of
       Inl p \<Rightarrow> Inl p
     | Inr (t0, t1) \<Rightarrow>
       frames_page ''search analytics by track: '' input
         (an_SearchByTrackID reader (ti_CameraID input) trackID t0 t1
            \<lparr>qo_Limit = effectiveLimit (paginatedInput.truncate input), qo_Offset = pi_Offset input,
             qo_ClassID = None, qo_MinConfidence = None, qo_EventsOnly = False\<rparr>))"

definition humaGetAnalyticsEvents ::
  "'ix http_env \<Rightarrow> ('f, 'b) analytics_reader \<Rightarrow> timelineInput \<Rightarrow> 'f paged reply" where
  "humaGetAnalyticsEvents env reader input =
    (case time_range env input of
       Inl p \<Rightarrow> Inl p
     | Inr (t0, t1) \<Rightarrow>
       frames_page ''search analytics events: '' input
         (an_QueryFrames reader (ti_CameraID input) t0 t1
            \<lparr>qo_Limit = effectiveLimit (paginatedInput.truncate input), qo_Offset = pi_Offset input,
             qo_ClassID = None, qo_MinConfidence = None, qo_EventsOnly = True\<rparr>))"
subsection \<open>Authentication\<close>

definition bears_token :: "string \<Rightarrow> http_request \<Rightarrow> bool" where
  "bears_token token r \<longleftrightarrow> rq_Header r ''Authorization'' = ''Bearer '' @ token
     \<or> rq_Header r ''Authorization'' = [] \<and> isWebSocketUpgrade r \<and> rq_Query r ''token'' = token"

lemma api_not_exempt:
  assumes "has_prefix path ''/api/''"
  shows "path \<notin> {''/healthz'', ''/health'', ''/docs'', ''/docs/'', ''/openapi.json'', ''/openapi.yaml''}"
    and "\<not> isUIPath ui path"
  using assms by (auto simp: has_prefix_def isUIPath_def)

text \<open>
  With a token configured, a request under \<^verbatim>\<open>/api/\<close> reaches its handler exactly when it carries
  that token, as a bearer header or, for a WebSocket handshake without that header, as a query
  parameter; every other one is answered with 401. This holds whether or not the embedded UI, whose
  paths need no token, is present.
\<close>

lemma auth_guards_api:
  assumes "token \<noteq> []" "has_prefix (rq_Path r) ''/api/''"
  shows "authMiddleware ui token next r =
    (if bears_token token r then next r else writeProblem 401 ''missing or invalid bearer token'')"
  using assms(1) api_not_exempt [OF assms(2)] by (auto simp: authMiddleware_def bears_token_def Let_def)

subsection \<open>Paging\<close>

lemma effectiveLimit_bounds: "1 \<le> effectiveLimit p \<and> effectiveLimit p \<le> 1000"
  by (simp add: effectiveLimit_def)

lemma page_valid:
  assumes "0 \<le> pi_Offset input"
  shows "page input xs = Some \<lparr>pg_Items = take (nat (effectiveLimit input)) (drop (nat (pi_Offset input)) xs),
    pg_TotalCount = int (length xs), pg_Limit = effectiveLimit input,
    pg_Offset = min (pi_Offset input) (int (length xs))\<rparr>"
proof -
  let ?n = "int (length xs)" and ?l = "effectiveLimit input"
  let ?o = "min (pi_Offset input) ?n"
  let ?e = "min (?o + ?l) ?n"
  have b: "0 \<le> ?o" "?o \<le> ?e" "?e \<le> ?n" using assms effectiveLimit_bounds [of input] by auto
  have "take (nat (?e - ?o)) (drop (nat ?o) xs) = take (nat ?l) (drop (nat (pi_Offset input)) xs)"
  proof (cases "pi_Offset input \<le> ?n")
    case True
    then have "nat (?e - ?o) = min (nat ?l) (length xs - nat (pi_Offset input))"
      using assms effectiveLimit_bounds [of input] by (auto simp: min_def nat_diff_distrib)
    with True show ?thesis by (simp add: min_def)
  next
    case False
    then show ?thesis by simp
  qed
  with b show ?thesis by (simp add: page_def Let_def go_slice_def)
qed

lemma take_pages: "concat (map (\<lambda>k. take m (drop (k * m) xs)) [0..<n]) = take (n * m) xs"
proof (induction n)
  case (Suc n)
  then show ?case by (simp add: add.commute [of m] take_add)
qed simp

text \<open>
  Paging through a list with a legal page size shows every item exactly once and in order: the
  pages at offsets 0, L, 2L, ... put together are the list. A page never exceeds 1000 items, and no
  offset that the request validation lets through makes the slice expression panic.
\<close>

theorem pages_cover:
  assumes "1 \<le> L" "L \<le> 1000" "length xs \<le> n * nat L"
  shows "concat (map (\<lambda>k. pg_Items (the (page \<lparr>pi_Limit = L, pi_Offset = int k * L\<rparr> xs))) [0..<n]) = xs
    \<and> (\<forall>input. 0 \<le> pi_Offset input \<longrightarrow> (\<exists>p. page input xs = Some p \<and> length (pg_Items p) \<le> 1000))"
proof
  have "page \<lparr>pi_Limit = L, pi_Offset = int k * L\<rparr> xs \<noteq> None
      \<and> pg_Items (the (page \<lparr>pi_Limit = L, pi_Offset = int k * L\<rparr> xs)) = take (nat L) (drop (k * nat L) xs)" for k
    using assms(1,2) page_valid [of "\<lparr>pi_Limit = L, pi_Offset = int k * L\<rparr>" xs]
    by (simp add: effectiveLimit_def nat_mult_distrib)
  then show "concat (map (\<lambda>k. pg_Items (the (page \<lparr>pi_Limit = L, pi_Offset = int k * L\<rparr> xs))) [0..<n]) = xs"
    using take_pages [of "nat L" xs n] assms(3) by simp
  show "\<forall>input. 0 \<le> pi_Offset input \<longrightarrow> (\<exists>p. page input xs = Some p \<and> length (pg_Items p) \<le> 1000)"
  proof (intro allI impI)
    fix input :: paginatedInput
    assume "0 \<le> pi_Offset input"
    then show "\<exists>p. page input xs = Some p \<and> length (pg_Items p) \<le> 1000"
      using page_valid [of input xs] effectiveLimit_bounds [of input] by auto
  qed
qed

lemma pages_cover_witness:
  "concat (map (\<lambda>k. pg_Items (the (page \<lparr>pi_Limit = 2, pi_Offset = int k * 2\<rparr> [1::int, 2, 3]))) [0..<2]) = [1, 2, 3]"
  using pages_cover [of 2 "[1::int, 2, 3]" 2] by simp

text \<open>
  The camera list is the exception: it is read from a Go map, and two requests may see two orders, so
  that consecutive pages repeat one camera and leave out another.
\<close>

lemma camera_pages_unstable:
  assumes "sv_cameras (hh_svc h) = [x, y]" "pe_mapOrder (he_play env1) [x, y] = [x, y]"
    and "pe_mapOrder (he_play env2) [x, y] = [y, x]" "pe_RelayStats (he_play env1) = pe_RelayStats (he_play env2)"
    "pe_ActiveChannels (he_play env1) = pe_ActiveChannels (he_play env2)"
  shows "map_option pg_Items (humaListCameras env1 \<lparr>pi_Limit = 1, pi_Offset = 0\<rparr> h)
    = map_option pg_Items (humaListCameras env2 \<lparr>pi_Limit = 1, pi_Offset = 1\<rparr> h)"
  using assms
  by (simp add: humaListCameras_def page_valid ListCameras_def effectiveLimit_def enrich_camera_def split: prod.splits)

subsection \<open>Time ranges\<close>

lemma parseOptionalTimeRange_order:
  assumes "parseOptionalTimeRange general now s e = Inr (t0, t1)"
  shows "t0 \<le> t1 \<and> (s = [] \<longrightarrow> t0 = now - 24 * Hour) \<and> (e = [] \<longrightarrow> t1 = now)"
  using assms by (auto simp: parseOptionalTimeRange_def split: option.splits if_splits)


definition http_env0 :: "sqliteIndex http_env" where
  "http_env0 = \<lparr>he_play = play_env0, he_now = 24 * Hour + 1, he_parse = (\<lambda>_. None), he_GetRelayStats = [],
     he_GetActiveRelayCount = 0, he_Goroutines = 1, he_Alloc = 0, he_Sys = 0, he_HeapInuse = 0, he_NumGC = 0\<rparr>"

definition handler0 :: "sqliteIndex HTTPHandler" where
  "handler0 = \<lparr>hh_svc = service0, hh_authToken = [], hh_segmentCounter = None, hh_collector = False, hh_analyticsHub = False,
     hh_analyticsReader = False, hh_startTime = 0\<rparr>"

definition window0 :: timelineInput where
  "window0 = \<lparr>pi_Limit = 0, pi_Offset = 0, ti_CameraID = ''c'', ti_Start = [], ti_End = []\<rparr>"

lemma window0_range:
  "parseOptionalTimeRange (he_parse http_env0) (he_now http_env0) (ti_Start window0) (ti_End window0) = Inr (1, 24 * Hour + 1)"
  by (simp add: parseOptionalTimeRange_def http_env0_def window0_def go_simps)

lemma view_clip0: "index_view_of env0 (index_with [row_of clip0]) ''c'' ''a'' = Some clip0"
  using entry_of_row_of [OF clip0_ok(1), of env0] clip0_ok(3,4)
  by (simp add: index_view_of_def view_of_def db_of_index_with find_def) (simp add: row_of_def clip0_def)


subsection \<open>Statistics\<close>

lemma fold_add_relay:
  "fold add_relay rs (stats, fps) =
    (stats\<lparr>sy_StreamingCameras := sy_StreamingCameras stats + int (length rs),
           sy_TotalPacketsRead := sy_TotalPacketsRead stats + sum_list (map rl_PacketsRead rs),
           sy_TotalBytesRead := sy_TotalBytesRead stats + sum_list (map rl_BytesRead rs),
           sy_TotalKeyFrames := sy_TotalKeyFrames stats + sum_list (map rl_KeyFrames rs),
           sy_TotalDropped := sy_TotalDropped stats + sum_list (map rl_DroppedPackets rs),
           sy_TotalBitrateBps := sy_TotalBitrateBps stats + sum_list (map rl_BitrateBps rs)\<rparr>,
     fps + sum_list (map rl_ActualFPS rs))"
  by (induction rs arbitrary: stats fps) (simp_all add: add_relay_def algebra_simps)

text \<open>The totals are sums, modulo \<open>2 ^ 64\<close> for the counters; the frame rate is the mean.\<close>

lemma humaSystemStats_totals:
  fixes env :: "'ix http_env"
  defines "rs \<equiv> he_GetRelayStats env"
  shows "sy_TotalPacketsRead (humaSystemStats env h) = sum_list (map rl_PacketsRead rs)"
    and "sy_TotalDropped (humaSystemStats env h) = sum_list (map rl_DroppedPackets rs)"
    and "sy_StreamingCameras (humaSystemStats env h) = int (length rs)"
    and "sy_AvgFPS (humaSystemStats env h) * of_nat (length rs) = sum_list (map rl_ActualFPS rs)"
    and "sy_ActiveViewers (humaSystemStats env h) = ViewerCount (hh_svc h)"
  by (cases "rs = []"; simp add: humaSystemStats_def Let_def fold_add_relay rs_def split: option.split)+

subsection \<open>The video stream\<close>

fun delta :: "stream_event \<Rightarrow> int" where
  "delta Tracked = 1" | "delta (Attached _ _) = 1" | "delta HubStarted = 1"
| "delta Untracked = -1" | "delta (Detached _) = -1" | "delta HubStopped = -1"
| "delta (Problem _ _) = 0"

text \<open>
  Behind the metrics middleware the video stream is never flushed: the status recorder hides the
  server's flusher, so the chunks of a stream wait in the server's buffer exactly when a collector is
  configured, as it is in the edge application. What a streaming request acquires it releases, and the
  viewer count ends where it was, on every path.
\<close>

theorem stream_flushes_iff_no_collector:
  assumes "route_stream env cameraID r h = (events, svc)"
  shows "(Attached k flushing \<in> set events \<longrightarrow> (flushing \<longleftrightarrow> \<not> hh_collector h))
    \<and> sum_list (map delta events) = 0 \<and> ViewerCount svc = ViewerCount (hh_svc h)"
  using assms
  by (auto simp: route_stream_def ChiMiddleware_def httpStream_def httpStreamLive_def httpStreamRecorded_def
      ViewerCount_def TrackConsumer_def untrackConsumer_def Let_def split: if_splits sum.splits option.splits)

lemma stream_flushes_iff_no_collector_witness:
  "fst (route_stream session_env0 ''c'' \<lparr>rq_Path = ''/api/cameras/c/stream'', rq_Header = (\<lambda>_. []), rq_Query = (\<lambda>_. [])\<rparr>
     (handler0\<lparr>hh_collector := True\<rparr>)) = [Tracked, Attached MainHub False, Detached MainHub, Untracked]"
proof -
  let ?r = "\<lparr>rq_Path = ''/api/cameras/c/stream'', rq_Header = (\<lambda>_. []), rq_Query = (\<lambda>_. [])\<rparr> :: http_request"
  let ?h = "handler0\<lparr>hh_collector := True\<rparr>"
  have "\<exists>b svc. route_stream session_env0 ''c'' ?r ?h = ([Tracked, Attached MainHub b, Detached MainHub, Untracked], svc)"
    by (auto simp: route_stream_def ChiMiddleware_def httpStream_def parsePlaybackStart_def httpStreamLive_def
        session_env0_simps)
  then obtain b svc where e: "route_stream session_env0 ''c'' ?r ?h
      = ([Tracked, Attached MainHub b, Detached MainHub, Untracked], svc)" by blast
  then have "\<not> b" using stream_flushes_iff_no_collector [OF e, of MainHub b] by simp
  with e show ?thesis by simp
qed

end
