(* ===== verification/Channels.thy ===== *)
theory Channels
  imports Vrtc_Prelude
begin

text \<open>
  The channel (camera) sources of \<^verbatim>\<open>pkg/channel\<close>: the JSON file (\<^verbatim>\<open>file.go\<close>), the Mongo collection
  (\<^verbatim>\<open>mongo.go\<close>) and the MySQL table (\<^verbatim>\<open>mysql.go\<close>), behind the one interface \<open>ChannelWriter\<close>.

  The state of a source is what it stores: the decoded content of the file, the documents of the
  collection, the rows of the table. The statements that the code sends to a database act on them as
  documented: an upsert by primary key, a delete by primary key, a listing in the order of the key,
  compared byte by byte. The environment of a call says which call into the operating system or a
  driver fails, and gives the SDK's and the driver's sentinel errors. Strings are valid UTF-8, so a
  value written as JSON or BSON is read back as it was; a nil map and an empty one are the same.
\<close>

subsection \<open>Channels and their sources\<close>

record Channel =
  ch_ID :: string
  ch_Name :: string
  ch_StreamURL :: string
  ch_Username :: string
  ch_Password :: string
  ch_SiteID :: int
  ch_Extra :: "string \<rightharpoonup> string"

datatype channel_call =
    ReadFile | MarshalIndent
  | FindOne string | Find | CursorAll | ReplaceOne string | DeleteOne string
  | QueryRow string | QueryRows | RowsErr | MarshalExtra | ExecUpsert string | ExecDelete string

text \<open>
  A failed \<^verbatim>\<open>os.WriteFile\<close> may leave any content behind, since the file is truncated before it is
  written.
\<close>

datatype file_content = NoFile | Malformed go_error | ChannelList "Channel list"

record chan_env =
  ce_ErrChannelNotFound :: go_error
  ce_ErrNoDocuments :: go_error
  ce_fail :: "channel_call \<Rightarrow> go_error option"
  ce_WriteFile :: "(go_error \<times> file_content) option"

definition not_found :: "chan_env \<Rightarrow> string \<Rightarrow> go_error" where
  "not_found env i = WrapError [] (ce_ErrChannelNotFound env) ('': '' @ i)"

text \<open>The interface of the SDK, as the operations of a source over its state.\<close>

record 'p ChannelWriter =
  cw_GetChannel :: "string \<Rightarrow> 'p \<Rightarrow> Channel result"
  cw_ListChannels :: "'p \<Rightarrow> Channel list result"
  cw_SaveChannel :: "Channel \<Rightarrow> 'p \<Rightarrow> go_error option \<times> 'p"
  cw_DeleteChannel :: "string \<Rightarrow> 'p \<Rightarrow> go_error option \<times> 'p"

subsection \<open>Lists with a key\<close>

text \<open>Replacing the first element with a key or appending, and removing the first one.\<close>

fun upsert_by :: "('a \<Rightarrow> 'k) \<Rightarrow> 'a \<Rightarrow> 'a list \<Rightarrow> 'a list" where
  "upsert_by key x [] = [x]"
| "upsert_by key x (y # ys) = (if key y = key x then x # ys else y # upsert_by key x ys)"

fun remove_by :: "('a \<Rightarrow> 'k) \<Rightarrow> 'k \<Rightarrow> 'a list \<Rightarrow> 'a list option" where
  "remove_by key k [] = None"
| "remove_by key k (y # ys) = (if key y = k then Some ys else map_option ((#) y) (remove_by key k ys))"

definition keyed :: "('a \<Rightarrow> 'k) \<Rightarrow> 'a list \<Rightarrow> ('k \<rightharpoonup> 'a)" where
  "keyed key xs = map_of (map (\<lambda>x. (key x, x)) xs)"

lemma keyed_simps [simp]:
  "keyed key [] = Map.empty" "keyed key (x # xs) = (keyed key xs)(key x \<mapsto> x)"
  by (simp_all add: keyed_def)

lemma keyed_find: "keyed key xs k = find (\<lambda>x. key x = k) xs"
  by (induction xs) auto

lemma keyed_None: "keyed key xs k = None \<longleftrightarrow> k \<notin> key ` set xs"
  by (auto simp: keyed_def map_of_eq_None_iff image_image)

lemma keyed_upsert_by: "keyed key (upsert_by key x xs) = (keyed key xs)(key x \<mapsto> x)"
  by (induction xs) (auto simp: fun_upd_twist)

lemma set_upsert_by: "set (upsert_by key x xs) \<subseteq> insert x (set xs)"
  by (induction xs) auto

lemma keys_upsert_by: "key ` set (upsert_by key x xs) = insert (key x) (key ` set xs)"
  by (induction xs) auto

lemma distinct_upsert_by: "distinct (map key xs) \<Longrightarrow> distinct (map key (upsert_by key x xs))"
proof (induction xs)
  case (Cons y ys)
  have "key y \<notin> key ` set (upsert_by key x ys)" if "key y \<noteq> key x"
    using Cons.prems that by (auto simp: keys_upsert_by)
  with Cons show ?case by auto
qed simp

lemma remove_by_None: "remove_by key k xs = None \<longleftrightarrow> k \<notin> key ` set xs"
  by (induction xs) auto

lemma remove_by_Some:
  "remove_by key k xs = Some ys \<Longrightarrow> distinct (map key xs) \<Longrightarrow>
   k \<in> key ` set xs \<and> keyed key ys = (keyed key xs)(k := None) \<and> distinct (map key ys) \<and> set ys \<subseteq> set xs"
proof (induction xs arbitrary: ys)
  case (Cons x xs)
  show ?case
  proof (cases "key x = k")
    case True
    then have "keyed key xs k = None" using Cons.prems by (auto simp: keyed_None)
    then have "(keyed key xs)(k := None) = keyed key xs" by (simp add: fun_upd_idem)
    then have "keyed key xs = (keyed key (x # xs))(k := None)" using True by (simp add: fun_eq_iff)
    moreover have "ys = xs" "k \<in> key ` set (x # xs)" "distinct (map key xs)" "set xs \<subseteq> set (x # xs)"
      using Cons.prems True by auto
    ultimately show ?thesis by metis
  next
    case False
    then obtain zs where zs: "remove_by key k xs = Some zs" "ys = x # zs" using Cons.prems(1) by auto
    have ih: "k \<in> key ` set xs" "keyed key zs = (keyed key xs)(k := None)" "distinct (map key zs)" "set zs \<subseteq> set xs"
      using Cons.IH [OF zs(1)] Cons.prems(2) by auto
    then show ?thesis using False zs(2) Cons.prems(2) by (auto simp: fun_upd_twist)
  qed
qed simp

lemma keyed_Some: "distinct (map key xs) \<Longrightarrow> keyed key xs k = Some x \<longleftrightarrow> x \<in> set xs \<and> key x = k"
proof -
  assume "distinct (map key xs)"
  then have "distinct (map fst (map (\<lambda>x. (key x, x)) xs))" by (simp add: comp_def)
  then show ?thesis unfolding keyed_def by (subst map_of_eq_Some_iff) auto
qed

lemma distinct_sort_key: "distinct (map key xs) \<Longrightarrow> distinct (map key (sort_key f xs))"
  by (metis distinct_map distinct_sort set_sort)

lemma keyed_sort_key: "distinct (map key xs) \<Longrightarrow> keyed key (sort_key f xs) = keyed key xs"
proof (rule ext)
  fix k
  assume d: "distinct (map key xs)"
  have "keyed key (sort_key f xs) k = Some x \<longleftrightarrow> keyed key xs k = Some x" for x
    by (simp add: keyed_Some [OF d] keyed_Some [OF distinct_sort_key [OF d]])
  then show "keyed key (sort_key f xs) k = keyed key xs k" by (cases "keyed key xs k") auto
qed

lemma keyed_map: "(\<And>x. x \<in> set xs \<Longrightarrow> key (f x) = key' x) \<Longrightarrow> keyed key (map f xs) k = map_option f (keyed key' xs k)"
  by (induction xs) auto

subsection \<open>The file source\<close>

record channel_file =
  cf_path :: string
  cf_content :: file_content

definition no_such_file :: "string \<Rightarrow> go_error" where
  "no_such_file path = PathError ENOENT (''open '' @ path @ '': no such file or directory'')"

definition load :: "chan_env \<Rightarrow> channel_file \<Rightarrow> Channel list result" where
  "load env p =
    (case (case ce_fail env ReadFile of
             Some e \<Rightarrow> Some e
           | None \<Rightarrow> if cf_content p = NoFile then Some (no_such_file (cf_path p)) else None) of
       Some e \<Rightarrow> Inl (WrapError (''channel file provider: read '' @ quoted (cf_path p) @ '': '') e [])
     | None \<Rightarrow>
       (case cf_content p of
          Malformed e \<Rightarrow> Inl (WrapError (''channel file provider: parse '' @ quoted (cf_path p) @ '': '') e [])
        | ChannelList cs \<Rightarrow> Inr cs
        | NoFile \<Rightarrow> Inr []))"

definition save :: "chan_env \<Rightarrow> Channel list \<Rightarrow> channel_file \<Rightarrow> go_error option \<times> channel_file" where
  "save env channels p =
    (case ce_fail env MarshalIndent of
       Some e \<Rightarrow> (Some (WrapError ''channel file provider: marshal: '' e []), p)
     | None \<Rightarrow>
       (case ce_WriteFile env of
          Some (e, left) \<Rightarrow>
            (Some (WrapError (''channel file provider: write '' @ quoted (cf_path p) @ '': '') e []),
             p\<lparr>cf_content := left\<rparr>)
        | None \<Rightarrow> (None, p\<lparr>cf_content := ChannelList channels\<rparr>)))"

definition file_GetChannel :: "chan_env \<Rightarrow> string \<Rightarrow> channel_file \<Rightarrow> Channel result" where
  "file_GetChannel env i p =
    (case load env p of
       Inl e \<Rightarrow> Inl e
     | Inr channels \<Rightarrow>
       (case find (\<lambda>ch. ch_ID ch = i) channels of Some ch \<Rightarrow> Inr ch | None \<Rightarrow> Inl (not_found env i)))"

definition file_ListChannels :: "chan_env \<Rightarrow> channel_file \<Rightarrow> Channel list result" where
  "file_ListChannels env p = load env p"

definition file_SaveChannel :: "chan_env \<Rightarrow> Channel \<Rightarrow> channel_file \<Rightarrow> go_error option \<times> channel_file" where
  "file_SaveChannel env ch p =
    (case (case load env p of Inl e \<Rightarrow> if os_IsNotExist e then Inr [] else Inl e | Inr cs \<Rightarrow> Inr cs) of
       Inl e \<Rightarrow> (Some e, p)
     | Inr channels \<Rightarrow> save env (upsert_by ch_ID ch channels) p)"

definition file_DeleteChannel :: "chan_env \<Rightarrow> string \<Rightarrow> channel_file \<Rightarrow> go_error option \<times> channel_file" where
  "file_DeleteChannel env i p =
    (case load env p of
       Inl e \<Rightarrow> (Some e, p)
     | Inr channels \<Rightarrow>
       (case remove_by ch_ID i channels of
          None \<Rightarrow> (Some (not_found env i), p)
        | Some channels \<Rightarrow> save env channels p))"

subsection \<open>The Mongo source\<close>

record mongoChannel =
  mc_ID :: string
  mc_Name :: string
  mc_StreamURL :: string
  mc_Username :: string
  mc_Password :: string
  mc_SiteID :: int
  mc_Extra :: "string \<rightharpoonup> string"

definition channelFromMongo :: "mongoChannel \<Rightarrow> Channel" where
  "channelFromMongo d =
    \<lparr>ch_ID = mc_ID d, ch_Name = mc_Name d, ch_StreamURL = mc_StreamURL d, ch_Username = mc_Username d,
     ch_Password = mc_Password d, ch_SiteID = mc_SiteID d, ch_Extra = mc_Extra d\<rparr>"

text \<open>The conversion \<^verbatim>\<open>mongoChannel(ch)\<close>.\<close>

definition channelToMongo :: "Channel \<Rightarrow> mongoChannel" where
  "channelToMongo ch =
    \<lparr>mc_ID = ch_ID ch, mc_Name = ch_Name ch, mc_StreamURL = ch_StreamURL ch, mc_Username = ch_Username ch,
     mc_Password = ch_Password ch, mc_SiteID = ch_SiteID ch, mc_Extra = ch_Extra ch\<rparr>"

definition mongo_GetChannel :: "chan_env \<Rightarrow> string \<Rightarrow> mongoChannel list \<Rightarrow> Channel result" where
  "mongo_GetChannel env i docs =
    (case (case ce_fail env (FindOne i) of
             Some e \<Rightarrow> Inl e
           | None \<Rightarrow> (case find (\<lambda>d. mc_ID d = i) docs of None \<Rightarrow> Inl (ce_ErrNoDocuments env) | Some d \<Rightarrow> Inr d)) of
       Inl e \<Rightarrow>
         if errors_Is e (ce_ErrNoDocuments env) then Inl (not_found env i)
         else Inl (WrapError (''channel mongo: get '' @ quoted i @ '': '') e [])
     | Inr doc \<Rightarrow> Inr (channelFromMongo doc))"

definition mongo_ListChannels :: "chan_env \<Rightarrow> mongoChannel list \<Rightarrow> Channel list result" where
  "mongo_ListChannels env docs =
    (case ce_fail env Find of
       Some e \<Rightarrow> Inl (WrapError ''channel mongo: list: '' e [])
     | None \<Rightarrow>
       (case ce_fail env CursorAll of
          Some e \<Rightarrow> Inl (WrapError ''channel mongo: decode: '' e [])
        | None \<Rightarrow> Inr (map channelFromMongo (sort_key mc_ID docs))))"

definition mongo_SaveChannel :: "chan_env \<Rightarrow> Channel \<Rightarrow> mongoChannel list \<Rightarrow> go_error option \<times> mongoChannel list" where
  "mongo_SaveChannel env ch docs =
    (case ce_fail env (ReplaceOne (ch_ID ch)) of
       Some e \<Rightarrow> (Some (WrapError (''channel mongo: save '' @ quoted (ch_ID ch) @ '': '') e []), docs)
     | None \<Rightarrow> (None, upsert_by mc_ID (channelToMongo ch) docs))"

definition mongo_DeleteChannel :: "chan_env \<Rightarrow> string \<Rightarrow> mongoChannel list \<Rightarrow> go_error option \<times> mongoChannel list" where
  "mongo_DeleteChannel env i docs =
    (case ce_fail env (DeleteOne i) of
       Some e \<Rightarrow> (Some (WrapError (''channel mongo: delete '' @ quoted i @ '': '') e []), docs)
     | None \<Rightarrow>
       (case remove_by mc_ID i docs of
          None \<Rightarrow> (Some (not_found env i), docs)
        | Some docs \<Rightarrow> (None, docs)))"

subsection \<open>The MySQL source\<close>

text \<open>The column \<^verbatim>\<open>extra\<close>: NULL, the empty text, or a text with what \<^verbatim>\<open>json.Unmarshal\<close> makes of it.\<close>

datatype extra_column = ExtraNull | ExtraEmpty | ExtraJSON "(string \<rightharpoonup> string) result"

record channel_row =
  cr_id :: string
  cr_name :: string
  cr_stream_url :: string
  cr_username :: string
  cr_password :: string
  cr_site_id :: int
  cr_extra :: extra_column

definition scanChannel :: "channel_row result \<Rightarrow> Channel result" where
  "scanChannel scan =
    (case scan of
       Inl e \<Rightarrow> Inl e
     | Inr r \<Rightarrow>
       (let ch = \<lparr>ch_ID = cr_id r, ch_Name = cr_name r, ch_StreamURL = cr_stream_url r,
                  ch_Username = cr_username r, ch_Password = cr_password r, ch_SiteID = cr_site_id r,
                  ch_Extra = Map.empty\<rparr>
        in case cr_extra r of
             ExtraNull \<Rightarrow> Inr ch
           | ExtraEmpty \<Rightarrow> Inr ch
           | ExtraJSON (Inl e) \<Rightarrow> Inl (WrapError ''parse extra JSON: '' e [])
           | ExtraJSON (Inr m) \<Rightarrow> Inr (ch\<lparr>ch_Extra := m\<rparr>)))"

definition channel_row_of :: "Channel \<Rightarrow> channel_row" where
  "channel_row_of ch =
    \<lparr>cr_id = ch_ID ch, cr_name = ch_Name ch, cr_stream_url = ch_StreamURL ch, cr_username = ch_Username ch,
     cr_password = ch_Password ch, cr_site_id = ch_SiteID ch, cr_extra = ExtraJSON (Inr (ch_Extra ch))\<rparr>"

definition mysql_GetChannel :: "chan_env \<Rightarrow> string \<Rightarrow> channel_row list \<Rightarrow> Channel result" where
  "mysql_GetChannel env i rows =
    (let row = (case ce_fail env (QueryRow i) of
                  Some e \<Rightarrow> Inl e
                | None \<Rightarrow> (case find (\<lambda>r. cr_id r = i) rows of None \<Rightarrow> Inl ErrNoRows | Some r \<Rightarrow> Inr r))
     in case scanChannel row of
          Inl e \<Rightarrow>
            if errors_Is e ErrNoRows then Inl (not_found env i)
            else Inl (WrapError (''channel mysql: get '' @ quoted i @ '': '') e [])
        | Inr ch \<Rightarrow> Inr ch)"

fun scanChannels :: "channel_row list \<Rightarrow> Channel list result" where
  "scanChannels [] = Inr []"
| "scanChannels (r # rows) =
    (case scanChannel (Inr r) of
       Inl e \<Rightarrow> Inl (WrapError ''channel mysql: scan: '' e [])
     | Inr ch \<Rightarrow> (case scanChannels rows of Inl e \<Rightarrow> Inl e | Inr cs \<Rightarrow> Inr (ch # cs)))"

definition mysql_ListChannels :: "chan_env \<Rightarrow> channel_row list \<Rightarrow> Channel list result" where
  "mysql_ListChannels env rows =
    (case ce_fail env QueryRows of
       Some e \<Rightarrow> Inl (WrapError ''channel mysql: list: '' e [])
     | None \<Rightarrow>
       (case scanChannels (sort_key cr_id rows) of
          Inl e \<Rightarrow> Inl e
        | Inr cs \<Rightarrow>
          (case ce_fail env RowsErr of
             Some e \<Rightarrow> Inl (WrapError ''channel mysql: rows: '' e [])
           | None \<Rightarrow> Inr cs)))"

definition mysql_SaveChannel :: "chan_env \<Rightarrow> Channel \<Rightarrow> channel_row list \<Rightarrow> go_error option \<times> channel_row list" where
  "mysql_SaveChannel env ch rows =
    (case ce_fail env MarshalExtra of
       Some e \<Rightarrow> (Some (WrapError ''channel mysql: marshal extra: '' e []), rows)
     | None \<Rightarrow>
       (case ce_fail env (ExecUpsert (ch_ID ch)) of
          Some e \<Rightarrow> (Some (WrapError (''channel mysql: save '' @ quoted (ch_ID ch) @ '': '') e []), rows)
        | None \<Rightarrow> (None, upsert_by cr_id (channel_row_of ch) rows)))"

definition mysql_DeleteChannel :: "chan_env \<Rightarrow> string \<Rightarrow> channel_row list \<Rightarrow> go_error option \<times> channel_row list" where
  "mysql_DeleteChannel env i rows =
    (case ce_fail env (ExecDelete i) of
       Some e \<Rightarrow> (Some (WrapError (''channel mysql: delete '' @ quoted i @ '': '') e []), rows)
     | None \<Rightarrow>
       (case remove_by cr_id i rows of
          None \<Rightarrow> (Some (not_found env i), rows)
        | Some rows \<Rightarrow> (None, rows)))"

subsection \<open>The interface value\<close>

text \<open>A value of the interface is one of the three sources; a call goes to the methods of that source.\<close>

datatype channel_provider =
    FileProvider channel_file
  | MongoProvider "mongoChannel list"
  | MySQLProvider "channel_row list"

fun GetChannel :: "chan_env \<Rightarrow> string \<Rightarrow> channel_provider \<Rightarrow> Channel result" where
  "GetChannel env i (FileProvider p) = file_GetChannel env i p"
| "GetChannel env i (MongoProvider docs) = mongo_GetChannel env i docs"
| "GetChannel env i (MySQLProvider rows) = mysql_GetChannel env i rows"

fun ListChannels :: "chan_env \<Rightarrow> channel_provider \<Rightarrow> Channel list result" where
  "ListChannels env (FileProvider p) = file_ListChannels env p"
| "ListChannels env (MongoProvider docs) = mongo_ListChannels env docs"
| "ListChannels env (MySQLProvider rows) = mysql_ListChannels env rows"

fun SaveChannel :: "chan_env \<Rightarrow> Channel \<Rightarrow> channel_provider \<Rightarrow> go_error option \<times> channel_provider" where
  "SaveChannel env ch (FileProvider p) = map_prod id FileProvider (file_SaveChannel env ch p)"
| "SaveChannel env ch (MongoProvider docs) = map_prod id MongoProvider (mongo_SaveChannel env ch docs)"
| "SaveChannel env ch (MySQLProvider rows) = map_prod id MySQLProvider (mysql_SaveChannel env ch rows)"

fun DeleteChannel :: "chan_env \<Rightarrow> string \<Rightarrow> channel_provider \<Rightarrow> go_error option \<times> channel_provider" where
  "DeleteChannel env i (FileProvider p) = map_prod id FileProvider (file_DeleteChannel env i p)"
| "DeleteChannel env i (MongoProvider docs) = map_prod id MongoProvider (mongo_DeleteChannel env i docs)"
| "DeleteChannel env i (MySQLProvider rows) = map_prod id MySQLProvider (mysql_DeleteChannel env i rows)"

definition provider_ops :: "chan_env \<Rightarrow> channel_provider ChannelWriter" where
  "provider_ops env =
    \<lparr>cw_GetChannel = GetChannel env, cw_ListChannels = ListChannels env, cw_SaveChannel = SaveChannel env,
     cw_DeleteChannel = DeleteChannel env\<rparr>"
subsection \<open>The contract of a channel source\<close>

text \<open>
  What a client may rely on, over the abstract content of a source: \<open>view\<close> maps an identifier to the
  channel stored under it. Under \<open>calm\<close> no call into the operating system or a driver fails. The
  first locale is the reading half of the interface, the second adds the writing half.
\<close>

locale channel_source =
  fixes ops :: "'p ChannelWriter" and nf :: go_error
    and inv :: "'p \<Rightarrow> bool" and calm :: "'p \<Rightarrow> bool" and view :: "'p \<Rightarrow> (string \<rightharpoonup> Channel)"
  assumes get_found: "inv p \<Longrightarrow> cw_GetChannel ops i p = Inr ch \<Longrightarrow> view p i = Some ch"
    and get_missing: "inv p \<Longrightarrow> cw_GetChannel ops i p = Inl e \<Longrightarrow> errors_Is e nf \<Longrightarrow> view p i = None"
    and get_calm: "inv p \<Longrightarrow> calm p \<Longrightarrow> view p i = Some ch \<Longrightarrow> cw_GetChannel ops i p = Inr ch"
    and get_calm_missing: "inv p \<Longrightarrow> calm p \<Longrightarrow> view p i = None \<Longrightarrow> \<exists>e. cw_GetChannel ops i p = Inl e \<and> errors_Is e nf"
    and list_view: "inv p \<Longrightarrow> cw_ListChannels ops p = Inr cs \<Longrightarrow> distinct (map ch_ID cs) \<and> keyed ch_ID cs = view p"
    and list_calm: "inv p \<Longrightarrow> calm p \<Longrightarrow> \<exists>cs. cw_ListChannels ops p = Inr cs"

locale channel_writer = channel_source +
  assumes save_ok: "inv p \<Longrightarrow> cw_SaveChannel ops ch p = (None, p') \<Longrightarrow> view p' = (view p)(ch_ID ch \<mapsto> ch)"
    and save_inv: "inv p \<Longrightarrow> cw_SaveChannel ops ch p = (r, p') \<Longrightarrow> inv p'"
    and save_calm: "inv p \<Longrightarrow> calm p \<Longrightarrow> \<exists>p'. cw_SaveChannel ops ch p = (None, p') \<and> calm p'"
    and delete_ok: "inv p \<Longrightarrow> cw_DeleteChannel ops i p = (None, p') \<Longrightarrow> view p i \<noteq> None \<and> view p' = (view p)(i := None)"
    and delete_inv: "inv p \<Longrightarrow> cw_DeleteChannel ops i p = (r, p') \<Longrightarrow> inv p'"
    and delete_missing: "inv p \<Longrightarrow> cw_DeleteChannel ops i p = (Some e, p') \<Longrightarrow> errors_Is e nf \<Longrightarrow> view p i = None \<and> p' = p"
    and delete_calm: "inv p \<Longrightarrow> calm p \<Longrightarrow> view p i \<noteq> None \<Longrightarrow> \<exists>p'. cw_DeleteChannel ops i p = (None, p') \<and> calm p'"
    and delete_calm_missing: "inv p \<Longrightarrow> calm p \<Longrightarrow> view p i = None \<Longrightarrow> \<exists>e. cw_DeleteChannel ops i p = (Some e, p) \<and> errors_Is e nf"

context channel_writer
begin

lemma save_then_get:
  assumes "inv p" "cw_SaveChannel ops ch p = (None, p')" "calm p'"
  shows "cw_GetChannel ops (ch_ID ch) p' = Inr ch"
  using get_calm [OF save_inv [OF assms(1,2)] assms(3)] save_ok [OF assms(1,2)] by simp

lemma save_keeps_others:
  assumes "inv p" "cw_SaveChannel ops ch p = (None, p')" "calm p'" "i \<noteq> ch_ID ch" "view p i = Some c"
  shows "cw_GetChannel ops i p' = Inr c"
  using get_calm [OF save_inv [OF assms(1,2)] assms(3)] save_ok [OF assms(1,2)] assms(4,5) by simp

lemma delete_then_get:
  assumes "inv p" "cw_DeleteChannel ops i p = (None, p')" "calm p'"
  shows "\<exists>e. cw_GetChannel ops i p' = Inl e \<and> errors_Is e nf"
  using get_calm_missing [OF delete_inv [OF assms(1,2)] assms(3)] delete_ok [OF assms(1,2)] by simp

lemma save_fold:
  assumes "inv p" "calm p"
  shows "\<exists>p'. fold (\<lambda>ch p. snd (cw_SaveChannel ops ch p)) chs p = p' \<and> inv p' \<and> calm p'
    \<and> view p' = fold (\<lambda>ch m. m(ch_ID ch \<mapsto> ch)) chs (view p)"
  using assms
proof (induction chs arbitrary: p)
  case (Cons ch chs)
  obtain p1 where p1: "cw_SaveChannel ops ch p = (None, p1)" "calm p1" using save_calm [OF Cons.prems] by blast
  show ?case using Cons.IH [OF save_inv [OF Cons.prems(1) p1(1)] p1(2)] save_ok [OF Cons.prems(1) p1(1)] p1(1) by simp
qed simp

end

subsection \<open>The sources satisfy it\<close>

text \<open>
  The sentinels are values made by \<^verbatim>\<open>errors.New\<close>, and the errors of failing calls do not wrap them.
\<close>

definition clean :: "chan_env \<Rightarrow> go_error \<Rightarrow> bool" where
  "clean env e \<longleftrightarrow> \<not> errors_Is e (ce_ErrChannelNotFound env) \<and> \<not> errors_Is e (ce_ErrNoDocuments env)
     \<and> \<not> errors_Is e ErrNoRows"

fun content_ok :: "chan_env \<Rightarrow> file_content \<Rightarrow> bool" where
  "content_ok env NoFile \<longleftrightarrow> True"
| "content_ok env (Malformed e) \<longleftrightarrow> clean env e"
| "content_ok env (ChannelList cs) \<longleftrightarrow> distinct (map ch_ID cs)"

definition chan_ok :: "chan_env \<Rightarrow> bool" where
  "chan_ok env \<longleftrightarrow> (\<exists>m. ce_ErrChannelNotFound env = ErrorString m) \<and> (\<exists>m. ce_ErrNoDocuments env = ErrorString m)
     \<and> (\<forall>c e. ce_fail env c = Some e \<longrightarrow> clean env e)
     \<and> (\<forall>e left. ce_WriteFile env = Some (e, left) \<longrightarrow> clean env e \<and> content_ok env left)"

definition no_failures :: "chan_env \<Rightarrow> bool" where
  "no_failures env \<longleftrightarrow> ce_fail env = (\<lambda>_. None) \<and> ce_WriteFile env = None"

fun provider_inv :: "chan_env \<Rightarrow> channel_provider \<Rightarrow> bool" where
  "provider_inv env (FileProvider p) \<longleftrightarrow> chan_ok env \<and> content_ok env (cf_content p)"
| "provider_inv env (MongoProvider docs) \<longleftrightarrow> chan_ok env \<and> distinct (map mc_ID docs)"
| "provider_inv env (MySQLProvider rows) \<longleftrightarrow> chan_ok env \<and> distinct (map cr_id rows)
     \<and> (\<forall>r \<in> set rows. \<exists>ch. scanChannel (Inr r) = Inr ch)"

fun provider_calm :: "chan_env \<Rightarrow> channel_provider \<Rightarrow> bool" where
  "provider_calm env (FileProvider p) \<longleftrightarrow> no_failures env \<and> (\<exists>cs. cf_content p = ChannelList cs)"
| "provider_calm env _ \<longleftrightarrow> no_failures env"

fun provider_view :: "channel_provider \<Rightarrow> (string \<rightharpoonup> Channel)" where
  "provider_view (FileProvider p) = (case cf_content p of ChannelList cs \<Rightarrow> keyed ch_ID cs | _ \<Rightarrow> Map.empty)"
| "provider_view (MongoProvider docs) = (\<lambda>i. map_option channelFromMongo (keyed mc_ID docs i))"
| "provider_view (MySQLProvider rows) = (\<lambda>i. map_option (projr \<circ> scanChannel \<circ> Inr) (keyed cr_id rows i))"

lemma not_found_is [simp]: "errors_Is (not_found env i) (ce_ErrChannelNotFound env)"
  by (simp add: not_found_def)

lemma wrap_clean:
  "chan_ok env \<Longrightarrow> clean env e \<Longrightarrow> \<not> errors_Is (WrapError a e b) (ce_ErrChannelNotFound env)"
  by (auto simp: chan_ok_def clean_def)

lemma fail_clean: "chan_ok env \<Longrightarrow> ce_fail env c = Some e \<Longrightarrow> clean env e"
  by (simp add: chan_ok_def)

lemma no_failuresD: "no_failures env \<Longrightarrow> ce_fail env c = None \<and> ce_WriteFile env = None"
  by (simp add: no_failures_def)

text \<open>The file.\<close>

lemma load_cases:
  assumes "provider_inv env (FileProvider p)"
  obtains (list) cs where "load env p = Inr cs" "cf_content p = ChannelList cs" "distinct (map ch_ID cs)"
  | (err) e where "load env p = Inl e" "\<not> errors_Is e (ce_ErrChannelNotFound env)" "\<not> os_IsNotExist e"
proof (cases "load env p")
  case (Inl e)
  then obtain a e' where e: "e = WrapError a e' []" and "clean env e' \<or> e' = no_such_file (cf_path p)"
    using assms by (auto simp: load_def fail_clean split: option.splits if_splits file_content.splits)
  then have "\<not> errors_Is e (ce_ErrChannelNotFound env)"
    using assms wrap_clean [of env e' a "[]"] by (auto simp: chan_ok_def no_such_file_def)
  then show ?thesis using Inl e err by simp
next
  case (Inr cs)
  then have "cf_content p = ChannelList cs"
    by (auto simp: load_def split: option.splits if_splits file_content.splits)
  then show ?thesis using Inr assms list by simp
qed

lemma load_calm: "no_failures env \<Longrightarrow> cf_content p = ChannelList cs \<Longrightarrow> load env p = Inr cs"
  by (simp add: load_def no_failures_def)

lemma save_cases:
  assumes "provider_inv env (FileProvider p)" "distinct (map ch_ID cs)"
  obtains (ok) "save env cs p = (None, p\<lparr>cf_content := ChannelList cs\<rparr>)"
    "provider_inv env (FileProvider (p\<lparr>cf_content := ChannelList cs\<rparr>))"
  | (err) e p' where "save env cs p = (Some e, p')" "\<not> errors_Is e (ce_ErrChannelNotFound env)"
      "provider_inv env (FileProvider p')" "\<not> no_failures env"
proof (cases "ce_fail env MarshalIndent")
  case (Some e)
  have c: "chan_ok env" using assms(1) by simp
  have "\<not> no_failures env" using Some by (auto simp: no_failures_def)
  then show ?thesis
    using assms(1) Some wrap_clean [OF c fail_clean [OF c Some], of "''channel file provider: marshal: ''" "[]"]
    by (intro err [of "WrapError ''channel file provider: marshal: '' e []" p]) (simp_all add: save_def)
next
  case None
  show ?thesis
  proof (cases "ce_WriteFile env")
    case n: None
    show ?thesis using None n assms by (intro ok) (simp_all add: save_def)
  next
    case (Some x)
    obtain e left where x: "x = (e, left)" by force
    have c: "chan_ok env" using assms(1) by simp
    then have ok: "clean env e" "content_ok env left" using Some x by (simp_all add: chan_ok_def)
    show ?thesis
      using c ok Some None x
      by (intro err [of "WrapError (''channel file provider: write '' @ quoted (cf_path p) @ '': '') e []"
            "p\<lparr>cf_content := left\<rparr>", OF _ wrap_clean [OF c ok(1)]])
        (simp_all add: save_def no_failures_def)
  qed
qed

lemma file_source_get:
  assumes "provider_inv env (FileProvider p)"
  shows "file_GetChannel env i p = Inr ch \<Longrightarrow> provider_view (FileProvider p) i = Some ch"
    and "file_GetChannel env i p = Inl e \<Longrightarrow> errors_Is e (ce_ErrChannelNotFound env) \<Longrightarrow> provider_view (FileProvider p) i = None"
  using assms by (cases rule: load_cases; auto simp: file_GetChannel_def keyed_find split: option.splits)+

lemma file_source_calm:
  assumes "provider_calm env (FileProvider p)"
  shows "provider_view (FileProvider p) i = Some ch \<Longrightarrow> file_GetChannel env i p = Inr ch"
    and "provider_view (FileProvider p) i = None \<Longrightarrow> \<exists>e. file_GetChannel env i p = Inl e \<and> errors_Is e (ce_ErrChannelNotFound env)"
    and "\<exists>cs. file_ListChannels env p = Inr cs"
  using assms by (auto simp: file_GetChannel_def file_ListChannels_def load_calm keyed_find)

lemma file_source_list:
  assumes "provider_inv env (FileProvider p)" "file_ListChannels env p = Inr cs"
  shows "distinct (map ch_ID cs) \<and> keyed ch_ID cs = provider_view (FileProvider p)"
  using assms(1) by (cases rule: load_cases) (use assms(2) in \<open>auto simp: file_ListChannels_def\<close>)

lemma file_source_save:
  assumes "provider_inv env (FileProvider p)" "file_SaveChannel env ch p = (r, p')"
  shows "provider_inv env (FileProvider p')"
    and "r = None \<Longrightarrow> provider_view (FileProvider p') = (provider_view (FileProvider p))(ch_ID ch \<mapsto> ch)"
    and "provider_calm env (FileProvider p) \<Longrightarrow> r = None \<and> provider_calm env (FileProvider p')"
proof -
  have *: "provider_inv env (FileProvider p')
    \<and> (r = None \<longrightarrow> provider_view (FileProvider p') = (provider_view (FileProvider p))(ch_ID ch \<mapsto> ch))
    \<and> (provider_calm env (FileProvider p) \<longrightarrow> r = None \<and> provider_calm env (FileProvider p'))"
    using assms(1)
  proof (cases rule: load_cases)
    case (list cs)
    have d: "distinct (map ch_ID (upsert_by ch_ID ch cs))" using list(3) by (rule distinct_upsert_by)
    have eq: "save env (upsert_by ch_ID ch cs) p = (r, p')" using assms(2) list(1) by (simp add: file_SaveChannel_def)
    from assms(1) d show ?thesis
    proof (cases rule: save_cases)
      case ok
      then show ?thesis using eq list(2) by (auto simp: keyed_upsert_by)
    next
      case (err e p'')
      then show ?thesis using eq by auto
    qed
  next
    case (err e)
    then show ?thesis using assms by (auto simp: file_SaveChannel_def load_calm)
  qed
  show "provider_inv env (FileProvider p')" using * by blast
  show "r = None \<Longrightarrow> provider_view (FileProvider p') = (provider_view (FileProvider p))(ch_ID ch \<mapsto> ch)" using * by blast
  show "provider_calm env (FileProvider p) \<Longrightarrow> r = None \<and> provider_calm env (FileProvider p')" using * by blast
qed

lemma file_source_delete:
  assumes "provider_inv env (FileProvider p)" "file_DeleteChannel env i p = (r, p')"
  shows "provider_inv env (FileProvider p')"
    and "r = None \<Longrightarrow> provider_view (FileProvider p) i \<noteq> None
      \<and> provider_view (FileProvider p') = (provider_view (FileProvider p))(i := None)"
    and "r = Some e \<Longrightarrow> errors_Is e (ce_ErrChannelNotFound env) \<Longrightarrow> provider_view (FileProvider p) i = None \<and> p' = p"
    and "provider_calm env (FileProvider p) \<Longrightarrow> provider_view (FileProvider p) i \<noteq> None \<Longrightarrow>
      r = None \<and> provider_calm env (FileProvider p')"
    and "provider_calm env (FileProvider p) \<Longrightarrow> provider_view (FileProvider p) i = None \<Longrightarrow>
      p' = p \<and> (\<exists>e. r = Some e \<and> errors_Is e (ce_ErrChannelNotFound env))"
proof -
  let ?v = "provider_view (FileProvider p)" and ?nf = "ce_ErrChannelNotFound env"
  have *: "provider_inv env (FileProvider p')
    \<and> (r = None \<longrightarrow> ?v i \<noteq> None \<and> provider_view (FileProvider p') = ?v(i := None))
    \<and> (\<forall>e. r = Some e \<and> errors_Is e ?nf \<longrightarrow> ?v i = None \<and> p' = p)
    \<and> (provider_calm env (FileProvider p) \<and> ?v i \<noteq> None \<longrightarrow> r = None \<and> provider_calm env (FileProvider p'))
    \<and> (provider_calm env (FileProvider p) \<and> ?v i = None \<longrightarrow> p' = p \<and> (\<exists>e. r = Some e \<and> errors_Is e ?nf))"
    using assms(1)
  proof (cases rule: load_cases)
    case (list cs)
    show ?thesis
    proof (cases "remove_by ch_ID i cs")
      case None
      then have "r = Some (not_found env i)" "p' = p" using assms(2) list(1) by (simp_all add: file_DeleteChannel_def)
      moreover have "?v i = None" using None list(2) by (simp add: remove_by_None keyed_None)
      ultimately show ?thesis using assms(1) by simp
    next
      case (Some cs')
      note rm = remove_by_Some [OF Some list(3)]
      then have v: "?v i \<noteq> None" using list(2) by (simp add: keyed_None)
      have eq: "save env cs' p = (r, p')" using assms(2) list(1) Some by (simp add: file_DeleteChannel_def)
      from assms(1) have "distinct (map ch_ID cs')" using rm by blast
      with assms(1) show ?thesis
      proof (cases rule: save_cases)
        case ok
        then show ?thesis using eq list(2) rm v by auto
      next
        case (err e p'')
        then show ?thesis using eq v by auto
      qed
    qed
  next
    case (err e)
    then show ?thesis using assms by (auto simp: file_DeleteChannel_def load_calm)
  qed
  show "provider_inv env (FileProvider p')" using * by blast
  show "r = None \<Longrightarrow> ?v i \<noteq> None \<and> provider_view (FileProvider p') = ?v(i := None)" using * by blast
  show "r = Some e \<Longrightarrow> errors_Is e ?nf \<Longrightarrow> ?v i = None \<and> p' = p" using * by blast
  show "provider_calm env (FileProvider p) \<Longrightarrow> ?v i \<noteq> None \<Longrightarrow> r = None \<and> provider_calm env (FileProvider p')"
    using * by blast
  show "provider_calm env (FileProvider p) \<Longrightarrow> ?v i = None \<Longrightarrow> p' = p \<and> (\<exists>e. r = Some e \<and> errors_Is e ?nf)"
    using * by blast
qed

text \<open>The collection.\<close>

lemma channelFromMongo_ID [simp]: "ch_ID (channelFromMongo d) = mc_ID d"
  by (simp add: channelFromMongo_def)

lemma channelToMongo_ID [simp]: "mc_ID (channelToMongo ch) = ch_ID ch"
  by (simp add: channelToMongo_def)

lemma channelFromMongo_To [simp]: "channelFromMongo (channelToMongo ch) = ch"
  by (cases ch) (simp add: channelFromMongo_def channelToMongo_def)

lemma mongo_source_get:
  assumes "provider_inv env (MongoProvider docs)"
  shows "mongo_GetChannel env i docs = Inr ch \<Longrightarrow> provider_view (MongoProvider docs) i = Some ch"
    and "mongo_GetChannel env i docs = Inl e \<Longrightarrow> errors_Is e (ce_ErrChannelNotFound env) \<Longrightarrow> provider_view (MongoProvider docs) i = None"
proof -
  have c: "chan_ok env" using assms by simp
  show "mongo_GetChannel env i docs = Inr ch \<Longrightarrow> provider_view (MongoProvider docs) i = Some ch"
    by (auto simp: mongo_GetChannel_def keyed_find split: option.splits if_splits)
  assume e: "mongo_GetChannel env i docs = Inl e" "errors_Is e (ce_ErrChannelNotFound env)"
  show "provider_view (MongoProvider docs) i = None"
  proof (cases "ce_fail env (FindOne i)")
    case (Some e')
    note cl = fail_clean [OF c Some]
    then have "e = WrapError (''channel mongo: get '' @ quoted i @ '': '') e' []"
      using e(1) Some by (simp add: mongo_GetChannel_def clean_def)
    then show ?thesis using e(2) wrap_clean [OF c cl] by blast
  next
    case None
    then show ?thesis using e(1) by (auto simp: mongo_GetChannel_def keyed_find split: option.splits)
  qed
qed

lemma mongo_source_calm:
  assumes "provider_calm env (MongoProvider docs)"
  shows "provider_view (MongoProvider docs) i = Some ch \<Longrightarrow> mongo_GetChannel env i docs = Inr ch"
    and "provider_view (MongoProvider docs) i = None \<Longrightarrow> \<exists>e. mongo_GetChannel env i docs = Inl e \<and> errors_Is e (ce_ErrChannelNotFound env)"
    and "\<exists>cs. mongo_ListChannels env docs = Inr cs"
  using assms by (auto simp: mongo_GetChannel_def mongo_ListChannels_def no_failures_def keyed_find)

lemma mongo_source_list:
  assumes "provider_inv env (MongoProvider docs)" "mongo_ListChannels env docs = Inr cs"
  shows "distinct (map ch_ID cs) \<and> keyed ch_ID cs = provider_view (MongoProvider docs)"
proof -
  have cs: "cs = map channelFromMongo (sort_key mc_ID docs)" and d: "distinct (map mc_ID docs)"
    using assms by (auto simp: mongo_ListChannels_def split: option.splits)
  have "keyed ch_ID cs i = map_option channelFromMongo (keyed mc_ID docs i)" for i
    using keyed_map [of "sort_key mc_ID docs" ch_ID channelFromMongo mc_ID i] by (simp add: cs keyed_sort_key [OF d])
  moreover have "map ch_ID cs = map mc_ID (sort_key mc_ID docs)" by (simp add: cs comp_def)
  ultimately show ?thesis using distinct_sort_key [OF d] by (simp add: fun_eq_iff)
qed

lemma map_option_fun_upd: "(\<lambda>i. map_option f ((m(k := v)) i)) = (\<lambda>i. map_option f (m i))(k := map_option f v)"
  by (simp add: fun_eq_iff)

lemma mongo_source_save:
  assumes "provider_inv env (MongoProvider docs)" "mongo_SaveChannel env ch docs = (r, docs')"
  shows "provider_inv env (MongoProvider docs')"
    and "r = None \<Longrightarrow> provider_view (MongoProvider docs') = (provider_view (MongoProvider docs))(ch_ID ch \<mapsto> ch)"
    and "provider_calm env (MongoProvider docs) \<Longrightarrow> r = None \<and> provider_calm env (MongoProvider docs')"
  using assms
  by (auto simp: mongo_SaveChannel_def no_failures_def keyed_upsert_by map_option_fun_upd distinct_upsert_by
      split: option.splits)

lemma mongo_source_delete:
  assumes "provider_inv env (MongoProvider docs)" "mongo_DeleteChannel env i docs = (r, docs')"
  shows "provider_inv env (MongoProvider docs')"
    and "r = None \<Longrightarrow> provider_view (MongoProvider docs) i \<noteq> None
      \<and> provider_view (MongoProvider docs') = (provider_view (MongoProvider docs))(i := None)"
    and "r = Some e \<Longrightarrow> errors_Is e (ce_ErrChannelNotFound env) \<Longrightarrow> provider_view (MongoProvider docs) i = None \<and> docs' = docs"
    and "provider_calm env (MongoProvider docs) \<Longrightarrow> provider_view (MongoProvider docs) i \<noteq> None \<Longrightarrow>
      r = None \<and> provider_calm env (MongoProvider docs')"
    and "provider_calm env (MongoProvider docs) \<Longrightarrow> provider_view (MongoProvider docs) i = None \<Longrightarrow>
      docs' = docs \<and> (\<exists>e. r = Some e \<and> errors_Is e (ce_ErrChannelNotFound env))"
proof -
  have c: "chan_ok env" and d: "distinct (map mc_ID docs)" using assms(1) by simp_all
  have some: "keyed mc_ID docs i \<noteq> None \<and> keyed mc_ID ds = (keyed mc_ID docs)(i := None) \<and> distinct (map mc_ID ds)"
    if "remove_by mc_ID i docs = Some ds" for ds
    using remove_by_Some [OF that d] by (simp add: keyed_None)
  have none: "remove_by mc_ID i docs = None \<longleftrightarrow> keyed mc_ID docs i = None"
    by (simp add: remove_by_None keyed_None)
  show "provider_inv env (MongoProvider docs')"
    using assms c some by (auto simp: mongo_DeleteChannel_def split: option.splits)
  show "r = None \<Longrightarrow> provider_view (MongoProvider docs) i \<noteq> None
      \<and> provider_view (MongoProvider docs') = (provider_view (MongoProvider docs))(i := None)"
    using assms(2) some by (auto simp: mongo_DeleteChannel_def map_option_fun_upd split: option.splits)
  show "provider_view (MongoProvider docs) i = None \<and> docs' = docs"
    if "r = Some e" "errors_Is e (ce_ErrChannelNotFound env)"
  proof (cases "ce_fail env (DeleteOne i)")
    case (Some e')
    then show ?thesis using assms(2) that wrap_clean [OF c fail_clean [OF c Some]]
      by (auto simp: mongo_DeleteChannel_def simp del: errors_Is.simps)
  next
    case None
    then show ?thesis using assms(2) that none by (auto simp: mongo_DeleteChannel_def split: option.splits)
  qed
  show "provider_calm env (MongoProvider docs) \<Longrightarrow> provider_view (MongoProvider docs) i \<noteq> None \<Longrightarrow>
      r = None \<and> provider_calm env (MongoProvider docs')"
    using assms(2) none by (auto simp: mongo_DeleteChannel_def no_failures_def split: option.splits)
  show "provider_calm env (MongoProvider docs) \<Longrightarrow> provider_view (MongoProvider docs) i = None \<Longrightarrow>
      docs' = docs \<and> (\<exists>e. r = Some e \<and> errors_Is e (ce_ErrChannelNotFound env))"
    using assms(2) none by (auto simp: mongo_DeleteChannel_def no_failures_def split: option.splits)
qed

text \<open>The table.\<close>

lemma scanChannel_ID: "scanChannel (Inr r) = Inr ch \<Longrightarrow> ch_ID ch = cr_id r"
  by (auto simp: scanChannel_def Let_def split: extra_column.splits sum.splits)

lemma scanChannel_row_of [simp]: "scanChannel (Inr (channel_row_of ch)) = Inr ch"
  by (cases ch) (simp add: scanChannel_def channel_row_of_def)

lemma channel_row_of_id [simp]: "cr_id (channel_row_of ch) = ch_ID ch"
  by (simp add: channel_row_of_def)

lemma scanChannels_all:
  "\<forall>r \<in> set rows. \<exists>ch. scanChannel (Inr r) = Inr ch \<Longrightarrow> scanChannels rows = Inr (map (projr \<circ> scanChannel \<circ> Inr) rows)"
  by (induction rows) auto

lemma mysql_row:
  assumes "provider_inv env (MySQLProvider rows)" "find (\<lambda>r. cr_id r = i) rows = Some r"
  shows "\<exists>ch. scanChannel (Inr r) = Inr ch"
  using assms by (auto simp: find_Some_iff)

lemma mysql_source_get:
  assumes "provider_inv env (MySQLProvider rows)"
  shows "mysql_GetChannel env i rows = Inr ch \<Longrightarrow> provider_view (MySQLProvider rows) i = Some ch"
    and "mysql_GetChannel env i rows = Inl e \<Longrightarrow> errors_Is e (ce_ErrChannelNotFound env) \<Longrightarrow> provider_view (MySQLProvider rows) i = None"
proof -
  have c: "chan_ok env" using assms by simp
  have inl: "scanChannel (Inl x) = Inl x" for x by (simp add: scanChannel_def)
  show "mysql_GetChannel env i rows = Inr ch \<Longrightarrow> provider_view (MySQLProvider rows) i = Some ch"
    by (auto simp: mysql_GetChannel_def keyed_find inl Let_def split: option.splits sum.splits if_splits)
  assume e: "mysql_GetChannel env i rows = Inl e" "errors_Is e (ce_ErrChannelNotFound env)"
  show "provider_view (MySQLProvider rows) i = None"
  proof (cases "ce_fail env (QueryRow i)")
    case (Some e')
    note cl = fail_clean [OF c Some]
    then have "e = WrapError (''channel mysql: get '' @ quoted i @ '': '') e' []"
      using e(1) Some by (simp add: mysql_GetChannel_def inl clean_def)
    then show ?thesis using e(2) wrap_clean [OF c cl] by blast
  next
    case None
    show ?thesis
    proof (cases "find (\<lambda>r. cr_id r = i) rows")
      case (Some r)
      then show ?thesis using e(1) None mysql_row [OF assms Some] by (auto simp: mysql_GetChannel_def)
    qed (simp add: keyed_find)
  qed
qed

lemma mysql_source_calm:
  assumes "provider_inv env (MySQLProvider rows)" "provider_calm env (MySQLProvider rows)"
  shows "provider_view (MySQLProvider rows) i = Some ch \<Longrightarrow> mysql_GetChannel env i rows = Inr ch"
    and "provider_view (MySQLProvider rows) i = None \<Longrightarrow> \<exists>e. mysql_GetChannel env i rows = Inl e \<and> errors_Is e (ce_ErrChannelNotFound env)"
    and "\<exists>cs. mysql_ListChannels env rows = Inr cs"
proof -
  have n: "ce_fail env c = None" for c using assms(2) by (simp add: no_failures_def)
  have inl: "scanChannel (Inl x) = Inl x" for x by (simp add: scanChannel_def)
  show "mysql_GetChannel env i rows = Inr ch" if v: "provider_view (MySQLProvider rows) i = Some ch"
  proof -
    obtain r where r: "find (\<lambda>r. cr_id r = i) rows = Some r" "ch = projr (scanChannel (Inr r))"
      using v by (auto simp: keyed_find)
    then show ?thesis using mysql_row [OF assms(1) r(1)] by (auto simp: mysql_GetChannel_def n)
  qed
  show "provider_view (MySQLProvider rows) i = None \<Longrightarrow> \<exists>e. mysql_GetChannel env i rows = Inl e \<and> errors_Is e (ce_ErrChannelNotFound env)"
    by (auto simp: mysql_GetChannel_def n keyed_find inl)
  have "scanChannels (sort_key cr_id rows) = Inr (map (projr \<circ> scanChannel \<circ> Inr) (sort_key cr_id rows))"
    using assms(1) by (intro scanChannels_all) simp
  then show "\<exists>cs. mysql_ListChannels env rows = Inr cs" by (simp add: mysql_ListChannels_def n)
qed

lemma mysql_source_list:
  assumes "provider_inv env (MySQLProvider rows)" "mysql_ListChannels env rows = Inr cs"
  shows "distinct (map ch_ID cs) \<and> keyed ch_ID cs = provider_view (MySQLProvider rows)"
proof -
  let ?f = "projr \<circ> scanChannel \<circ> Inr"
  have d: "distinct (map cr_id rows)" and all: "\<forall>r \<in> set (sort_key cr_id rows). \<exists>ch. scanChannel (Inr r) = Inr ch"
    using assms(1) by simp_all
  have cs: "cs = map ?f (sort_key cr_id rows)"
    using assms(2) scanChannels_all [OF all] by (auto simp: mysql_ListChannels_def split: option.splits)
  have ids: "ch_ID (?f r) = cr_id r" if "r \<in> set (sort_key cr_id rows)" for r
    using all that scanChannel_ID by fastforce
  have "keyed ch_ID cs i = map_option ?f (keyed cr_id rows i)" for i
    using keyed_map [of "sort_key cr_id rows" ch_ID ?f cr_id i, OF ids] by (simp add: cs keyed_sort_key [OF d])
  moreover have "map ch_ID cs = map cr_id (sort_key cr_id rows)" unfolding cs using ids by (simp add: comp_def)
  ultimately show ?thesis using distinct_sort_key [OF d] by (simp add: fun_eq_iff)
qed

lemma mysql_source_save:
  assumes "provider_inv env (MySQLProvider rows)" "mysql_SaveChannel env ch rows = (r, rows')"
  shows "provider_inv env (MySQLProvider rows')"
    and "r = None \<Longrightarrow> provider_view (MySQLProvider rows') = (provider_view (MySQLProvider rows))(ch_ID ch \<mapsto> ch)"
    and "provider_calm env (MySQLProvider rows) \<Longrightarrow> r = None \<and> provider_calm env (MySQLProvider rows')"
proof -
  have "\<forall>x \<in> set (upsert_by cr_id (channel_row_of ch) rows). \<exists>ch. scanChannel (Inr x) = Inr ch"
    using assms(1) set_upsert_by [of cr_id "channel_row_of ch" rows] by auto
  then show "provider_inv env (MySQLProvider rows')"
    using assms by (auto simp: mysql_SaveChannel_def distinct_upsert_by split: option.splits)
  show "r = None \<Longrightarrow> provider_view (MySQLProvider rows') = (provider_view (MySQLProvider rows))(ch_ID ch \<mapsto> ch)"
    using assms(2) by (auto simp: mysql_SaveChannel_def keyed_upsert_by map_option_fun_upd split: option.splits)
  show "provider_calm env (MySQLProvider rows) \<Longrightarrow> r = None \<and> provider_calm env (MySQLProvider rows')"
    using assms(2) by (auto simp: mysql_SaveChannel_def no_failures_def)
qed

lemma mysql_source_delete:
  assumes "provider_inv env (MySQLProvider rows)" "mysql_DeleteChannel env i rows = (r, rows')"
  shows "provider_inv env (MySQLProvider rows')"
    and "r = None \<Longrightarrow> provider_view (MySQLProvider rows) i \<noteq> None
      \<and> provider_view (MySQLProvider rows') = (provider_view (MySQLProvider rows))(i := None)"
    and "r = Some e \<Longrightarrow> errors_Is e (ce_ErrChannelNotFound env) \<Longrightarrow> provider_view (MySQLProvider rows) i = None \<and> rows' = rows"
    and "provider_calm env (MySQLProvider rows) \<Longrightarrow> provider_view (MySQLProvider rows) i \<noteq> None \<Longrightarrow>
      r = None \<and> provider_calm env (MySQLProvider rows')"
    and "provider_calm env (MySQLProvider rows) \<Longrightarrow> provider_view (MySQLProvider rows) i = None \<Longrightarrow>
      rows' = rows \<and> (\<exists>e. r = Some e \<and> errors_Is e (ce_ErrChannelNotFound env))"
proof -
  have c: "chan_ok env" and d: "distinct (map cr_id rows)" using assms(1) by simp_all
  have some: "keyed cr_id rows i \<noteq> None \<and> keyed cr_id rs = (keyed cr_id rows)(i := None) \<and> distinct (map cr_id rs)
      \<and> set rs \<subseteq> set rows" if "remove_by cr_id i rows = Some rs" for rs
    using remove_by_Some [OF that d] by (simp add: keyed_None)
  have none: "remove_by cr_id i rows = None \<longleftrightarrow> keyed cr_id rows i = None"
    by (simp add: remove_by_None keyed_None)
  show "provider_inv env (MySQLProvider rows')"
    using assms c some by (auto simp: mysql_DeleteChannel_def split: option.splits)
  show "r = None \<Longrightarrow> provider_view (MySQLProvider rows) i \<noteq> None
      \<and> provider_view (MySQLProvider rows') = (provider_view (MySQLProvider rows))(i := None)"
    using assms(2) some by (auto simp: mysql_DeleteChannel_def map_option_fun_upd split: option.splits)
  show "provider_view (MySQLProvider rows) i = None \<and> rows' = rows"
    if "r = Some e" "errors_Is e (ce_ErrChannelNotFound env)"
  proof (cases "ce_fail env (ExecDelete i)")
    case (Some e')
    then show ?thesis using assms(2) that wrap_clean [OF c fail_clean [OF c Some]]
      by (auto simp: mysql_DeleteChannel_def simp del: errors_Is.simps)
  next
    case None
    then show ?thesis using assms(2) that none by (auto simp: mysql_DeleteChannel_def split: option.splits)
  qed
  show "provider_calm env (MySQLProvider rows) \<Longrightarrow> provider_view (MySQLProvider rows) i \<noteq> None \<Longrightarrow>
      r = None \<and> provider_calm env (MySQLProvider rows')"
    using assms(2) none by (auto simp: mysql_DeleteChannel_def no_failures_def split: option.splits)
  show "provider_calm env (MySQLProvider rows) \<Longrightarrow> provider_view (MySQLProvider rows) i = None \<Longrightarrow>
      rows' = rows \<and> (\<exists>e. r = Some e \<and> errors_Is e (ce_ErrChannelNotFound env))"
    using assms(2) none by (auto simp: mysql_DeleteChannel_def no_failures_def split: option.splits)
qed

text \<open>The interface value.\<close>

lemma map_prod_id_eq: "map_prod id f x = (r, y) \<Longrightarrow> \<exists>z. x = (r, z) \<and> y = f z"
  by (cases x) auto

lemma provider_ops_simps [simp]:
  "cw_GetChannel (provider_ops env) = GetChannel env" "cw_ListChannels (provider_ops env) = ListChannels env"
  "cw_SaveChannel (provider_ops env) = SaveChannel env" "cw_DeleteChannel (provider_ops env) = DeleteChannel env"
  by (simp_all add: provider_ops_def)

lemma provider_delete:
  assumes "provider_inv env p" "DeleteChannel env i p = (r, p')"
  shows "provider_inv env p'"
    and "r = None \<Longrightarrow> provider_view p i \<noteq> None \<and> provider_view p' = (provider_view p)(i := None)"
    and "r = Some e \<Longrightarrow> errors_Is e (ce_ErrChannelNotFound env) \<Longrightarrow> provider_view p i = None \<and> p' = p"
    and "provider_calm env p \<Longrightarrow> provider_view p i \<noteq> None \<Longrightarrow> r = None \<and> provider_calm env p'"
    and "provider_calm env p \<Longrightarrow> provider_view p i = None \<Longrightarrow>
      p' = p \<and> (\<exists>e. r = Some e \<and> errors_Is e (ce_ErrChannelNotFound env))"
proof -
  have *: "provider_inv env p' \<and> (r = None \<longrightarrow> provider_view p i \<noteq> None \<and> provider_view p' = (provider_view p)(i := None))
    \<and> (\<forall>e. r = Some e \<longrightarrow> errors_Is e (ce_ErrChannelNotFound env) \<longrightarrow> provider_view p i = None \<and> p' = p)
    \<and> (provider_calm env p \<longrightarrow> provider_view p i \<noteq> None \<longrightarrow> r = None \<and> provider_calm env p')
    \<and> (provider_calm env p \<longrightarrow> provider_view p i = None \<longrightarrow> p' = p \<and> (\<exists>e. r = Some e \<and> errors_Is e (ce_ErrChannelNotFound env)))"
  proof (cases p)
    case (FileProvider f)
    obtain f' where f: "file_DeleteChannel env i f = (r, f')" "p' = FileProvider f'"
      using map_prod_id_eq [OF assms(2) [unfolded FileProvider DeleteChannel.simps]] by blast
    show ?thesis unfolding FileProvider f(2) using file_source_delete [OF _ f(1)] assms(1) FileProvider by metis
  next
    case (MongoProvider ds)
    obtain ds' where f: "mongo_DeleteChannel env i ds = (r, ds')" "p' = MongoProvider ds'"
      using map_prod_id_eq [OF assms(2) [unfolded MongoProvider DeleteChannel.simps]] by blast
    show ?thesis unfolding MongoProvider f(2) using mongo_source_delete [OF _ f(1)] assms(1) MongoProvider by metis
  next
    case (MySQLProvider rs)
    obtain rs' where f: "mysql_DeleteChannel env i rs = (r, rs')" "p' = MySQLProvider rs'"
      using map_prod_id_eq [OF assms(2) [unfolded MySQLProvider DeleteChannel.simps]] by blast
    show ?thesis unfolding MySQLProvider f(2) using mysql_source_delete [OF _ f(1)] assms(1) MySQLProvider by metis
  qed
  show "provider_inv env p'" using * by blast
  show "r = None \<Longrightarrow> provider_view p i \<noteq> None \<and> provider_view p' = (provider_view p)(i := None)" using * by blast
  show "r = Some e \<Longrightarrow> errors_Is e (ce_ErrChannelNotFound env) \<Longrightarrow> provider_view p i = None \<and> p' = p" using * by blast
  show "provider_calm env p \<Longrightarrow> provider_view p i \<noteq> None \<Longrightarrow> r = None \<and> provider_calm env p'" using * by blast
  show "provider_calm env p \<Longrightarrow> provider_view p i = None \<Longrightarrow>
      p' = p \<and> (\<exists>e. r = Some e \<and> errors_Is e (ce_ErrChannelNotFound env))" using * by blast
qed

lemma provider_save:
  assumes "provider_inv env p" "SaveChannel env ch p = (r, p')"
  shows "provider_inv env p'"
    and "r = None \<Longrightarrow> provider_view p' = (provider_view p)(ch_ID ch \<mapsto> ch)"
    and "provider_calm env p \<Longrightarrow> r = None \<and> provider_calm env p'"
proof -
  have *: "provider_inv env p' \<and> (r = None \<longrightarrow> provider_view p' = (provider_view p)(ch_ID ch \<mapsto> ch))
    \<and> (provider_calm env p \<longrightarrow> r = None \<and> provider_calm env p')"
  proof (cases p)
    case (FileProvider f)
    obtain f' where f: "file_SaveChannel env ch f = (r, f')" "p' = FileProvider f'"
      using map_prod_id_eq [OF assms(2) [unfolded FileProvider SaveChannel.simps]] by blast
    show ?thesis unfolding FileProvider f(2) using file_source_save [OF _ f(1)] assms(1) FileProvider by metis
  next
    case (MongoProvider ds)
    obtain ds' where f: "mongo_SaveChannel env ch ds = (r, ds')" "p' = MongoProvider ds'"
      using map_prod_id_eq [OF assms(2) [unfolded MongoProvider SaveChannel.simps]] by blast
    show ?thesis unfolding MongoProvider f(2) using mongo_source_save [OF _ f(1)] assms(1) MongoProvider by metis
  next
    case (MySQLProvider rs)
    obtain rs' where f: "mysql_SaveChannel env ch rs = (r, rs')" "p' = MySQLProvider rs'"
      using map_prod_id_eq [OF assms(2) [unfolded MySQLProvider SaveChannel.simps]] by blast
    show ?thesis unfolding MySQLProvider f(2) using mysql_source_save [OF _ f(1)] assms(1) MySQLProvider by metis
  qed
  show "provider_inv env p'" using * by blast
  show "r = None \<Longrightarrow> provider_view p' = (provider_view p)(ch_ID ch \<mapsto> ch)" using * by blast
  show "provider_calm env p \<Longrightarrow> r = None \<and> provider_calm env p'" using * by blast
qed

interpretation cp: channel_writer "provider_ops env" "ce_ErrChannelNotFound env" "provider_inv env" "provider_calm env" provider_view
  for env
proof (unfold_locales, goal_cases)
  case (1 p i ch)
  then show ?case by (cases p) (simp_all only: provider_ops_simps GetChannel.simps file_source_get(1) mongo_source_get(1) mysql_source_get(1))
next
  case (2 p i e)
  then show ?case
    by (cases p) (simp_all only: provider_ops_simps GetChannel.simps file_source_get(2) mongo_source_get(2) mysql_source_get(2))
next
  case (3 p i ch)
  then show ?case
    by (cases p) (simp_all only: provider_ops_simps GetChannel.simps file_source_calm(1) mongo_source_calm(1) mysql_source_calm(1))
next
  case (4 p i)
  then show ?case
    by (cases p) (simp_all only: provider_ops_simps GetChannel.simps file_source_calm(2) mongo_source_calm(2) mysql_source_calm(2))
next
  case (5 p cs)
  then show ?case
    by (cases p) (simp_all only: provider_ops_simps ListChannels.simps file_source_list mongo_source_list mysql_source_list)
next
  case (6 p)
  then show ?case
    by (cases p) (simp_all only: provider_ops_simps ListChannels.simps file_source_calm(3) mongo_source_calm(3) mysql_source_calm(3))
next
  case (7 p ch p')
  then show ?case using provider_save(2) by simp
next
  case (8 p ch r p')
  then show ?case using provider_save(1) by simp
next
  case (9 p ch)
  obtain r p' where "SaveChannel env ch p = (r, p')" by force
  then show ?case using provider_save(3) [OF 9(1)] 9(2) by auto
next
  case (10 p i p')
  then show ?case using provider_delete(2) by simp
next
  case (11 p i r p')
  then show ?case using provider_delete(1) by simp
next
  case (12 p i e p')
  then show ?case using provider_delete(3) by simp
next
  case (13 p i)
  obtain r p' where "DeleteChannel env i p = (r, p')" by force
  then show ?case using provider_delete(4) [OF 13(1)] 13(2,3) by auto
next
  case (14 p i)
  obtain r p' where "DeleteChannel env i p = (r, p')" by force
  then show ?case using provider_delete(5) [OF 14(1)] 14(2,3) by auto
qed

subsection \<open>What callers get\<close>

text \<open>
  C25: in every one of the three stores, a channel that is saved can be read back as it was, the
  other channels are unaffected, and once it is deleted reading it reports that it is not found.
\<close>

theorem channel_store_roundtrip:
  assumes "provider_inv env p" "provider_calm env p"
  shows "\<exists>p1 p2 e. SaveChannel env ch p = (None, p1) \<and> GetChannel env (ch_ID ch) p1 = Inr ch
    \<and> (\<forall>i c. i \<noteq> ch_ID ch \<and> GetChannel env i p = Inr c \<longrightarrow> GetChannel env i p1 = Inr c \<and> GetChannel env i p2 = Inr c)
    \<and> DeleteChannel env (ch_ID ch) p1 = (None, p2) \<and> GetChannel env (ch_ID ch) p2 = Inl e
    \<and> errors_Is e (ce_ErrChannelNotFound env)"
proof -
  note laws = cp.save_calm cp.save_ok cp.save_inv cp.get_calm cp.get_found cp.delete_calm cp.delete_ok cp.delete_inv
    cp.delete_then_get
  note laws = laws [of env, unfolded provider_ops_simps]
  obtain p1 where p1: "SaveChannel env ch p = (None, p1)" "provider_calm env p1" using laws(1) [OF assms] by blast
  have v1: "provider_view p1 = (provider_view p)(ch_ID ch \<mapsto> ch)" "provider_inv env p1"
    using laws(2) [OF assms(1) p1(1)] laws(3) [OF assms(1) p1(1)] by simp_all
  have get1: "GetChannel env (ch_ID ch) p1 = Inr ch" using laws(4) [OF v1(2) p1(2)] v1(1) by simp
  obtain p2 where p2: "DeleteChannel env (ch_ID ch) p1 = (None, p2)" "provider_calm env p2"
    using laws(6) [OF v1(2) p1(2), of "ch_ID ch"] v1(1) by auto
  have v2: "provider_view p2 = (provider_view p1)(ch_ID ch := None)" "provider_inv env p2"
    using laws(7) [OF v1(2) p2(1)] laws(8) [OF v1(2) p2(1)] by simp_all
  obtain e where e: "GetChannel env (ch_ID ch) p2 = Inl e" "errors_Is e (ce_ErrChannelNotFound env)"
    using laws(9) [OF v1(2) p2] by blast
  have "GetChannel env i p1 = Inr c \<and> GetChannel env i p2 = Inr c" if "i \<noteq> ch_ID ch" "GetChannel env i p = Inr c" for i c
    using laws(5) [OF assms(1) that(2)] laws(4) [OF v1(2) p1(2)] laws(4) [OF v2(2) p2(2)] v1(1) v2(1) that(1) by simp
  then show ?thesis using p1(1) get1 p2(1) e by blast
qed

definition chan_env0 :: chan_env where
  "chan_env0 = \<lparr>ce_ErrChannelNotFound = ErrorString ''nf'', ce_ErrNoDocuments = ErrorString ''nd'',
     ce_fail = (\<lambda>_. None), ce_WriteFile = None\<rparr>"

definition camera0 :: Channel where
  "camera0 = \<lparr>ch_ID = ''a'', ch_Name = ''Door'', ch_StreamURL = ''rtsp://a'', ch_Username = [], ch_Password = [],
     ch_SiteID = 1, ch_Extra = Map.empty\<rparr>"

lemma chan_env0_ok: "chan_ok chan_env0" "no_failures chan_env0"
  by (simp_all add: chan_ok_def no_failures_def chan_env0_def)

lemma channel_store_roundtrip_witness:
  "\<exists>p. SaveChannel chan_env0 camera0 (MySQLProvider []) = (None, p) \<and> GetChannel chan_env0 ''a'' p = Inr camera0"
  using channel_store_roundtrip [of chan_env0 "MySQLProvider []" camera0]
  by (auto simp: chan_env0_ok camera0_def)

text \<open>
  C38: saving a channel into a file that does not exist yet always fails and creates nothing: the
  error of the missing file is wrapped, and the test that is meant to start an empty list does not
  look through the wrapping.
\<close>

theorem first_save_fails:
  assumes "cf_content p = NoFile"
  shows "\<exists>e. SaveChannel env ch (FileProvider p) = (Some e, FileProvider p)"
proof -
  obtain e where "load env p = Inl e" "\<not> os_IsNotExist e"
    using assms by (cases "ce_fail env ReadFile") (simp_all add: load_def)
  then show ?thesis by (simp add: file_SaveChannel_def)
qed

lemma first_save_fails_witness:
  "\<exists>e. SaveChannel chan_env0 camera0 (FileProvider \<lparr>cf_path = ''c.json'', cf_content = NoFile\<rparr>) =
     (Some e, FileProvider \<lparr>cf_path = ''c.json'', cf_content = NoFile\<rparr>)"
  using first_save_fails [of "\<lparr>cf_path = ''c.json'', cf_content = NoFile\<rparr>" chan_env0 camera0] by simp

end
