(* ===== verification/Camera_Api.thy ===== *)
theory Camera_Api
  imports Http_Api Channels
begin

text \<open>
  The camera configuration endpoints of \<^verbatim>\<open>pkg/edgeview/http_cameras.go\<close>: list, create or update, read
  and delete, and the CSV export and import.

  The handlers work over any channel store with the operations of \<open>ChannelWriter\<close>; their client lemmas
  are proved in the locale \<open>channel_writer\<close>. The state is the store and the view service with its list
  of cameras. A CSV file is the sequence of what \<^verbatim>\<open>csv.Reader.Read\<close> returns up to the end of the file:
  records and parse errors; a record whose length differs from the header's is an error of the reader.
\<close>

subsection \<open>The endpoints\<close>

record ('p, 'ix) camera_api =
  ap_store :: 'p
  ap_svc :: "'ix Service"

record channelResponse =
  rsp_Channel :: Channel
  rsp_StreamURL :: string
  rsp_WSURL :: string

definition newChannelResponse :: "Channel \<Rightarrow> channelResponse" where
  "newChannelResponse ch =
    \<lparr>rsp_Channel = ch, rsp_StreamURL = ''/api/cameras/'' @ ch_ID ch @ ''/stream'',
     rsp_WSURL = ''/api/cameras/ws/stream?cameraId='' @ ch_ID ch\<rparr>"

definition active_camera :: "Channel \<Rightarrow> CameraInfo" where
  "active_camera ch =
    \<lparr>cam_CameraID = ch_ID ch, cam_Name = ch_Name ch, cam_Codec = [], cam_Resolution = [], cam_FPS = 0,
     cam_Recording = False, cam_Analytics = False, cam_State = ''active''\<rparr>"

definition listCameraConfigs ::
  "'p ChannelWriter \<Rightarrow> paginatedInput \<Rightarrow> ('p, 'ix) camera_api \<Rightarrow> Channel paged option reply" where
  "listCameraConfigs cw input s =
    (case cw_ListChannels cw (ap_store s) of
       Inl e \<Rightarrow> Inl (500, ''failed to list cameras'')
     | Inr channels \<Rightarrow> Inr (page input channels))"

definition upsertCamera ::
  "'p ChannelWriter \<Rightarrow> string \<Rightarrow> Channel \<Rightarrow> ('p, 'ix) camera_api \<Rightarrow> channelResponse reply \<times> ('p, 'ix) camera_api" where
  "upsertCamera cw i body s =
    (let ch = body\<lparr>ch_ID := i\<rparr> in
     if ch_StreamURL ch = [] then (Inl (400, ''stream_url is required''), s)
     else case cw_SaveChannel cw ch (ap_store s) of
       (Some e, p) \<Rightarrow> (Inl (500, []), s\<lparr>ap_store := p\<rparr>)
     | (None, p) \<Rightarrow>
       (Inr (newChannelResponse ch),
        s\<lparr>ap_store := p, ap_svc := RegisterCamera (active_camera ch) (ap_svc s)\<rparr>))"

definition getCameraConfig ::
  "'p ChannelWriter \<Rightarrow> go_error \<Rightarrow> string \<Rightarrow> ('p, 'ix) camera_api \<Rightarrow> channelResponse reply" where
  "getCameraConfig cw ErrChannelNotFound i s =
    (case cw_GetChannel cw i (ap_store s) of
       Inl e \<Rightarrow> if errors_Is e ErrChannelNotFound then Inl (404, ''camera not found'') else Inl (500, [])
     | Inr ch \<Rightarrow> Inr (newChannelResponse ch))"

definition deleteCamera ::
  "'p ChannelWriter \<Rightarrow> go_error \<Rightarrow> string \<Rightarrow> ('p, 'ix) camera_api \<Rightarrow> unit reply \<times> ('p, 'ix) camera_api" where
  "deleteCamera cw ErrChannelNotFound i s =
    (case cw_DeleteChannel cw i (ap_store s) of
       (Some e, p) \<Rightarrow>
         (if errors_Is e ErrChannelNotFound then Inl (404, ''camera not found'')
          else if contains (error_string e) ''not found'' then Inl (404, ''camera not found'')
          else Inl (500, []), s\<lparr>ap_store := p\<rparr>)
     | (None, p) \<Rightarrow> (Inr (), s\<lparr>ap_store := p, ap_svc := UnregisterCamera i (ap_svc s)\<rparr>))"

subsection \<open>CSV\<close>

definition csvHeader :: "string list" where
  "csvHeader = [''id'', ''name'', ''ip_address'', ''manufacturer'', ''model'', ''username'', ''password'',
     ''rtsp_main'', ''rtsp_sub'']"

text \<open>A missing key of a Go map reads as the empty string.\<close>

definition extra :: "Channel \<Rightarrow> string \<Rightarrow> string" where
  "extra ch k = (case ch_Extra ch k of None \<Rightarrow> [] | Some v \<Rightarrow> v)"

definition channelToRecord :: "Channel \<Rightarrow> string list" where
  "channelToRecord ch =
    [ch_ID ch, ch_Name ch, extra ch ''ip_address'', extra ch ''manufacturer'', extra ch ''model'',
     ch_Username ch, ch_Password ch, ch_StreamURL ch, extra ch ''rtsp_sub'']"

text \<open>\<^verbatim>\<open>strings.TrimSpace\<close> on ASCII text.\<close>

definition is_space :: "char \<Rightarrow> bool" where
  "is_space c \<longleftrightarrow> c \<in> {CHR 0x09, CHR 0x0A, CHR 0x0B, CHR 0x0C, CHR 0x0D, CHR '' ''}"

definition TrimSpace :: "string \<Rightarrow> string" where
  "TrimSpace s = rev (dropWhile is_space (rev (dropWhile is_space s)))"

fun index_columns :: "int \<Rightarrow> string list \<Rightarrow> (string \<rightharpoonup> int) \<Rightarrow> (string \<rightharpoonup> int)" where
  "index_columns i [] idx = idx"
| "index_columns i (c # cols) idx =
    (let col = TrimSpace (to_lower c)
     in index_columns (i + 1) cols (if idx col \<noteq> None then idx(col \<mapsto> i) else idx))"

definition buildColumnIndex :: "string list \<Rightarrow> (string \<rightharpoonup> int)" where
  "buildColumnIndex header = index_columns 0 header (\<lambda>k. if k \<in> set csvHeader then Some (-1) else None)"

definition column :: "(string \<rightharpoonup> int) \<Rightarrow> string \<Rightarrow> int" where
  "column colIdx k = (case colIdx k of None \<Rightarrow> 0 | Some i \<Rightarrow> i)"

definition get_field :: "string list \<Rightarrow> (string \<rightharpoonup> int) \<Rightarrow> string \<Rightarrow> string" where
  "get_field rec colIdx k =
    (let i = column colIdx k
     in if i < 0 \<or> i \<ge> int (length rec) then [] else TrimSpace (rec ! nat i))"

definition recordToChannel :: "string list \<Rightarrow> (string \<rightharpoonup> int) \<Rightarrow> Channel" where
  "recordToChannel rec colIdx =
    (let get = get_field rec colIdx;
         put = (\<lambda>k m. if get k \<noteq> [] then m(k \<mapsto> get k) else m)
     in \<lparr>ch_ID = get ''id'', ch_Name = get ''name'', ch_StreamURL = get ''rtsp_main'',
         ch_Username = get ''username'', ch_Password = get ''password'', ch_SiteID = 1,
         ch_Extra = put ''rtsp_sub'' (put ''model'' (put ''manufacturer'' (put ''ip_address'' Map.empty)))\<rparr>)"

type_synonym csv_file = "string list result list"

record csv_env =
  cs_ReadAll :: "go_error option"
  cs_ErrFieldCount :: go_error

definition exportCSV :: "'p ChannelWriter \<Rightarrow> ('p, 'ix) camera_api \<Rightarrow> csv_file reply" where
  "exportCSV cw s =
    (case cw_ListChannels cw (ap_store s) of
       Inl e \<Rightarrow> writeProblem 500 (error_string e)
     | Inr channels \<Rightarrow> Inr (map Inr (csvHeader # map channelToRecord channels)))"

fun saveCSVRecords ::
  "csv_env \<Rightarrow> 'p ChannelWriter \<Rightarrow> nat \<Rightarrow> (string \<rightharpoonup> int) \<Rightarrow> csv_file \<Rightarrow> nat \<Rightarrow> ('p, 'ix) camera_api
     \<Rightarrow> (nat \<times> go_error option) \<times> ('p, 'ix) camera_api" where
  "saveCSVRecords env cw nfields colIdx [] imported s = ((imported, None), s)"
| "saveCSVRecords env cw nfields colIdx (item # items) imported s =
    (case (case item of
             Inl e \<Rightarrow> Inl e
           | Inr rec \<Rightarrow> if length rec \<noteq> nfields then Inl (cs_ErrFieldCount env) else Inr rec) of
       Inl e \<Rightarrow> ((imported, Some (WrapError ''csv read: '' e [])), s)
     | Inr rec \<Rightarrow>
       (let ch = recordToChannel rec colIdx in
        if ch_ID ch = [] \<or> ch_StreamURL ch = [] then saveCSVRecords env cw nfields colIdx items imported s
        else case cw_SaveChannel cw ch (ap_store s) of
          (Some e, p) \<Rightarrow>
            ((imported, Some (WrapError (''failed to save '' @ quoted (ch_ID ch) @ '': '') e [])), s\<lparr>ap_store := p\<rparr>)
        | (None, p) \<Rightarrow>
            saveCSVRecords env cw nfields colIdx items (imported + 1)
              (s\<lparr>ap_store := p, ap_svc := RegisterCamera (active_camera ch) (ap_svc s)\<rparr>)))"

definition importCSV ::
  "csv_env \<Rightarrow> 'p ChannelWriter \<Rightarrow> csv_file \<Rightarrow> ('p, 'ix) camera_api \<Rightarrow> nat reply \<times> ('p, 'ix) camera_api" where
  "importCSV env cw body s =
    (case cs_ReadAll env of
       Some e \<Rightarrow> (writeProblem 400 ''failed to read body'', s)
     | None \<Rightarrow>
       (case body of
          Inr header # items \<Rightarrow>
            (let colIdx = buildColumnIndex header in
             if column colIdx ''id'' < 0 \<or> column colIdx ''rtsp_main'' < 0
             then (writeProblem 400 (''CSV must have at least '' @ CHR 0x27 # ''id'' @ CHR 0x27 # '' and '' @ CHR 0x27 # ''rtsp_main'' @ CHR 0x27 # '' columns''), s)
             else case saveCSVRecords env cw (length header) colIdx items 0 s of
               ((imported, Some e), s) \<Rightarrow> (writeProblem 500 (error_string e), s)
             | ((imported, None), s) \<Rightarrow> (Inr imported, s))
        | _ \<Rightarrow> (writeProblem 400 ''empty or invalid CSV'', s)))"
subsection \<open>CSV round trip\<close>

definition trimmed :: "string \<Rightarrow> bool" where
  "trimmed s \<longleftrightarrow> TrimSpace s = s"

text \<open>What a channel must look like for CSV to carry it: the site is 1, the extra fields are the four known ones.\<close>

definition csv_clean :: "Channel \<Rightarrow> bool" where
  "csv_clean ch \<longleftrightarrow> ch_ID ch \<noteq> [] \<and> ch_StreamURL ch \<noteq> [] \<and> ch_SiteID ch = 1
     \<and> trimmed (ch_ID ch) \<and> trimmed (ch_Name ch) \<and> trimmed (ch_StreamURL ch) \<and> trimmed (ch_Username ch)
     \<and> trimmed (ch_Password ch) \<and> dom (ch_Extra ch) \<subseteq> {''ip_address'', ''manufacturer'', ''model'', ''rtsp_sub''}
     \<and> (\<forall>v \<in> ran (ch_Extra ch). v \<noteq> [] \<and> trimmed v)"

lemma header_columns:
  "buildColumnIndex csvHeader ''id'' = Some 0" "buildColumnIndex csvHeader ''name'' = Some 1"
  "buildColumnIndex csvHeader ''ip_address'' = Some 2" "buildColumnIndex csvHeader ''manufacturer'' = Some 3"
  "buildColumnIndex csvHeader ''model'' = Some 4" "buildColumnIndex csvHeader ''username'' = Some 5"
  "buildColumnIndex csvHeader ''password'' = Some 6" "buildColumnIndex csvHeader ''rtsp_main'' = Some 7"
  "buildColumnIndex csvHeader ''rtsp_sub'' = Some 8"
  by code_simp+

lemma get_field_record:
  fixes ch :: Channel
  defines "get \<equiv> get_field (channelToRecord ch) (buildColumnIndex csvHeader)"
  shows "get ''id'' = TrimSpace (ch_ID ch)" "get ''name'' = TrimSpace (ch_Name ch)"
    "get ''ip_address'' = TrimSpace (extra ch ''ip_address'')" "get ''manufacturer'' = TrimSpace (extra ch ''manufacturer'')"
    "get ''model'' = TrimSpace (extra ch ''model'')" "get ''username'' = TrimSpace (ch_Username ch)"
    "get ''password'' = TrimSpace (ch_Password ch)" "get ''rtsp_main'' = TrimSpace (ch_StreamURL ch)"
    "get ''rtsp_sub'' = TrimSpace (extra ch ''rtsp_sub'')"
  by (simp_all add: get_def get_field_def column_def header_columns channelToRecord_def)

lemma trimmed_Nil [simp]: "trimmed []"
  by (simp add: trimmed_def TrimSpace_def)

lemma extra_clean: "csv_clean ch \<Longrightarrow> TrimSpace (extra ch k) = extra ch k \<and> (extra ch k = [] \<longleftrightarrow> ch_Extra ch k = None)"
  by (auto simp: csv_clean_def extra_def trimmed_def ran_def TrimSpace_def split: option.split)

lemma recordToChannel_channelToRecord:
  assumes "csv_clean ch"
  shows "recordToChannel (channelToRecord ch) (buildColumnIndex csvHeader) = ch"
proof -
  let ?put = "\<lambda>k m. if extra ch k \<noteq> [] then m(k \<mapsto> extra ch k) else m"
  have put: "?put ''rtsp_sub'' (?put ''model'' (?put ''manufacturer'' (?put ''ip_address'' Map.empty))) = ch_Extra ch"
  proof
    fix k
    have e: "ch_Extra ch j = (if extra ch j \<noteq> [] then Some (extra ch j) else None)" for j
      using extra_clean [OF assms, of j] by (auto simp: extra_def split: option.splits)
    show "?put ''rtsp_sub'' (?put ''model'' (?put ''manufacturer'' (?put ''ip_address'' Map.empty))) k = ch_Extra ch k"
    proof (cases "k \<in> {''ip_address'', ''manufacturer'', ''model'', ''rtsp_sub''}")
      case True
      then show ?thesis by (elim insertE; simp add: e)
    next
      case False
      then have "ch_Extra ch k = None" using assms by (auto simp: csv_clean_def)
      with False show ?thesis by simp
    qed
  qed
  have t: "TrimSpace (extra ch k) = extra ch k" for k using extra_clean [OF assms] by blast
  have "recordToChannel (channelToRecord ch) (buildColumnIndex csvHeader) =
      \<lparr>ch_ID = ch_ID ch, ch_Name = ch_Name ch, ch_StreamURL = ch_StreamURL ch, ch_Username = ch_Username ch,
       ch_Password = ch_Password ch, ch_SiteID = ch_SiteID ch, ch_Extra = ch_Extra ch\<rparr>"
    unfolding recordToChannel_def Let_def get_field_record t put using assms by (simp add: csv_clean_def trimmed_def)
  then show ?thesis by simp
qed

lemma length_channelToRecord [simp]: "length (channelToRecord ch) = length csvHeader"
  by (simp add: channelToRecord_def csvHeader_def)

context channel_writer
begin

lemma saveCSVRecords_clean:
  assumes "inv (ap_store s)" "calm (ap_store s)" "\<forall>ch \<in> set chs. csv_clean ch"
  shows "\<exists>s'. saveCSVRecords env ops (length csvHeader) (buildColumnIndex csvHeader) (map (Inr \<circ> channelToRecord) chs) n s
      = ((n + length chs, None), s')
    \<and> inv (ap_store s') \<and> calm (ap_store s')
    \<and> view (ap_store s') = fold (\<lambda>ch m. m(ch_ID ch \<mapsto> ch)) chs (view (ap_store s))
    \<and> ap_svc s' = fold (\<lambda>ch. RegisterCamera (active_camera ch)) chs (ap_svc s)"
  using assms
proof (induction chs arbitrary: n s)
  case (Cons ch chs)
  have c: "recordToChannel (channelToRecord ch) (buildColumnIndex csvHeader) = ch" "ch_ID ch \<noteq> []" "ch_StreamURL ch \<noteq> []"
    using Cons.prems(3) recordToChannel_channelToRecord [of ch] by (auto simp: csv_clean_def)
  obtain p where p: "cw_SaveChannel ops ch (ap_store s) = (None, p)" "calm p"
    using save_calm [OF Cons.prems(1,2)] by blast
  let ?s = "s\<lparr>ap_store := p, ap_svc := RegisterCamera (active_camera ch) (ap_svc s)\<rparr>"
  have "inv (ap_store ?s)" "calm (ap_store ?s)" "\<forall>ch \<in> set chs. csv_clean ch"
    using save_inv [OF Cons.prems(1) p(1)] p(2) Cons.prems(3) by simp_all
  from Cons.IH [OF this, of "n + 1"] show ?case
    using save_ok [OF Cons.prems(1) p(1)] by (simp add: c p(1) Let_def)
qed simp

end

lemma fold_upd_keyed:
  "distinct (map ch_ID chs) \<Longrightarrow> fold (\<lambda>ch m. m(ch_ID ch \<mapsto> ch)) chs m = m ++ keyed ch_ID chs"
proof (induction chs arbitrary: m)
  case (Cons ch chs)
  then have "keyed ch_ID chs (ch_ID ch) = None" by (simp add: keyed_None)
  with Cons show ?case by (auto simp: fun_eq_iff map_add_def split: option.split)
qed simp


definition csv_source0 :: "(channel_provider, sqliteIndex) camera_api" where
  "csv_source0 = \<lparr>ap_store = MongoProvider [channelToMongo camera0], ap_svc = service0\<rparr>"

definition csv_target0 :: "(channel_provider, sqliteIndex) camera_api" where
  "csv_target0 = \<lparr>ap_store = FileProvider \<lparr>cf_path = ''c.json'', cf_content = ChannelList []\<rparr>, ap_svc = service0\<rparr>"


subsection \<open>The life of a camera\<close>

lemma map_of_RegisterCamera:
  "map_of (sv_cameras (RegisterCamera c s)) = (map_of (sv_cameras s))(cam_CameraID c \<mapsto> c)"
  by (simp add: RegisterCamera_def update_conv')

lemma map_of_UnregisterCamera:
  "map_of (sv_cameras (UnregisterCamera i s)) = (map_of (sv_cameras s))(i := None)"
  by (simp add: UnregisterCamera_def delete_conv')

context channel_writer
begin

lemma camera_life:
  assumes "inv (ap_store s)" "calm (ap_store s)" "ch_StreamURL body \<noteq> []"
  shows "\<exists>s1 s2. upsertCamera ops i body s = (Inr (newChannelResponse (body\<lparr>ch_ID := i\<rparr>)), s1)
    \<and> getCameraConfig ops nf i s1 = Inr (newChannelResponse (body\<lparr>ch_ID := i\<rparr>))
    \<and> map_of (sv_cameras (ap_svc s1)) i = Some (active_camera (body\<lparr>ch_ID := i\<rparr>))
    \<and> deleteCamera ops nf i s1 = (Inr (), s2) \<and> getCameraConfig ops nf i s2 = Inl (404, ''camera not found'')
    \<and> map_of (sv_cameras (ap_svc s2)) i = None \<and> deleteCamera ops nf i s2 = (Inl (404, ''camera not found''), s2)"
proof -
  let ?ch = "body\<lparr>ch_ID := i\<rparr>"
  obtain p1 where p1: "cw_SaveChannel ops ?ch (ap_store s) = (None, p1)" "calm p1"
    using save_calm [OF assms(1,2)] by blast
  have inv1: "inv p1" by (rule save_inv [OF assms(1) p1(1)])
  have get1: "cw_GetChannel ops i p1 = Inr ?ch" using save_then_get [OF assms(1) p1] by simp
  obtain p2 where p2: "cw_DeleteChannel ops i p1 = (None, p2)" "calm p2"
    using delete_calm [OF inv1 p1(2), of i] get_found [OF inv1 get1] by auto
  have inv2: "inv p2" by (rule delete_inv [OF inv1 p2(1)])
  have none: "view p2 i = None" using delete_ok [OF inv1 p2(1)] by simp
  obtain e where e: "cw_GetChannel ops i p2 = Inl e" "errors_Is e nf"
    using get_calm_missing [OF inv2 p2(2) none] by blast
  obtain d where d: "cw_DeleteChannel ops i p2 = (Some d, p2)" "errors_Is d nf"
    using delete_calm_missing [OF inv2 p2(2) none] by blast
  let ?s1 = "s\<lparr>ap_store := p1, ap_svc := RegisterCamera (active_camera ?ch) (ap_svc s)\<rparr>"
  let ?s2 = "?s1\<lparr>ap_store := p2, ap_svc := UnregisterCamera i (ap_svc ?s1)\<rparr>"
  have "upsertCamera ops i body s = (Inr (newChannelResponse ?ch), ?s1)"
    using assms(3) p1(1) by (simp add: upsertCamera_def Let_def)
  moreover have "getCameraConfig ops nf i ?s1 = Inr (newChannelResponse ?ch)" by (simp add: getCameraConfig_def get1)
  moreover have "map_of (sv_cameras (ap_svc ?s1)) i = Some (active_camera ?ch)"
    by (simp add: map_of_RegisterCamera active_camera_def)
  moreover have "deleteCamera ops nf i ?s1 = (Inr (), ?s2)" by (simp add: deleteCamera_def p2(1))
  moreover have "getCameraConfig ops nf i ?s2 = Inl (404, ''camera not found'')" by (simp add: getCameraConfig_def e)
  moreover have "map_of (sv_cameras (ap_svc ?s2)) i = None" by (simp add: map_of_UnregisterCamera)
  moreover have "deleteCamera ops nf i ?s2 = (Inl (404, ''camera not found''), ?s2)" by (simp add: deleteCamera_def d)
  ultimately show ?thesis by metis
qed

end

text \<open>
  A camera that is put under an identifier is answered with its configuration, can be read back
  and is in the camera list; after it is deleted, reading and deleting it answer 404 and it is gone
  from the list. This holds over each of the three channel stores.
\<close>

theorem camera_endpoints:
  assumes "provider_inv ce (ap_store s)" "provider_calm ce (ap_store s)" "ch_StreamURL body \<noteq> []"
  shows "\<exists>s1 s2. upsertCamera (provider_ops ce) i body s = (Inr (newChannelResponse (body\<lparr>ch_ID := i\<rparr>)), s1)
    \<and> getCameraConfig (provider_ops ce) (ce_ErrChannelNotFound ce) i s1 = Inr (newChannelResponse (body\<lparr>ch_ID := i\<rparr>))
    \<and> map_of (sv_cameras (ap_svc s1)) i = Some (active_camera (body\<lparr>ch_ID := i\<rparr>))
    \<and> deleteCamera (provider_ops ce) (ce_ErrChannelNotFound ce) i s1 = (Inr (), s2)
    \<and> getCameraConfig (provider_ops ce) (ce_ErrChannelNotFound ce) i s2 = Inl (404, ''camera not found'')
    \<and> map_of (sv_cameras (ap_svc s2)) i = None
    \<and> deleteCamera (provider_ops ce) (ce_ErrChannelNotFound ce) i s2 = (Inl (404, ''camera not found''), s2)"
  using assms by (rule cp.camera_life)

lemma camera_endpoints_witness:
  "\<exists>s1. upsertCamera (provider_ops chan_env0) ''z'' camera0 csv_target0 = (Inr (newChannelResponse (camera0\<lparr>ch_ID := ''z''\<rparr>)), s1)
    \<and> getCameraConfig (provider_ops chan_env0) (ce_ErrChannelNotFound chan_env0) ''z'' s1
        = Inr (newChannelResponse (camera0\<lparr>ch_ID := ''z''\<rparr>))"
proof -
  have "provider_inv chan_env0 (ap_store csv_target0)" "provider_calm chan_env0 (ap_store csv_target0)"
    "ch_StreamURL camera0 \<noteq> []"
    by (simp_all add: csv_target0_def chan_env0_ok camera0_def)
  from camera_endpoints [OF this, of "''z''"] show ?thesis by blast
qed

end
