(* ===== verification/Router.thy ===== *)
theory Router
  imports Camera_Api
begin

text \<open>
  The routes of the HTTP interface: \<^verbatim>\<open>newRouter\<close> of \<^verbatim>\<open>src/pkg/edgeview/http_handler.go\<close> with the
  registration functions of \<^verbatim>\<open>http_handler.go\<close>, \<^verbatim>\<open>http_cameras.go\<close> and \<^verbatim>\<open>http_analytics.go\<close>. A router is the list of
  its routes, the operations of its OpenAPI document, its middleware and whether the embedded user
  interface answers what no route matches. An operation has its identifier, method, path, tags and
  security, and the parameters and responses that the code lists; summaries and descriptions are left
  out. How chi picks a route for a request is a parameter, and so are the routes of the documentation
  that huma registers itself.
\<close>

subsection \<open>Routes and operations\<close>

datatype http_method = GET | PUT | POST | DELETE | AnyMethod

datatype endpoint =
    EpListCameras | EpTimeline | EpRecordings | EpProducerStats | EpCameraStats | EpSystemStats | EpMetrics
  | EpHealthz | EpHealth | EpAnalytics | EpAnalyticsCounts | EpAnalyticsTrack | EpAnalyticsEvents
  | EpListConfigs | EpUpsertCamera | EpGetCamera | EpDeleteCamera | EpExportCSV | EpImportCSV
  | EpDocsRedirect | EpHttpStream | EpWsStream | EpWsAnalytics | EpBuiltin string

type_synonym route = "http_method \<times> string \<times> endpoint"

datatype param_in = InPath | InQuery

record Operation =
  op_OperationID :: string
  op_Method :: http_method
  op_Path :: string
  op_Tags :: "string list"
  op_noAuth :: bool
  op_DefaultStatus :: nat
  op_Parameters :: "(string \<times> param_in \<times> bool) list"
  op_Responses :: "(string \<times> string list) list"

definition operation :: "string \<Rightarrow> http_method \<Rightarrow> string \<Rightarrow> string \<Rightarrow> Operation" where
  "operation i m p t = \<lparr>op_OperationID = i, op_Method = m, op_Path = p, op_Tags = [t], op_noAuth = False,
     op_DefaultStatus = 0, op_Parameters = [], op_Responses = []\<rparr>"

datatype middleware = Recoverer | RealIP | AuthMiddleware | ChiMetrics

record router =
  rt_middleware :: "middleware list"
  rt_routes :: "route list"
  rt_docs :: "Operation list"
  rt_spa :: bool

definition chi_Handle :: "http_method \<Rightarrow> string \<Rightarrow> endpoint \<Rightarrow> router \<Rightarrow> router" where
  "chi_Handle m p e r = r\<lparr>rt_routes := rt_routes r @ [(m, p, e)]\<rparr>"

definition AddOperation :: "Operation \<Rightarrow> router \<Rightarrow> router" where
  "AddOperation op r = r\<lparr>rt_docs := rt_docs r @ [op]\<rparr>"

definition huma_Register :: "Operation \<Rightarrow> endpoint \<Rightarrow> router \<Rightarrow> router" where
  "huma_Register op e r = AddOperation op (chi_Handle (op_Method op) (op_Path op) e r)"

definition Use :: "middleware \<Rightarrow> router \<Rightarrow> router" where
  "Use m r = r\<lparr>rt_middleware := rt_middleware r @ [m]\<rparr>"

subsection \<open>Registration\<close>

definition registerCameraViewOps :: "router \<Rightarrow> router" where
  "registerCameraViewOps api = fold (\<lambda>(op, e). huma_Register op e)
     [(operation ''listCameras'' GET ''/api/cameras'' ''Camera'', EpListCameras),
      (operation ''getCameraTimeline'' GET ''/api/cameras/{cameraId}/timeline'' ''Camera'', EpTimeline),
      (operation ''getCameraRecordings'' GET ''/api/cameras/{cameraId}/recordings'' ''Camera'', EpRecordings)] api"

definition registerStatsOps :: "'ix HTTPHandler \<Rightarrow> router \<Rightarrow> router" where
  "registerStatsOps h api =
    (let api = fold (\<lambda>(op, e). huma_Register op e)
           [(operation ''listCameraStats'' GET ''/api/cameras/stats'' ''Camera'', EpProducerStats),
            (operation ''getCameraStats'' GET ''/api/cameras/{cameraId}/stats'' ''Camera'', EpCameraStats),
            (operation ''getSystemStats'' GET ''/api/cameras/stats/summary'' ''Camera'', EpSystemStats)] api
     in if hh_collector h then huma_Register (operation ''getMetrics'' GET ''/api/metrics'' ''System'') EpMetrics api else api)"

definition registerHealthOps :: "router \<Rightarrow> router" where
  "registerHealthOps api = fold (\<lambda>(op, e). huma_Register (op\<lparr>op_noAuth := True\<rparr>) e)
     [(operation ''getHealthz'' GET ''/healthz'' ''System'', EpHealthz),
      (operation ''getHealth'' GET ''/health'' ''System'', EpHealth)] api"

definition registerAnalyticsOps :: "router \<Rightarrow> router" where
  "registerAnalyticsOps api = fold (\<lambda>(op, e). huma_Register op e)
     [(operation ''getCameraAnalytics'' GET ''/api/cameras/{cameraId}/analytics'' ''Analytics'', EpAnalytics),
      (operation ''getCameraAnalyticsCounts'' GET ''/api/cameras/{cameraId}/analytics/counts'' ''Analytics'', EpAnalyticsCounts),
      (operation ''getCameraAnalyticsTrack'' GET ''/api/cameras/{cameraId}/analytics/tracks/{trackId}'' ''Analytics'', EpAnalyticsTrack),
      (operation ''getCameraAnalyticsEvents'' GET ''/api/cameras/{cameraId}/analytics/events'' ''Analytics'', EpAnalyticsEvents)] api"

definition registerJSONOps :: "'ix HTTPHandler \<Rightarrow> router \<Rightarrow> router" where
  "registerJSONOps h api =
    (let api = registerHealthOps (registerStatsOps h (registerCameraViewOps api))
     in if hh_analyticsReader h then registerAnalyticsOps api else api)"

definition registerCameraOps :: "'ix HTTPHandler \<Rightarrow> router \<Rightarrow> router" where
  "registerCameraOps h api =
    (if \<not> sv_chanW (hh_svc h) then api
     else fold (\<lambda>(op, e). huma_Register op e)
       [(operation ''listCameraConfigs'' GET ''/api/cameras/config'' ''Camera'', EpListConfigs),
        (operation ''upsertCamera'' PUT ''/api/cameras/{id}'' ''Camera'', EpUpsertCamera),
        (operation ''getCameraConfig'' GET ''/api/cameras/{id}'' ''Camera'', EpGetCamera),
        ((operation ''deleteCamera'' DELETE ''/api/cameras/{id}'' ''Camera'')\<lparr>op_DefaultStatus := 204\<rparr>, EpDeleteCamera)] api)"

definition registerCameraCSVRoutes :: "'ix HTTPHandler \<Rightarrow> router \<Rightarrow> router" where
  "registerCameraCSVRoutes h r =
    (if \<not> sv_chanW (hh_svc h) then r
     else chi_Handle POST ''/api/cameras/import.csv'' EpImportCSV (chi_Handle GET ''/api/cameras/export.csv'' EpExportCSV r))"

definition registerCameraCSVDocs :: "'ix HTTPHandler \<Rightarrow> router \<Rightarrow> router" where
  "registerCameraCSVDocs h api =
    (if \<not> sv_chanW (hh_svc h) then api
     else fold AddOperation
       [(operation ''exportCamerasCSV'' GET ''/api/cameras/export.csv'' ''Camera'')\<lparr>op_Responses := [(''200'', [''text/csv''])]\<rparr>,
        (operation ''importCamerasCSV'' POST ''/api/cameras/import.csv'' ''Camera'')\<lparr>
          op_Responses := [(''200'', [''application/json''])]\<rparr>] api)"

definition streamCameraOperation :: Operation where
  "streamCameraOperation = (operation ''streamCamera'' GET ''/api/cameras/{cameraId}/stream'' ''Camera'')\<lparr>
     op_Parameters := [(''cameraId'', InPath, True), (''start'', InQuery, False)],
     op_Responses := [(''200'', [''video/mp4''])]\<rparr>"

definition streamCameraWSOperation :: Operation where
  "streamCameraWSOperation = (operation ''streamCameraWs'' GET ''/api/cameras/ws/stream'' ''Camera'')\<lparr>
     op_Parameters := [(''cameraId'', InQuery, True), (''start'', InQuery, False), (''analytics'', InQuery, False)],
     op_Responses := [(''101'', [])]\<rparr>"

definition streamCameraAnalyticsWSOperation :: Operation where
  "streamCameraAnalyticsWSOperation = (operation ''streamCameraAnalyticsWs'' GET ''/api/cameras/ws/analytics'' ''Analytics'')\<lparr>
     op_Parameters := [(''cameraId'', InQuery, True)], op_Responses := [(''101'', [])]\<rparr>"

definition registerStreamingDocs :: "'ix HTTPHandler \<Rightarrow> router \<Rightarrow> router" where
  "registerStreamingDocs h api =
    (let api = AddOperation streamCameraWSOperation (AddOperation streamCameraOperation api)
     in if hh_analyticsHub h then AddOperation streamCameraAnalyticsWSOperation api else api)"

text \<open>\<^verbatim>\<open>humachi.New\<close> registers the routes of the documentation, an argument here.\<close>

definition newRouter :: "route list \<Rightarrow> bool \<Rightarrow> 'ix HTTPHandler \<Rightarrow> router" where
  "newRouter builtin uiAvailable h =
    (let r = \<lparr>rt_middleware = [], rt_routes = [], rt_docs = [], rt_spa = False\<rparr>;
         r = Use AuthMiddleware (Use RealIP (Use Recoverer r));
         r = (if hh_collector h then Use ChiMetrics r else r);
         r = r\<lparr>rt_routes := rt_routes r @ builtin\<rparr>;
         r = registerCameraOps h (registerJSONOps h r);
         r = registerCameraCSVDocs h (registerCameraCSVRoutes h r);
         r = registerStreamingDocs h r;
         r = chi_Handle GET ''/docs/'' EpDocsRedirect r;
         r = chi_Handle GET ''/api/cameras/{cameraId}/stream'' EpHttpStream r;
         r = chi_Handle AnyMethod ''/api/cameras/ws/stream'' EpWsStream r;
         r = chi_Handle AnyMethod ''/api/cameras/ws/analytics'' EpWsAnalytics r
     in if uiAvailable then r\<lparr>rt_spa := True\<rparr> else r)"

definition OpenAPI :: "route list \<Rightarrow> bool \<Rightarrow> 'ix HTTPHandler \<Rightarrow> Operation list" where
  "OpenAPI builtin uiAvailable h = rt_docs (newRouter builtin uiAvailable h)"

subsection \<open>Serving a request\<close>

text \<open>
  What answers a request: an endpoint, the embedded user interface, or nothing. The middleware runs for
  every request, matched or not; recovering from panics, the client's address and the metrics do not
  change what answers.
\<close>

datatype served = Served endpoint | ServedSPA | NotServed

type_synonym route_finder = "route list \<Rightarrow> http_method \<Rightarrow> string \<Rightarrow> endpoint option"

definition route_dispatch :: "route_finder \<Rightarrow> router \<Rightarrow> http_method \<Rightarrow> http_request \<Rightarrow> served" where
  "route_dispatch chi r m rq =
    (case chi (rt_routes r) m (rq_Path rq) of
       Some e \<Rightarrow> Served e
     | None \<Rightarrow> if rt_spa r then ServedSPA else NotServed)"

definition ServeHTTP ::
  "route_finder \<Rightarrow> route list \<Rightarrow> bool \<Rightarrow> 'ix HTTPHandler \<Rightarrow> http_method \<Rightarrow> http_request \<Rightarrow> served reply" where
  "ServeHTTP chi builtin ui h m rq =
    authMiddleware ui (hh_authToken h) (\<lambda>rq. Inr (route_dispatch chi (newRouter builtin ui h) m rq)) rq"
subsection \<open>The route table\<close>

lemma router_simps [simp]:
  "rt_routes (chi_Handle m p e r) = rt_routes r @ [(m, p, e)]" "rt_docs (chi_Handle m p e r) = rt_docs r"
  "rt_routes (AddOperation op r) = rt_routes r" "rt_docs (AddOperation op r) = rt_docs r @ [op]"
  "rt_routes (Use mw r) = rt_routes r" "rt_docs (Use mw r) = rt_docs r"
  "rt_routes (huma_Register op e r) = rt_routes r @ [(op_Method op, op_Path op, e)]" "rt_docs (huma_Register op e r) = rt_docs r @ [op]"
  by (simp_all add: chi_Handle_def AddOperation_def Use_def huma_Register_def)

lemma fold_register [simp]:
  "rt_routes (fold (\<lambda>(op, e). huma_Register op e) xs r) = rt_routes r @ map (\<lambda>(op, e). (op_Method op, op_Path op, e)) xs"
  "rt_docs (fold (\<lambda>(op, e). huma_Register op e) xs r) = rt_docs r @ map fst xs"
  by (induction xs arbitrary: r) auto

lemma fold_AddOperation [simp]:
  "rt_routes (fold AddOperation ops r) = rt_routes r" "rt_docs (fold AddOperation ops r) = rt_docs r @ ops"
  by (induction ops arbitrary: r) auto

lemma operation_simps [simp]:
  "op_OperationID (operation i m p t) = i" "op_Method (operation i m p t) = m" "op_Path (operation i m p t) = p"
  "\<not> op_noAuth (operation i m p t)"
  by (simp_all add: operation_def)

lemma register_routes [simp]:
  "rt_routes (registerCameraViewOps r) = rt_routes r @
    [(GET, ''/api/cameras'', EpListCameras), (GET, ''/api/cameras/{cameraId}/timeline'', EpTimeline),
     (GET, ''/api/cameras/{cameraId}/recordings'', EpRecordings)]"
  "rt_routes (registerStatsOps h r) = rt_routes r @
    [(GET, ''/api/cameras/stats'', EpProducerStats), (GET, ''/api/cameras/{cameraId}/stats'', EpCameraStats),
     (GET, ''/api/cameras/stats/summary'', EpSystemStats)] @ (if hh_collector h then [(GET, ''/api/metrics'', EpMetrics)] else [])"
  "rt_routes (registerHealthOps r) = rt_routes r @ [(GET, ''/healthz'', EpHealthz), (GET, ''/health'', EpHealth)]"
  "rt_routes (registerAnalyticsOps r) = rt_routes r @
    [(GET, ''/api/cameras/{cameraId}/analytics'', EpAnalytics), (GET, ''/api/cameras/{cameraId}/analytics/counts'', EpAnalyticsCounts),
     (GET, ''/api/cameras/{cameraId}/analytics/tracks/{trackId}'', EpAnalyticsTrack),
     (GET, ''/api/cameras/{cameraId}/analytics/events'', EpAnalyticsEvents)]"
  "rt_routes (registerCameraOps h r) = rt_routes r @ (if sv_chanW (hh_svc h) then
    [(GET, ''/api/cameras/config'', EpListConfigs), (PUT, ''/api/cameras/{id}'', EpUpsertCamera),
     (GET, ''/api/cameras/{id}'', EpGetCamera), (DELETE, ''/api/cameras/{id}'', EpDeleteCamera)] else [])"
  "rt_routes (registerCameraCSVRoutes h r) = rt_routes r @ (if sv_chanW (hh_svc h) then
    [(GET, ''/api/cameras/export.csv'', EpExportCSV), (POST, ''/api/cameras/import.csv'', EpImportCSV)] else [])"
  by (simp_all add: registerCameraViewOps_def registerStatsOps_def registerHealthOps_def registerAnalyticsOps_def
      registerCameraOps_def registerCameraCSVRoutes_def Let_def)

lemma register_no_routes [simp]:
  "rt_routes (registerCameraCSVDocs h r) = rt_routes r" "rt_routes (registerStreamingDocs h r) = rt_routes r"
  "rt_docs (registerCameraCSVRoutes h r) = rt_docs r"
  by (simp_all add: registerCameraCSVDocs_def registerStreamingDocs_def registerCameraCSVRoutes_def Let_def)

definition own_routes :: "bool \<Rightarrow> bool \<Rightarrow> bool \<Rightarrow> route list" where
  "own_routes collector reader writer =
    [(GET, ''/api/cameras'', EpListCameras), (GET, ''/api/cameras/{cameraId}/timeline'', EpTimeline),
     (GET, ''/api/cameras/{cameraId}/recordings'', EpRecordings), (GET, ''/api/cameras/stats'', EpProducerStats),
     (GET, ''/api/cameras/{cameraId}/stats'', EpCameraStats), (GET, ''/api/cameras/stats/summary'', EpSystemStats)]
    @ (if collector then [(GET, ''/api/metrics'', EpMetrics)] else [])
    @ [(GET, ''/healthz'', EpHealthz), (GET, ''/health'', EpHealth)]
    @ (if reader then
        [(GET, ''/api/cameras/{cameraId}/analytics'', EpAnalytics),
         (GET, ''/api/cameras/{cameraId}/analytics/counts'', EpAnalyticsCounts),
         (GET, ''/api/cameras/{cameraId}/analytics/tracks/{trackId}'', EpAnalyticsTrack),
         (GET, ''/api/cameras/{cameraId}/analytics/events'', EpAnalyticsEvents)] else [])
    @ (if writer then
        [(GET, ''/api/cameras/config'', EpListConfigs), (PUT, ''/api/cameras/{id}'', EpUpsertCamera),
         (GET, ''/api/cameras/{id}'', EpGetCamera), (DELETE, ''/api/cameras/{id}'', EpDeleteCamera),
         (GET, ''/api/cameras/export.csv'', EpExportCSV), (POST, ''/api/cameras/import.csv'', EpImportCSV)] else [])
    @ [(GET, ''/docs/'', EpDocsRedirect), (GET, ''/api/cameras/{cameraId}/stream'', EpHttpStream),
       (AnyMethod, ''/api/cameras/ws/stream'', EpWsStream), (AnyMethod, ''/api/cameras/ws/analytics'', EpWsAnalytics)]"

lemma newRouter_routes: "rt_routes (newRouter builtin ui h) = builtin @ own_routes (hh_collector h) (hh_analyticsReader h) (sv_chanW (hh_svc h))"
  by (simp add: newRouter_def registerJSONOps_def own_routes_def Let_def)

text \<open>An operation without its tags, parameters and responses.\<close>

definition doc_key :: "Operation \<Rightarrow> string \<times> http_method \<times> string \<times> bool" where
  "doc_key op = (op_OperationID op, op_Method op, op_Path op, op_noAuth op)"

definition own_docs :: "bool \<Rightarrow> bool \<Rightarrow> bool \<Rightarrow> bool \<Rightarrow> (string \<times> http_method \<times> string \<times> bool) list" where
  "own_docs collector reader writer hub =
    [(''listCameras'', GET, ''/api/cameras'', False), (''getCameraTimeline'', GET, ''/api/cameras/{cameraId}/timeline'', False),
     (''getCameraRecordings'', GET, ''/api/cameras/{cameraId}/recordings'', False),
     (''listCameraStats'', GET, ''/api/cameras/stats'', False), (''getCameraStats'', GET, ''/api/cameras/{cameraId}/stats'', False),
     (''getSystemStats'', GET, ''/api/cameras/stats/summary'', False)]
    @ (if collector then [(''getMetrics'', GET, ''/api/metrics'', False)] else [])
    @ [(''getHealthz'', GET, ''/healthz'', True), (''getHealth'', GET, ''/health'', True)]
    @ (if reader then
        [(''getCameraAnalytics'', GET, ''/api/cameras/{cameraId}/analytics'', False),
         (''getCameraAnalyticsCounts'', GET, ''/api/cameras/{cameraId}/analytics/counts'', False),
         (''getCameraAnalyticsTrack'', GET, ''/api/cameras/{cameraId}/analytics/tracks/{trackId}'', False),
         (''getCameraAnalyticsEvents'', GET, ''/api/cameras/{cameraId}/analytics/events'', False)] else [])
    @ (if writer then
        [(''listCameraConfigs'', GET, ''/api/cameras/config'', False), (''upsertCamera'', PUT, ''/api/cameras/{id}'', False),
         (''getCameraConfig'', GET, ''/api/cameras/{id}'', False), (''deleteCamera'', DELETE, ''/api/cameras/{id}'', False),
         (''exportCamerasCSV'', GET, ''/api/cameras/export.csv'', False),
         (''importCamerasCSV'', POST, ''/api/cameras/import.csv'', False)] else [])
    @ [(''streamCamera'', GET, ''/api/cameras/{cameraId}/stream'', False), (''streamCameraWs'', GET, ''/api/cameras/ws/stream'', False)]
    @ (if hub then [(''streamCameraAnalyticsWs'', GET, ''/api/cameras/ws/analytics'', False)] else [])"

lemma newRouter_docs: "map doc_key (OpenAPI builtin ui h) =
    own_docs (hh_collector h) (hh_analyticsReader h) (sv_chanW (hh_svc h)) (hh_analyticsHub h)"
proof -
  have ops: "doc_key (operation i m p t) = (i, m, p, False)"
    "doc_key ((operation i m p t)\<lparr>op_noAuth := True\<rparr>) = (i, m, p, True)"
    "doc_key ((operation i m p t)\<lparr>op_DefaultStatus := n\<rparr>) = (i, m, p, False)"
    "doc_key ((operation i m p t)\<lparr>op_Responses := rs\<rparr>) = (i, m, p, False)"
    "doc_key streamCameraOperation = (''streamCamera'', GET, ''/api/cameras/{cameraId}/stream'', False)"
    "doc_key streamCameraWSOperation = (''streamCameraWs'', GET, ''/api/cameras/ws/stream'', False)"
    "doc_key streamCameraAnalyticsWSOperation = (''streamCameraAnalyticsWs'', GET, ''/api/cameras/ws/analytics'', False)" for i m p t n rs
    by (simp_all add: doc_key_def streamCameraOperation_def streamCameraWSOperation_def streamCameraAnalyticsWSOperation_def)
  have view: "map doc_key (rt_docs (registerCameraViewOps r)) = map doc_key (rt_docs r) @
      [(''listCameras'', GET, ''/api/cameras'', False), (''getCameraTimeline'', GET, ''/api/cameras/{cameraId}/timeline'', False),
       (''getCameraRecordings'', GET, ''/api/cameras/{cameraId}/recordings'', False)]" for r
    by (simp add: registerCameraViewOps_def ops)
  have stats: "map doc_key (rt_docs (registerStatsOps h r)) = map doc_key (rt_docs r) @
      [(''listCameraStats'', GET, ''/api/cameras/stats'', False), (''getCameraStats'', GET, ''/api/cameras/{cameraId}/stats'', False),
       (''getSystemStats'', GET, ''/api/cameras/stats/summary'', False)]
      @ (if hh_collector h then [(''getMetrics'', GET, ''/api/metrics'', False)] else [])" for r
    by (simp add: registerStatsOps_def ops Let_def)
  have health: "map doc_key (rt_docs (registerHealthOps r)) = map doc_key (rt_docs r) @
      [(''getHealthz'', GET, ''/healthz'', True), (''getHealth'', GET, ''/health'', True)]" for r
    by (simp add: registerHealthOps_def ops)
  show ?thesis
    by (simp add: OpenAPI_def newRouter_def registerJSONOps_def view stats health registerAnalyticsOps_def registerCameraOps_def
        registerCameraCSVDocs_def registerStreamingDocs_def ops Let_def) (simp add: own_docs_def)
qed

definition method_ok :: "http_method \<Rightarrow> http_method \<Rightarrow> bool" where
  "method_ok m m' \<longleftrightarrow> m' = m \<or> m' = AnyMethod"

lemma own_docs_served:
  "list_all (\<lambda>(i, m, p, na). list_ex (\<lambda>(m', p', e). p' = p \<and> method_ok m m') (own_routes c rd w)) (own_docs c rd w hub)"
  by (induct c; induct rd; induct w; induct hub; code_simp)

lemma own_routes_documented:
  "list_all (\<lambda>(m, p, e). has_prefix p ''/api/'' \<longrightarrow>
     list_ex (\<lambda>(i, m', p', na). p' = p \<and> method_ok m' m) (own_docs c rd w hub) \<or> (e = EpWsAnalytics \<and> \<not> hub)) (own_routes c rd w)"
  by (induct c; induct rd; induct w; induct hub; code_simp)

lemma own_docs_distinct: "distinct (map fst (own_docs c rd w hub))" "distinct (map (\<lambda>(m, p, e). (m, p)) (own_routes c rd w))"
  by (induct c; induct rd; induct w; induct hub; code_simp)+

lemma own_docs_security: "list_all (\<lambda>(i, m, p, na). na \<longleftrightarrow> \<not> has_prefix p ''/api/'') (own_docs c rd w hub)"
  by (induct c; induct rd; induct w; induct hub; code_simp)


subsection \<open>Matching\<close>

fun segs :: "string \<Rightarrow> string list" where
  "segs [] = [[]]"
| "segs (c # s) = (if c = CHR ''/'' then [] # segs s else case segs s of [] \<Rightarrow> [[c]] | x # xs \<Rightarrow> (c # x) # xs)"

definition is_param :: "string \<Rightarrow> bool" where
  "is_param s \<longleftrightarrow> s \<noteq> [] \<and> hd s = CHR ''{''"

definition path_matches :: "string \<Rightarrow> string \<Rightarrow> bool" where
  "path_matches pat path \<longleftrightarrow> list_all2 (\<lambda>a b. is_param a \<or> a = b) (segs pat) (segs path)"

definition param_free :: "string \<Rightarrow> bool" where
  "param_free pat \<longleftrightarrow> list_all (\<lambda>s. \<not> is_param s) (segs pat)"

text \<open>
  What chi documents: the route it picks was registered for the method and matches the path segment by
  segment, a parameter standing for one segment; a path without empty segments that matches some route
  is found; and a route whose pattern is the path itself is preferred to routes with parameters.
\<close>

definition chi_ok :: "route_finder \<Rightarrow> bool" where
  "chi_ok chi \<longleftrightarrow> (\<forall>routes m path.
     (\<forall>e. chi routes m path = Some e \<longrightarrow> (\<exists>(m', p, e') \<in> set routes. e' = e \<and> method_ok m m' \<and> path_matches p path))
   \<and> ([] \<notin> set (tl (segs path)) \<and> (\<exists>(m', p, e) \<in> set routes. method_ok m m' \<and> path_matches p path) \<longrightarrow> chi routes m path \<noteq> None)
   \<and> (\<forall>e. chi routes m path = Some e \<and> param_free path \<and> (\<exists>(m', p, e) \<in> set routes. method_ok m m' \<and> p = path) \<longrightarrow>
        (\<exists>(m', p, e') \<in> set routes. e' = e \<and> method_ok m m' \<and> p = path)))"

lemma segs_nonempty [simp]: "segs s \<noteq> []"
  by (cases s) (auto split: list.split)

lemma segs_slash [simp]: "segs (CHR ''/'' # s) = [] # segs s"
  by simp

lemma segs_plain: "CHR ''/'' \<notin> set s \<Longrightarrow> segs s = [s]"
  by (induction s) auto

lemma segs_append_plain: "CHR ''/'' \<notin> set s \<Longrightarrow> segs (s @ CHR ''/'' # t) = s # segs t"
  by (induction s) auto

lemma segs_Cons_path: "segs s = a # as \<Longrightarrow> s = a \<or> (as \<noteq> [] \<and> (\<exists>t. s = a @ CHR ''/'' # t \<and> segs t = as))"
proof (induction s arbitrary: a as)
  case (Cons c s)
  show ?case
  proof (cases "c = CHR ''/''")
    case True
    then show ?thesis using Cons.prems by auto
  next
    case False
    then obtain a' where a': "segs s = a' # as" "a = c # a'" using Cons.prems by (cases "segs s") auto
    then show ?thesis using Cons.IH [of a' as] by auto
  qed
qed auto

lemma api_path:
  assumes "segs path = [] # ''api'' # x # xs"
  shows "has_prefix path ''/api/''"
proof -
  obtain t where t: "path = CHR ''/'' # t" "segs t = ''api'' # x # xs"
    using segs_Cons_path [OF assms] assms by auto
  then obtain u where "t = ''api'' @ CHR ''/'' # u" using segs_Cons_path [OF t(2)] by (auto simp: segs_plain)
  then show ?thesis using t(1) by (simp add: has_prefix_def)
qed

text \<open>Every route of the program other than the two health checks and the redirect lies below \<^verbatim>\<open>/api/\<close>.\<close>

definition public_endpoint :: "endpoint \<Rightarrow> bool" where
  "public_endpoint e \<longleftrightarrow> e \<in> {EpHealthz, EpHealth, EpDocsRedirect}"

definition under_api :: "string list \<Rightarrow> bool" where
  "under_api ss \<longleftrightarrow> (case ss of a # b # x # xs \<Rightarrow> a = [] \<and> b = ''api'' | _ \<Rightarrow> False)"

lemma under_api_iff: "under_api ss \<longleftrightarrow> (\<exists>x xs. ss = [] # ''api'' # x # xs)"
  by (cases ss rule: list.exhaust; cases "tl ss"; cases "tl (tl ss)") (auto simp: under_api_def)

lemma own_routes_under_api: "list_all (\<lambda>(m, p, e). under_api (segs p) \<or> e = EpHealthz \<or> e = EpHealth \<or> e = EpDocsRedirect) (own_routes c rd w)"
  by (induct c; induct rd; induct w; code_simp)

lemma under_api_matches:
  assumes "under_api (segs p)" "path_matches p path"
  shows "has_prefix path ''/api/''"
proof -
  obtain x xs where p: "segs p = [] # ''api'' # x # xs" using assms(1) unfolding under_api_iff by blast
  obtain y ys where "segs path = [] # ''api'' # y # ys"
    using assms(2) unfolding path_matches_def p by (auto simp: is_param_def list_all2_Cons1)
  then show ?thesis by (rule api_path)
qed


subsection \<open>Camera names and paths\<close>

text \<open>The route table with its patterns split into segments.\<close>

definition seg_routes :: "bool \<Rightarrow> bool \<Rightarrow> (http_method \<times> string list \<times> endpoint) list" where
  "seg_routes collector reader =
    [(GET, [[], ''api'', ''cameras''], EpListCameras), (GET, [[], ''api'', ''cameras'', ''{cameraId}'', ''timeline''], EpTimeline),
     (GET, [[], ''api'', ''cameras'', ''{cameraId}'', ''recordings''], EpRecordings),
     (GET, [[], ''api'', ''cameras'', ''stats''], EpProducerStats),
     (GET, [[], ''api'', ''cameras'', ''{cameraId}'', ''stats''], EpCameraStats),
     (GET, [[], ''api'', ''cameras'', ''stats'', ''summary''], EpSystemStats)]
    @ (if collector then [(GET, [[], ''api'', ''metrics''], EpMetrics)] else [])
    @ [(GET, [[], ''healthz''], EpHealthz), (GET, [[], ''health''], EpHealth)]
    @ (if reader then
        [(GET, [[], ''api'', ''cameras'', ''{cameraId}'', ''analytics''], EpAnalytics),
         (GET, [[], ''api'', ''cameras'', ''{cameraId}'', ''analytics'', ''counts''], EpAnalyticsCounts),
         (GET, [[], ''api'', ''cameras'', ''{cameraId}'', ''analytics'', ''tracks'', ''{trackId}''], EpAnalyticsTrack),
         (GET, [[], ''api'', ''cameras'', ''{cameraId}'', ''analytics'', ''events''], EpAnalyticsEvents)] else [])
    @ [(GET, [[], ''api'', ''cameras'', ''config''], EpListConfigs), (PUT, [[], ''api'', ''cameras'', ''{id}''], EpUpsertCamera),
       (GET, [[], ''api'', ''cameras'', ''{id}''], EpGetCamera), (DELETE, [[], ''api'', ''cameras'', ''{id}''], EpDeleteCamera),
       (GET, [[], ''api'', ''cameras'', ''export.csv''], EpExportCSV), (POST, [[], ''api'', ''cameras'', ''import.csv''], EpImportCSV),
       (GET, [[], ''docs'', []], EpDocsRedirect), (GET, [[], ''api'', ''cameras'', ''{cameraId}'', ''stream''], EpHttpStream),
       (AnyMethod, [[], ''api'', ''cameras'', ''ws'', ''stream''], EpWsStream),
       (AnyMethod, [[], ''api'', ''cameras'', ''ws'', ''analytics''], EpWsAnalytics)]"

lemma own_routes_segs: "map (\<lambda>(m, p, e). (m, segs p, e)) (own_routes c rd True) = seg_routes c rd"
  by (induct c; induct rd; code_simp)

text \<open>The endpoints of the routes that match a path, given by its segments.\<close>

definition matching :: "(http_method \<times> string list \<times> endpoint) list \<Rightarrow> http_method \<Rightarrow> string list \<Rightarrow> endpoint set" where
  "matching rs m ss = {e. \<exists>m' ps. (m', ps, e) \<in> set rs \<and> method_ok m m' \<and> list_all2 (\<lambda>a b. is_param a \<or> a = b) ps ss}"

lemma matching_Nil [simp]: "matching [] m ss = {}"
  by (simp add: matching_def)

lemma matching_Cons [simp]:
  "matching ((m', ps, e) # rs) m ss =
    (if method_ok m m' \<and> list_all2 (\<lambda>a b. is_param a \<or> a = b) ps ss then insert e (matching rs m ss) else matching rs m ss)"
  by (auto simp: matching_def)

lemma matching_append [simp]: "matching (rs @ rs') m ss = matching rs m ss \<union> matching rs' m ss"
  by (auto simp: matching_def)

definition builtin_apart :: "route list \<Rightarrow> bool" where
  "builtin_apart builtin \<longleftrightarrow> (\<forall>(m, p, e) \<in> set builtin. \<forall>path. has_prefix path ''/api/'' \<longrightarrow> \<not> path_matches p path)"

definition picks :: "route list \<Rightarrow> http_method \<Rightarrow> string \<Rightarrow> endpoint set" where
  "picks routes m path = {e. \<exists>m' p. (m', p, e) \<in> set routes \<and> method_ok m m' \<and> path_matches p path}"

lemma picks_newRouter:
  assumes "builtin_apart builtin" "sv_chanW (hh_svc h)" "has_prefix path ''/api/''"
  shows "picks (rt_routes (newRouter builtin ui h)) m path
    = matching (seg_routes (hh_collector h) (hh_analyticsReader h)) m (segs path)"
proof -
  let ?own = "own_routes (hh_collector h) (hh_analyticsReader h) True"
  have "picks (rt_routes (newRouter builtin ui h)) m path = picks ?own m path"
    using assms by (fastforce simp: picks_def newRouter_routes builtin_apart_def)
  also have "\<dots> = matching (map (\<lambda>(m, p, e). (m, segs p, e)) ?own) m (segs path)"
    by (force simp: picks_def matching_def path_matches_def)
  finally show ?thesis by (simp only: own_routes_segs)
qed

lemma chi_picks:
  assumes "chi_ok chi" "[] \<notin> set (tl (segs path))" "picks routes m path = {e}"
  shows "chi routes m path = Some e"
proof -
  have "\<exists>(m', p, e) \<in> set routes. method_ok m m' \<and> path_matches p path" using assms(3) unfolding picks_def by fast
  then obtain e' where e': "chi routes m path = Some e'" using assms(1,2) unfolding chi_ok_def by blast
  then have "e' \<in> picks routes m path" using assms(1) unfolding chi_ok_def picks_def by blast
  then show ?thesis using e' assms(3) by simp
qed

lemma segs_prefix: "segs (''/api/cameras/'' @ s) = [] # ''api'' # ''cameras'' # segs s"
  by simp

lemma chi_static:
  assumes "chi_ok chi" "chi routes m path = Some e" "param_free path" "(m', path, e') \<in> set routes" "method_ok m m'"
  shows "\<exists>m'. (m', path, e) \<in> set routes"
  using assms unfolding chi_ok_def by blast

lemma own_route_mem:
  assumes "sv_chanW (hh_svc h)"
  shows "(GET, ''/api/cameras/stats'', EpProducerStats) \<in> set (rt_routes (newRouter builtin ui h))"
    "(GET, ''/api/cameras/config'', EpListConfigs) \<in> set (rt_routes (newRouter builtin ui h))"
    "(GET, ''/api/cameras/export.csv'', EpExportCSV) \<in> set (rt_routes (newRouter builtin ui h))"
    "(AnyMethod, ''/api/cameras/ws/stream'', EpWsStream) \<in> set (rt_routes (newRouter builtin ui h))"
  using assms by (simp_all add: newRouter_routes own_routes_def)

lemma own_route_pattern:
  "(m, p, EpGetCamera) \<in> set (own_routes c rd w) \<Longrightarrow> p = ''/api/cameras/{id}''"
  "(m, p, EpHttpStream) \<in> set (own_routes c rd w) \<Longrightarrow> p = ''/api/cameras/{cameraId}/stream''"
  by (auto simp: own_routes_def split: if_splits)

text \<open>A name that stands for a path segment.\<close>

definition segment_name :: "string \<Rightarrow> bool" where
  "segment_name i \<longleftrightarrow> i \<noteq> [] \<and> CHR ''/'' \<notin> set i \<and> hd i \<noteq> CHR ''{''"

lemma camera_picks:
  assumes "builtin_apart builtin" "sv_chanW (hh_svc h)" "segment_name i"
  shows "picks (rt_routes (newRouter builtin ui h)) GET (''/api/cameras/'' @ i) =
      {EpGetCamera} \<union> (if i = ''stats'' then {EpProducerStats} else {}) \<union> (if i = ''config'' then {EpListConfigs} else {})
        \<union> (if i = ''export.csv'' then {EpExportCSV} else {})"
    and "picks (rt_routes (newRouter builtin ui h)) PUT (''/api/cameras/'' @ i) = {EpUpsertCamera}"
    and "picks (rt_routes (newRouter builtin ui h)) GET (''/api/cameras/'' @ i @ ''/stream'') =
      {EpHttpStream} \<union> (if i = ''ws'' then {EpWsStream} else {})"
proof -
  have one: "segs (''/api/cameras/'' @ i) = [[], ''api'', ''cameras'', i]"
    using assms(3) by (simp add: segs_plain segment_name_def)
  have two: "segs (''/api/cameras/'' @ i @ ''/stream'') = [[], ''api'', ''cameras'', i, ''stream'']"
    using assms(3) segs_append_plain [of i "''stream''"] by (simp add: segment_name_def)
  have api: "has_prefix (''/api/cameras/'' @ x) ''/api/''" for x by (simp add: has_prefix_def)
  have i: "i \<noteq> []" using assms(3) by (simp add: segment_name_def)
  show "picks (rt_routes (newRouter builtin ui h)) GET (''/api/cameras/'' @ i) =
      {EpGetCamera} \<union> (if i = ''stats'' then {EpProducerStats} else {}) \<union> (if i = ''config'' then {EpListConfigs} else {})
        \<union> (if i = ''export.csv'' then {EpExportCSV} else {})"
    unfolding picks_newRouter [OF assms(1,2) api] one seg_routes_def
    using i by (simp add: method_ok_def is_param_def) auto
  show "picks (rt_routes (newRouter builtin ui h)) PUT (''/api/cameras/'' @ i) = {EpUpsertCamera}"
    unfolding picks_newRouter [OF assms(1,2) api] one seg_routes_def
    using i by (simp add: method_ok_def is_param_def)
  show "picks (rt_routes (newRouter builtin ui h)) GET (''/api/cameras/'' @ i @ ''/stream'') =
      {EpHttpStream} \<union> (if i = ''ws'' then {EpWsStream} else {})"
    unfolding picks_newRouter [OF assms(1,2) api] two seg_routes_def
    using i by (simp add: method_ok_def is_param_def)
qed

lemma path_matches_refl: "path_matches p p"
  by (simp add: path_matches_def list_all2_same)

lemma chi_not_shadowed:
  assumes "chi_ok chi" "builtin_apart builtin" "has_prefix path ''/api/''" "param_free path"
    and "(m', path, e') \<in> set (rt_routes (newRouter builtin ui h))" "method_ok m m'"
    and "\<And>m p. (m, p, e) \<in> set (own_routes (hh_collector h) (hh_analyticsReader h) (sv_chanW (hh_svc h))) \<Longrightarrow> p \<noteq> path"
  shows "chi (rt_routes (newRouter builtin ui h)) m path \<noteq> Some e"
proof
  assume "chi (rt_routes (newRouter builtin ui h)) m path = Some e"
  from chi_static [OF assms(1) this assms(4-6)] obtain m'' where "(m'', path, e) \<in> set builtin \<or>
      (m'', path, e) \<in> set (own_routes (hh_collector h) (hh_analyticsReader h) (sv_chanW (hh_svc h)))"
    by (auto simp: newRouter_routes)
  then show False using assms(2,3,7) path_matches_refl [of path] by (fastforce simp: builtin_apart_def)
qed

lemma no_empty_segments:
  assumes "segment_name i"
  shows "[] \<notin> set (tl (segs (''/api/cameras/'' @ i)))" "[] \<notin> set (tl (segs (''/api/cameras/'' @ i @ ''/stream'')))"
  using assms segs_append_plain [of i "''stream''"] by (auto simp: segs_plain segment_name_def)

text \<open>
  Some camera names are accepted and then unreachable. For every name that is one path segment a
  \<^verbatim>\<open>PUT\<close> reaches the operation that stores the camera, but a \<^verbatim>\<open>GET\<close> returns its configuration only if it is not
  called \<^verbatim>\<open>stats\<close>, \<^verbatim>\<open>config\<close> or \<^verbatim>\<open>export.csv\<close>, and the stream address that the reply to \<^verbatim>\<open>PUT\<close> contains leads to
  the video stream only if it is not called \<^verbatim>\<open>ws\<close>: routes without parameters take precedence.
\<close>

theorem reserved_camera_names:
  assumes "chi_ok chi" "builtin_apart builtin" "sv_chanW (hh_svc h)" "segment_name (ch_ID ch)"
    and "routes = rt_routes (newRouter builtin ui h)"
  shows "chi routes PUT (''/api/cameras/'' @ ch_ID ch) = Some EpUpsertCamera
    \<and> (chi routes GET (''/api/cameras/'' @ ch_ID ch) = Some EpGetCamera \<longleftrightarrow> ch_ID ch \<notin> {''stats'', ''config'', ''export.csv''})
    \<and> (chi routes GET (rsp_StreamURL (newChannelResponse ch)) = Some EpHttpStream \<longleftrightarrow> ch_ID ch \<noteq> ''ws'')"
proof -
  note picks = camera_picks [OF assms(2-4), of ui, folded assms(5)]
  note segs = no_empty_segments [OF assms(4)]
  have put: "chi routes PUT (''/api/cameras/'' @ ch_ID ch) = Some EpUpsertCamera" by (rule chi_picks [OF assms(1) segs(1) picks(2)])
  have free: "param_free ''/api/cameras/stats''" "param_free ''/api/cameras/config''" "param_free ''/api/cameras/export.csv''"
    "param_free ''/api/cameras/ws/stream''" by code_simp+
  have api: "has_prefix ''/api/cameras/stats'' ''/api/''" "has_prefix ''/api/cameras/config'' ''/api/''"
    "has_prefix ''/api/cameras/export.csv'' ''/api/''" "has_prefix ''/api/cameras/ws/stream'' ''/api/''" by (simp_all add: has_prefix_def)
  note shadow = chi_not_shadowed [OF assms(1,2)]
  have get: "chi routes GET (''/api/cameras/'' @ ch_ID ch) = Some EpGetCamera \<longleftrightarrow> ch_ID ch \<notin> {''stats'', ''config'', ''export.csv''}"
  proof (cases "ch_ID ch \<in> {''stats'', ''config'', ''export.csv''}")
    case True
    then have "chi routes GET (''/api/cameras/'' @ ch_ID ch) \<noteq> Some EpGetCamera"
      using shadow [OF api(1) free(1) own_route_mem(1) [OF assms(3)], of GET EpGetCamera]
        shadow [OF api(2) free(2) own_route_mem(2) [OF assms(3)], of GET EpGetCamera]
        shadow [OF api(3) free(3) own_route_mem(3) [OF assms(3)], of GET EpGetCamera] own_route_pattern(1)
      unfolding assms(5) by (fastforce simp: method_ok_def)
    with True show ?thesis by simp
  next
    case False
    then have "picks routes GET (''/api/cameras/'' @ ch_ID ch) = {EpGetCamera}" unfolding picks(1) by simp
    from chi_picks [OF assms(1) segs(1) this] False show ?thesis by simp
  qed
  have url: "rsp_StreamURL (newChannelResponse ch) = ''/api/cameras/'' @ ch_ID ch @ ''/stream''" by (simp add: newChannelResponse_def)
  have "chi routes GET (''/api/cameras/'' @ ch_ID ch @ ''/stream'') = Some EpHttpStream \<longleftrightarrow> ch_ID ch \<noteq> ''ws''"
  proof (cases "ch_ID ch = ''ws''")
    case True
    then have "chi routes GET (''/api/cameras/'' @ ch_ID ch @ ''/stream'') \<noteq> Some EpHttpStream"
      using shadow [OF api(4) free(4) own_route_mem(4) [OF assms(3)], of GET EpHttpStream] own_route_pattern(2)
      unfolding assms(5) by (fastforce simp: method_ok_def)
    with True show ?thesis by simp
  next
    case False
    then have "picks routes GET (''/api/cameras/'' @ ch_ID ch @ ''/stream'') = {EpHttpStream}" unfolding picks(3) by simp
    from chi_picks [OF assms(1) segs(2) this] False show ?thesis by simp
  qed
  then show ?thesis using put get unfolding url by blast
qed

subsection \<open>A router that behaves as documented\<close>

definition ref_router :: route_finder where
  "ref_router routes m path =
    (case find (\<lambda>(m', p, e). method_ok m m' \<and> p = path) routes of
       Some (m', p, e) \<Rightarrow> Some e
     | None \<Rightarrow> map_option (\<lambda>(m', p, e). e) (find (\<lambda>(m', p, e). method_ok m m' \<and> path_matches p path) routes))"

lemma find_SomeD: "find P xs = Some x \<Longrightarrow> x \<in> set xs \<and> P x"
  by (auto simp: find_Some_iff)

lemma ref_router_ok: "chi_ok ref_router"
  unfolding chi_ok_def
proof (intro allI conjI impI)
  fix routes :: "route list" and m path e
  assume e: "ref_router routes m path = Some e"
  have "\<exists>(m', p, e') \<in> set routes. e' = e \<and> method_ok m m' \<and> (p = path \<or>
      (path_matches p path \<and> find (\<lambda>(m', p, e). method_ok m m' \<and> p = path) routes = None))"
    using e by (fastforce simp: ref_router_def split: option.splits dest!: find_SomeD)
  then show "\<exists>(m', p, e') \<in> set routes. e' = e \<and> method_ok m m' \<and> path_matches p path" using path_matches_refl by fast
next
  fix routes :: "route list" and m path
  assume "[] \<notin> set (tl (segs path)) \<and> (\<exists>(m', p, e) \<in> set routes. method_ok m m' \<and> path_matches p path)"
  then have "find (\<lambda>(m', p, e). method_ok m m' \<and> path_matches p path) routes \<noteq> None" unfolding find_None_iff by fast
  then show "ref_router routes m path \<noteq> None" by (auto simp: ref_router_def split: option.split)
next
  fix routes :: "route list" and m path e
  assume a: "ref_router routes m path = Some e \<and> param_free path \<and> (\<exists>(m', p, e) \<in> set routes. method_ok m m' \<and> p = path)"
  then have "find (\<lambda>(m', p, e). method_ok m m' \<and> p = path) routes \<noteq> None" unfolding find_None_iff by fast
  then obtain m' p e' where f: "find (\<lambda>(m', p, e). method_ok m m' \<and> p = path) routes = Some (m', p, e')" by auto
  then have "e' = e" using a by (simp add: ref_router_def)
  with find_SomeD [OF f] show "\<exists>(m', p, e') \<in> set routes. e' = e \<and> method_ok m m' \<and> p = path" by fast
qed

definition handler1 :: "sqliteIndex HTTPHandler" where
  "handler1 = handler0\<lparr>hh_authToken := ''t'', hh_svc := service0\<lparr>sv_chanW := True\<rparr>\<rparr>"

lemma handler1_simps: "hh_authToken handler1 = ''t''" "sv_chanW (hh_svc handler1)" "\<not> hh_collector handler1" "\<not> hh_analyticsReader handler1"
  by (simp_all add: handler1_def handler0_def)



lemma reserved_camera_names_witness:
  "ref_router (rt_routes (newRouter [] True handler1)) PUT ''/api/cameras/stats'' = Some EpUpsertCamera
   \<and> ref_router (rt_routes (newRouter [] True handler1)) GET ''/api/cameras/stats'' \<noteq> Some EpGetCamera"
  using reserved_camera_names [OF ref_router_ok _ handler1_simps(2), of "[]" "camera0\<lparr>ch_ID := ''stats''\<rparr>"]
  by (simp add: builtin_apart_def segment_name_def)
end
