(* ===== verification/Analytics_Tool.thy ===== *)
theory Analytics_Tool
  imports Router
begin

text \<open>
  The analytics simulator, \<^verbatim>\<open>src/cmd/analytics-tool/main.go\<close>: it lists the cameras of an edge node, reads
  the WebSocket stream of each, labels every video fragment with the latest wall-clock it was told,
  passes it through a bounded queue to a worker, and sends made-up analytics back. Per camera a receiver
  and a worker run concurrently; their interleavings are the runs of a step relation. The HTTP client,
  gRPC, the JSON decoder, the time parser of the SDK's layout and the random numbers are parameters.
\<close>

subsection \<open>Addresses\<close>

definition trim_prefix :: "string \<Rightarrow> string \<Rightarrow> string" where
  "trim_prefix s p = (if has_prefix s p then drop (length p) s else s)"

text \<open>\<^verbatim>\<open>strings.ReplaceAll\<close> of a non-empty text, left to right without overlap; \<^verbatim>\<open>strings.TrimRight\<close> of one character.\<close>

function replace_all :: "string \<Rightarrow> string \<Rightarrow> string \<Rightarrow> string" where
  "replace_all [] old new = []"
| "replace_all (c # s) old new =
    (if old \<noteq> [] \<and> has_prefix (c # s) old then new @ replace_all (drop (length old) (c # s)) old new
     else c # replace_all s old new)"
  by pat_completeness auto
termination by (relation "measure (\<lambda>(s, old, new). length s)") (auto simp: less_Suc_eq_le Suc_diff_le diff_le_self neq_Nil_conv)

definition trim_right :: "char \<Rightarrow> string \<Rightarrow> string" where
  "trim_right c s = rev (dropWhile (\<lambda>x. x = c) (rev s))"

definition normaliseHTTP :: "string \<Rightarrow> string" where
  "normaliseHTTP u =
    (if has_prefix u ''ws://'' then ''http://'' @ drop 5 u
     else if has_prefix u ''wss://'' then ''https://'' @ drop 6 u
     else u)"

definition grpcTargetFromURL :: "string \<Rightarrow> string" where
  "grpcTargetFromURL u =
    (let u = normaliseHTTP u; u = trim_prefix u ''http://''; u = trim_prefix u ''https://''
     in takeWhile (\<lambda>c. c \<noteq> CHR ''/'') u)"

definition wsStreamURL :: "string \<Rightarrow> string \<Rightarrow> string" where
  "wsStreamURL httpBase cameraID =
    (let base = trim_right CHR ''/'' httpBase;
         base = replace_all base ''http://'' ''ws://'';
         base = replace_all base ''https://'' ''wss://''
     in base @ ''/api/cameras/ws/stream?cameraId='' @ cameraID)"

text \<open>\<^verbatim>\<open>rand.Int63n\<close> is a parameter; it panics when its argument is not positive.\<close>

definition randomDuration :: "(int \<Rightarrow> int) \<Rightarrow> duration \<Rightarrow> duration \<Rightarrow> duration option" where
  "randomDuration Int63n minD maxD =
    (if maxD \<le> minD then Some minD
     else let n = wrap64 (maxD - minD) in if n \<le> 0 then None else Some (wrap64 (minD + Int63n n)))"

subsection \<open>Frames\<close>

record frameWork =
  fw_sourceID :: string
  fw_wallClock :: instant

record wsTextFrame =
  wt_Type :: string
  wt_WallClock :: string

datatype ws_message = MessageText string | MessageBinary string

record tool_env =
  te_Unmarshal :: "string \<Rightarrow> wsTextFrame option"
  te_ParseMilli :: "string \<Rightarrow> instant option"

definition work_capacity :: nat where "work_capacity = 32"

text \<open>One message of \<^verbatim>\<open>connectAndRead\<close>: the latest wall-clock of the connection and the queue.\<close>

definition read_message :: "tool_env \<Rightarrow> string \<Rightarrow> ws_message \<Rightarrow> instant \<times> frameWork list \<Rightarrow> instant \<times> frameWork list" where
  "read_message env cameraID msg st =
    (case st of (latestWallClock, work) \<Rightarrow>
     (case msg of
        MessageText data \<Rightarrow>
          (case te_Unmarshal env data of
             None \<Rightarrow> (latestWallClock, work)
           | Some frame \<Rightarrow>
               if wt_WallClock frame = [] then (latestWallClock, work)
               else if wt_Type frame \<notin> {''mode_change'', ''playback_info'', ''seeked'', ''timing''} then (latestWallClock, work)
               else (case te_ParseMilli env (wt_WallClock frame) of
                       None \<Rightarrow> (latestWallClock, work)
                     | Some parsed \<Rightarrow> (parsed, work)))
      | MessageBinary data \<Rightarrow>
          if latestWallClock = zero_time then (latestWallClock, work)
          else if length work < work_capacity
          then (latestWallClock, work @ [\<lparr>fw_sourceID = cameraID, fw_wallClock = latestWallClock\<rparr>])
          else (latestWallClock, work)))"

subsection \<open>Analytics\<close>

record Detection =
  de_X :: int
  de_Y :: int
  de_W :: int
  de_H :: int
  de_ClassID :: int
  de_Confidence :: int
  de_TrackID :: int
  de_IsEvent :: bool

record FrameAnalytics =
  fa_CaptureMS :: int
  fa_CaptureEndMS :: int
  fa_InferenceMS :: int
  fa_PeopleCount :: int
  fa_VehicleCount :: int
  fa_Objects :: "Detection list"

text \<open>\<^verbatim>\<open>t.UnixMilli()\<close>; the quotient of a time before 1970 is rounded down.\<close>

definition to_UnixMilli :: "instant \<Rightarrow> int" where
  "to_UnixMilli t = (t - 62135596800 * Second) div Millisecond"

text \<open>\<^verbatim>\<open>r.Intn\<close> as a function of the number of earlier draws; the draws of the object literal are in the order of its fields.\<close>

definition random_detection :: "(nat \<Rightarrow> int \<Rightarrow> int) \<Rightarrow> nat \<Rightarrow> Detection" where
  "random_detection Intn k =
    (let classID = Intn k 2 in
     \<lparr>de_X = Intn (k + 1) 1920, de_Y = Intn (k + 2) 1080, de_W = 50 + Intn (k + 3) 200, de_H = 50 + Intn (k + 4) 200,
      de_ClassID = classID, de_Confidence = 50 + Intn (k + 5) 50, de_TrackID = Intn (k + 6) 100, de_IsEvent = False\<rparr>)"

definition generateAnalytics :: "(nat \<Rightarrow> int \<Rightarrow> int) \<Rightarrow> instant \<Rightarrow> int \<Rightarrow> FrameAnalytics" where
  "generateAnalytics Intn wallClock inferenceDoneMs =
    (let people = Intn 0 5; vehicles = Intn 1 3;
         captureMs = to_UnixMilli wallClock;
         numObjects = Intn 2 4
     in \<lparr>fa_CaptureMS = captureMs, fa_CaptureEndMS = captureMs, fa_InferenceMS = inferenceDoneMs,
         fa_PeopleCount = people, fa_VehicleCount = vehicles,
         fa_Objects = map (\<lambda>j. random_detection Intn (3 + 7 * j)) [0..<nat numObjects]\<rparr>)"

record IngestAnalyticsRequest =
  ir_SourceId :: string
  ir_WallClockMs :: int
  ir_Analytics :: FrameAnalytics

text \<open>The copy into the messages of the protocol; the objects that are made here are never nil.\<close>

definition buildRequest :: "string \<Rightarrow> instant \<Rightarrow> FrameAnalytics \<Rightarrow> IngestAnalyticsRequest" where
  "buildRequest sourceID wallClock fa = \<lparr>ir_SourceId = sourceID, ir_WallClockMs = to_UnixMilli wallClock, ir_Analytics = fa\<rparr>"

subsection \<open>A camera's goroutines\<close>

text \<open>
  The connection with its latest wall-clock, if there is one, the queue, the item the worker holds, the
  requests sent, and the messages of all connections, the current one last.
\<close>

record camera_run =
  ct_conn :: "instant option"
  ct_work :: "frameWork list"
  ct_busy :: "frameWork option"
  ct_sent :: "IngestAnalyticsRequest list"
  ct_history :: "ws_message list list"

definition camera_start :: camera_run where
  "camera_start = \<lparr>ct_conn = None, ct_work = [], ct_busy = None, ct_sent = [], ct_history = []\<rparr>"

definition run_message :: "tool_env \<Rightarrow> string \<Rightarrow> ws_message \<Rightarrow> instant \<Rightarrow> camera_run \<Rightarrow> camera_run" where
  "run_message env cam msg latest s =
    (let (latest', work) = read_message env cam msg (latest, ct_work s)
     in s\<lparr>ct_conn := Some latest', ct_work := work, ct_history := butlast (ct_history s) @ [last (ct_history s) @ [msg]]\<rparr>)"

text \<open>
  \<^verbatim>\<open>subscribeStream\<close> dials again after every failure; \<^verbatim>\<open>connectAndRead\<close> starts without a wall-clock, reads until
  an error and never returns without one. The worker takes an item, waits and sends. Shutting down
  may drop the item it holds.
\<close>

inductive camera_step :: "tool_env \<Rightarrow> string \<Rightarrow> camera_run \<Rightarrow> camera_run \<Rightarrow> bool" for env cam where
  connect: "ct_conn s = None \<Longrightarrow> camera_step env cam s (s\<lparr>ct_conn := Some zero_time, ct_history := ct_history s @ [[]]\<rparr>)"
| message: "ct_conn s = Some latest \<Longrightarrow> camera_step env cam s (run_message env cam msg latest s)"
| disconnect: "ct_conn s = Some latest \<Longrightarrow> camera_step env cam s (s\<lparr>ct_conn := None\<rparr>)"
| take_work: "ct_busy s = None \<Longrightarrow> ct_work s = fw # rest \<Longrightarrow> camera_step env cam s (s\<lparr>ct_busy := Some fw, ct_work := rest\<rparr>)"
| send: "ct_busy s = Some fw \<Longrightarrow>
    camera_step env cam s (s\<lparr>ct_busy := None, ct_sent := ct_sent s @
      [buildRequest (fw_sourceID fw) (fw_wallClock fw) (generateAnalytics Intn (fw_wallClock fw) doneMs)]\<rparr>)"
| give_up: "ct_busy s = Some fw \<Longrightarrow> camera_step env cam s (s\<lparr>ct_busy := None\<rparr>)"

subsection \<open>The tool\<close>

record cameraEntry =
  cy_CameraID :: string
  cy_Name :: string

text \<open>What the server answered: an error of the client, or a status with the decoded items.\<close>

definition listCameras :: "go_error + (nat \<times> string \<times> cameraEntry list result) \<Rightarrow> cameraEntry list result" where
  "listCameras resp =
    (case resp of
       Inl e \<Rightarrow> Inl e
     | Inr (status, text, body) \<Rightarrow>
         if status \<noteq> 200 then Inl (ErrorString (''GET /api/cameras returned '' @ text))
         else (case body of Inl e \<Rightarrow> Inl (WrapError ''decode cameras: '' e []) | Inr items \<Rightarrow> Inr items))"

text \<open>The cameras that the tool subscribes to, with their stream addresses.\<close>

definition run :: "string \<Rightarrow> go_error option \<Rightarrow> go_error option \<Rightarrow> go_error + (nat \<times> string \<times> cameraEntry list result)
    \<Rightarrow> (string \<times> string) list result" where
  "run flagEdgeURL grpc_NewClient IngestAnalytics resp =
    (let httpBase = normaliseHTTP flagEdgeURL; grpcTarget = grpcTargetFromURL flagEdgeURL in
     case grpc_NewClient of
       Some e \<Rightarrow> Inl (WrapError (''dial gRPC '' @ grpcTarget @ '': '') e [])
     | None \<Rightarrow>
     (case IngestAnalytics of
       Some e \<Rightarrow> Inl (WrapError ''open IngestAnalytics stream: '' e [])
     | None \<Rightarrow>
     (case listCameras resp of
       Inl e \<Rightarrow> Inl (WrapError ''list cameras: '' e [])
     | Inr cameras \<Rightarrow> Inr (map (\<lambda>cam. (cy_CameraID cam, wsStreamURL httpBase (cy_CameraID cam))) cameras))))"
subsection \<open>What the worker receives\<close>

text \<open>
  The specification: a text frame of one of the four kinds with a wall-clock that parses is a timing;
  a fragment is labelled with the latest timing of its connection, and fragments before the first
  timing are not labelled.
\<close>

definition timing :: "tool_env \<Rightarrow> string \<Rightarrow> instant option" where
  "timing env data =
    (case te_Unmarshal env data of
       None \<Rightarrow> None
     | Some frame \<Rightarrow>
         if wt_WallClock frame \<noteq> [] \<and> wt_Type frame \<in> {''mode_change'', ''playback_info'', ''seeked'', ''timing''}
         then te_ParseMilli env (wt_WallClock frame) else None)"

fun latest_timing :: "tool_env \<Rightarrow> instant \<Rightarrow> ws_message list \<Rightarrow> instant" where
  "latest_timing env l [] = l"
| "latest_timing env l (MessageText d # ms) = latest_timing env (case timing env d of Some t \<Rightarrow> t | None \<Rightarrow> l) ms"
| "latest_timing env l (MessageBinary d # ms) = latest_timing env l ms"

fun labels :: "tool_env \<Rightarrow> instant \<Rightarrow> ws_message list \<Rightarrow> instant list" where
  "labels env l [] = []"
| "labels env l (MessageText d # ms) = labels env (case timing env d of Some t \<Rightarrow> t | None \<Rightarrow> l) ms"
| "labels env l (MessageBinary d # ms) = (if l = zero_time then [] else [l]) @ labels env l ms"

lemma latest_timing_append: "latest_timing env l (ms @ [m]) = latest_timing env (latest_timing env l ms) [m]"
  by (induction env l ms rule: latest_timing.induct) (cases m; auto)+

lemma labels_append: "labels env l (ms @ [m]) = labels env l ms @ labels env (latest_timing env l ms) [m]"
  by (induction env l ms rule: labels.induct) (cases m; auto)+

lemma read_message_spec:
  "read_message env cam msg (l, work) = (latest_timing env l [msg],
     if length work < work_capacity then work @ map (\<lambda>t. \<lparr>fw_sourceID = cam, fw_wallClock = t\<rparr>) (labels env l [msg]) else work)"
  by (cases msg) (auto simp: read_message_def timing_def split: option.split)

definition pipeline :: "camera_run \<Rightarrow> (string \<times> int) list" where
  "pipeline s = map (\<lambda>r. (ir_SourceId r, ir_WallClockMs r)) (ct_sent s)
     @ map (\<lambda>fw. (fw_sourceID fw, to_UnixMilli (fw_wallClock fw))) (case ct_busy s of None \<Rightarrow> [] | Some fw \<Rightarrow> [fw])
     @ map (\<lambda>fw. (fw_sourceID fw, to_UnixMilli (fw_wallClock fw))) (ct_work s)"

definition all_labels :: "tool_env \<Rightarrow> ws_message list list \<Rightarrow> instant list" where
  "all_labels env history = concat (map (labels env zero_time) history)"

definition run_inv :: "tool_env \<Rightarrow> string \<Rightarrow> camera_run \<Rightarrow> bool" where
  "run_inv env cam s \<longleftrightarrow> length (ct_work s) \<le> work_capacity
     \<and> subseq (pipeline s) (map (\<lambda>t. (cam, to_UnixMilli t)) (all_labels env (ct_history s)))
     \<and> (case ct_conn s of None \<Rightarrow> True
        | Some l \<Rightarrow> ct_history s \<noteq> [] \<and> l = latest_timing env zero_time (last (ct_history s)))
     \<and> (\<forall>r \<in> set (ct_sent s). fa_CaptureMS (ir_Analytics r) = ir_WallClockMs r \<and> fa_CaptureEndMS (ir_Analytics r) = ir_WallClockMs r)"

lemma run_inv_start: "run_inv env cam camera_start"
  by (simp add: run_inv_def camera_start_def pipeline_def)

lemma all_labels_message:
  assumes "history \<noteq> []"
  shows "all_labels env (butlast history @ [last history @ [msg]]) =
    all_labels env history @ labels env (latest_timing env zero_time (last history)) [msg]"
proof -
  have "all_labels env history = all_labels env (butlast history @ [last history])" using assms by simp
  then show ?thesis by (simp add: all_labels_def labels_append)
qed

lemma labels_short: "length (labels env l [m]) \<le> 1"
  by (cases m) simp_all

lemma subseq_drop_middle: "subseq (xs @ y # ys) zs \<Longrightarrow> subseq (xs @ ys) zs"
  by (metis subseq_order.trans subseq_append' list_emb_append_mono subseq_Cons' subseq_order.refl)

lemma run_inv_message:
  assumes "run_inv env cam s" "ct_conn s = Some l"
  shows "run_inv env cam (run_message env cam msg l s)"
proof -
  let ?f = "\<lambda>t. (cam, to_UnixMilli t)" and ?ls = "labels env l [msg]"
  have h: "ct_history s \<noteq> []" "l = latest_timing env zero_time (last (ct_history s))" using assms by (auto simp: run_inv_def)
  let ?s = "run_message env cam msg l s"
  have fields: "ct_conn ?s = Some (latest_timing env l [msg])" "ct_sent ?s = ct_sent s" "ct_busy ?s = ct_busy s"
    "ct_history ?s = butlast (ct_history s) @ [last (ct_history s) @ [msg]]"
    "ct_work ?s = (if length (ct_work s) < work_capacity
       then ct_work s @ map (\<lambda>t. \<lparr>fw_sourceID = cam, fw_wallClock = t\<rparr>) ?ls else ct_work s)"
    by (simp_all add: run_message_def read_message_spec)
  have all: "all_labels env (ct_history ?s) = all_labels env (ct_history s) @ ?ls"
    unfolding fields(4) using all_labels_message [OF h(1), of env msg] h(2) by simp
  have pipe: "pipeline ?s = pipeline s @ map ?f ?ls \<or> pipeline ?s = pipeline s"
    by (auto simp: pipeline_def fields)
  have "subseq (pipeline ?s) (map ?f (all_labels env (ct_history ?s)))"
    using pipe assms(1) unfolding all run_inv_def by (auto intro: list_emb_append_mono subseq_rev_drop_many)
  moreover have "length (ct_work ?s) \<le> work_capacity"
    using assms(1) labels_short [of env l msg] by (simp add: fields run_inv_def)
  moreover have "latest_timing env l [msg] = latest_timing env zero_time (last (ct_history ?s))"
    unfolding fields(4) using h(2) by (simp add: latest_timing_append [of env _ "last (ct_history s)"])
  ultimately show ?thesis using assms(1) by (simp add: run_inv_def fields)
qed

lemma run_inv_step: "camera_step env cam s s' \<Longrightarrow> run_inv env cam s \<Longrightarrow> run_inv env cam s'"
proof (induction rule: camera_step.induct)
  case (connect s)
  then show ?case by (simp add: run_inv_def pipeline_def all_labels_def cong: option.case_cong)
next
  case (message s latest msg)
  then show ?case by (simp add: run_inv_message)
next
  case (disconnect s latest)
  then show ?case by (simp add: run_inv_def pipeline_def)
next
  case (take_work s fw rest)
  then show ?case by (simp add: run_inv_def pipeline_def cong: option.case_cong)
next
  case (send s fw Intn doneMs)
  then show ?case by (auto simp: run_inv_def pipeline_def buildRequest_def generateAnalytics_def Let_def cong: option.case_cong)
next
  case (give_up s fw)
  then show ?case
    by (auto simp: run_inv_def pipeline_def intro: subseq_drop_middle cong: option.case_cong)
qed

lemma run_inv_reachable: "(camera_step env cam)\<^sup>*\<^sup>* camera_start s \<Longrightarrow> run_inv env cam s"
  by (induction rule: rtranclp_induct) (auto intro: run_inv_start run_inv_step)

text \<open>
  C39: the analytics that are sent belong to the frames they claim. In every interleaving of the
  receiver with its reconnections and the worker, the queue holds at most 32 items, and the requests
  sent so far name the camera and the wall-clocks of a subsequence, in order, of the fragments received,
  each with the latest timing of its own connection; fragments before the first timing of a connection
  are never reported, and the capture time in the analytics is the wall-clock of the request.
\<close>

theorem tool_reports_received_frames:
  assumes "(camera_step env cam)\<^sup>*\<^sup>* camera_start s"
  shows "length (ct_work s) \<le> 32
    \<and> subseq (map (\<lambda>r. (ir_SourceId r, ir_WallClockMs r)) (ct_sent s))
        (map (\<lambda>t. (cam, to_UnixMilli t)) (concat (map (labels env zero_time) (ct_history s))))
    \<and> (\<forall>r \<in> set (ct_sent s). fa_CaptureMS (ir_Analytics r) = ir_WallClockMs r)"
proof -
  have inv: "run_inv env cam s" by (rule run_inv_reachable [OF assms])
  have "subseq (map (\<lambda>r. (ir_SourceId r, ir_WallClockMs r)) (ct_sent s)) (pipeline s)"
    by (simp add: pipeline_def subseq_rev_drop_many)
  moreover have "subseq (pipeline s) (map (\<lambda>t. (cam, to_UnixMilli t)) (concat (map (labels env zero_time) (ct_history s))))"
    using inv by (simp add: run_inv_def all_labels_def)
  ultimately show ?thesis using inv subseq_order.trans by (auto simp: run_inv_def work_capacity_def)
qed

text \<open>A run: a fragment, a timing, two fragments; the worker sends the first of the two.\<close>

definition tool_env0 :: tool_env where
  "tool_env0 = \<lparr>te_Unmarshal = (\<lambda>d. if d = ''t'' then Some \<lparr>wt_Type = ''timing'', wt_WallClock = ''w''\<rparr> else None),
     te_ParseMilli = (\<lambda>_. Some (62135596800 * Second + 7 * Millisecond))\<rparr>"

lemma tool_reports_received_frames_witness:
  "\<exists>s. (camera_step tool_env0 ''c'')\<^sup>*\<^sup>* camera_start s \<and> length (ct_sent s) = 1 \<and> length (ct_work s) = 1
     \<and> subseq (map (\<lambda>r. (ir_SourceId r, ir_WallClockMs r)) (ct_sent s)) [(''c'', 7), (''c'', 7)]"
proof -
  let ?st = "camera_step tool_env0 ''c''" and ?t = "62135596800 * Second + 7 * Millisecond :: int"
  let ?fw = "\<lparr>fw_sourceID = ''c'', fw_wallClock = ?t\<rparr>" and ?w = "run_message tool_env0 ''c''"
  define s1 where "s1 = camera_start\<lparr>ct_conn := Some zero_time, ct_history := ct_history camera_start @ [[]]\<rparr>"
  define s2 where "s2 = ?w (MessageBinary ''f'') zero_time s1"
  define s3 where "s3 = ?w (MessageText ''t'') zero_time s2"
  define s4 where "s4 = ?w (MessageBinary ''g'') ?t s3"
  define s5 where "s5 = ?w (MessageBinary ''h'') ?t s4"
  define s6 where "s6 = s5\<lparr>ct_busy := Some ?fw, ct_work := [?fw]\<rparr>"
  define s7 where "s7 = s6\<lparr>ct_busy := None, ct_sent := ct_sent s6 @
      [buildRequest (fw_sourceID ?fw) (fw_wallClock ?fw) (generateAnalytics (\<lambda>_ _. 0) (fw_wallClock ?fw) 9)]\<rparr>"
  have t: "?t \<noteq> 0" by (simp add: Second_def Millisecond_def)
  have state: "s5 = \<lparr>ct_conn = Some ?t, ct_work = [?fw, ?fw], ct_busy = None, ct_sent = [],
      ct_history = [[MessageBinary ''f'', MessageText ''t'', MessageBinary ''g'', MessageBinary ''h'']]\<rparr>"
    "ct_conn s1 = Some zero_time" "ct_conn s2 = Some zero_time" "ct_conn s3 = Some ?t" "ct_conn s4 = Some ?t"
    using t by (simp_all add: s5_def s4_def s3_def s2_def s1_def camera_start_def run_message_def read_message_def tool_env0_def
        work_capacity_def)
  have "?st camera_start s1" unfolding s1_def by (rule camera_step.connect) (simp add: camera_start_def)
  moreover have "?st s1 s2" unfolding s2_def by (rule camera_step.message [OF state(2)])
  moreover have "?st s2 s3" unfolding s3_def by (rule camera_step.message [OF state(3)])
  moreover have "?st s3 s4" unfolding s4_def by (rule camera_step.message [OF state(4)])
  moreover have "?st s4 s5" unfolding s5_def by (rule camera_step.message [OF state(5)])
  moreover have "?st s5 s6" unfolding s6_def by (rule camera_step.take_work) (simp_all add: state)
  moreover have "?st s6 s7" unfolding s7_def by (rule camera_step.send) (simp add: s6_def)
  ultimately have run: "?st\<^sup>*\<^sup>* camera_start s7" by (meson converse_rtranclp_into_rtranclp rtranclp.rtrancl_refl)
  have "concat (map (labels tool_env0 zero_time) (ct_history s7)) = [?t, ?t]"
    using t by (simp add: s7_def s6_def state timing_def tool_env0_def)
  moreover have "to_UnixMilli ?t = 7" by (simp add: to_UnixMilli_def Millisecond_def)
  moreover have "length (ct_sent s7) = 1" "length (ct_work s7) = 1" by (simp_all add: s7_def s6_def state)
  ultimately show ?thesis using tool_reports_received_frames [OF run] run by (intro exI [of _ s7]) simp
qed

subsection \<open>Addresses and pages\<close>

lemma replace_all_none: "\<not> contains s old \<Longrightarrow> replace_all s old new = s"
  by (induction s) auto

lemma replace_all_prefix: "old \<noteq> [] \<Longrightarrow> replace_all (old @ s) old new = new @ replace_all s old new"
  by (cases old) (auto simp: has_prefix_def)

lemma takeWhile_host: "CHR ''/'' \<notin> set host \<Longrightarrow> rest = [] \<or> hd rest = CHR ''/'' \<Longrightarrow> takeWhile (\<lambda>c. c \<noteq> CHR ''/'') (host @ rest) = host"
  by (cases rest) (auto simp: takeWhile_append takeWhile_eq_all_conv)

lemma contains_set: "contains s p \<Longrightarrow> set p \<subseteq> set s"
proof (induction s)
  case (Cons c s)
  have "set p \<subseteq> set (c # s)" if "has_prefix (c # s) p" using that set_take_subset [of "length p" "c # s"] by (simp add: has_prefix_def)
  then show ?case using Cons by auto
qed simp

lemma no_slash_no_scheme: "CHR ''/'' \<notin> set s \<Longrightarrow> \<not> contains s ''http://'' \<and> \<not> contains s ''https://''"
  using contains_set by fastforce

lemma trim_right_slashes:
  assumes "host \<noteq> []" "CHR ''/'' \<notin> set host"
  shows "trim_right CHR ''/'' (p @ host @ replicate n CHR ''/'') = p @ host"
proof -
  obtain h t where h: "rev host = h # t" using assms(1) by (cases "rev host") auto
  then have "h \<in> set host" by (metis list.set_intros(1) set_rev)
  then have h': "h \<noteq> CHR ''/''" using assms(2) by metis
  have "dropWhile (\<lambda>x. x = CHR ''/'') (replicate n CHR ''/'' @ rev host @ rev p) = rev host @ rev p"
    using h h' by (induction n) auto
  then show ?thesis by (simp add: trim_right_def)
qed

definition scheme :: "bool \<Rightarrow> bool \<Rightarrow> string" where
  "scheme ws secure = (if ws then ''ws'' else ''http'') @ (if secure then ''s'' else []) @ ''://''"

lemma normaliseHTTP_scheme: "normaliseHTTP (scheme ws secure @ x) = scheme False secure @ x"
  by (simp add: normaliseHTTP_def scheme_def has_prefix_def)

lemma replace_scheme:
  assumes "CHR ''/'' \<notin> set host"
  shows "replace_all (replace_all (scheme False secure @ host) ''http://'' ''ws://'') ''https://'' ''wss://'' = scheme True secure @ host"
proof -
  note no = no_slash_no_scheme [OF assms]
  have h: "replace_all host ''http://'' x = host" "replace_all host ''https://'' x = host" for x
    using no by (simp_all add: replace_all_none)
  show ?thesis
  proof (cases secure)
    case True
    have "\<not> contains (scheme False True @ host) ''http://''" using no by (simp add: scheme_def has_prefix_def)
    moreover have "replace_all (scheme False True @ host) ''https://'' ''wss://'' = ''wss://'' @ host"
      using replace_all_prefix [of "''https://''" host "''wss://''"] h by (simp add: scheme_def)
    ultimately show ?thesis using True by (simp add: replace_all_none scheme_def)
  next
    case False
    have "replace_all (scheme False False @ host) ''http://'' ''ws://'' = ''ws://'' @ host"
      using replace_all_prefix [of "''http://''" host "''ws://''"] h by (simp add: scheme_def)
    moreover have "\<not> contains (''ws://'' @ host) ''https://''" using no by (simp add: has_prefix_def)
    ultimately show ?thesis using False by (simp add: replace_all_none scheme_def)
  qed
qed

lemma host_https: "takeWhile (\<lambda>c. c \<noteq> CHR ''/'') (''https://'' @ x) = ''https:''"
  by simp

lemma ws_route:
  assumes "chi_ok chi" "builtin_apart builtin"
  shows "chi (rt_routes (newRouter builtin ui h)) GET ''/api/cameras/ws/stream'' = Some EpWsStream"
proof -
  let ?p = "''/api/cameras/ws/stream''" and ?routes = "rt_routes (newRouter builtin ui h)"
  have r: "(AnyMethod, ?p, EpWsStream) \<in> set ?routes" by (simp add: newRouter_routes own_routes_def)
  have m: "method_ok GET AnyMethod" by (simp add: method_ok_def)
  have "[] \<notin> set (tl (segs ?p))" "param_free ?p" by code_simp+
  moreover obtain e where e: "chi ?routes GET ?p = Some e"
    using assms(1) r m path_matches_refl [of ?p] calculation(1) unfolding chi_ok_def by blast
  ultimately obtain m' where "(m', ?p, e) \<in> set ?routes" using chi_static [OF assms(1) e _ r m] by blast
  moreover have "has_prefix ?p ''/api/''" by (simp add: has_prefix_def)
  ultimately have "(m', ?p, e) \<in> set (own_routes (hh_collector h) (hh_analyticsReader h) (sv_chanW (hh_svc h)))"
    using assms(2) path_matches_refl [of ?p] by (fastforce simp: newRouter_routes builtin_apart_def)
  then have "e = EpWsStream" by (auto simp: own_routes_def split: if_splits)
  then show ?thesis using e by simp
qed

text \<open>
  Every form of the edge address works. For \<^verbatim>\<open>http\<close>, \<^verbatim>\<open>https\<close>, \<^verbatim>\<open>ws\<close> and \<^verbatim>\<open>wss\<close>, with or without slashes at
  the end, gRPC dials host and port, and the stream address is the WebSocket address of the same host,
  as secure as the given one, whose path the edge's router maps to the WebSocket stream.
\<close>

theorem tool_addresses:
  assumes "host \<noteq> []" "CHR ''/'' \<notin> set host" "last host \<noteq> CHR '':''" "u = scheme ws secure @ host @ replicate n CHR ''/''"
    and "chi_ok chi" "builtin_apart builtin"
  shows "grpcTargetFromURL u = host
    \<and> wsStreamURL (normaliseHTTP u) i = scheme True secure @ host @ ''/api/cameras/ws/stream?cameraId='' @ i
    \<and> chi (rt_routes (newRouter builtin ui h)) GET ''/api/cameras/ws/stream'' = Some EpWsStream"
proof -
  let ?rest = "replicate n CHR ''/''"
  have norm: "normaliseHTTP u = scheme False secure @ host @ ?rest" unfolding assms(4) by (rule normaliseHTTP_scheme)
  have host: "takeWhile (\<lambda>c. c \<noteq> CHR ''/'') (host @ ?rest) = host" by (rule takeWhile_host [OF assms(2)]) (cases n; simp)
  have "\<not> has_prefix (host @ ?rest) ''https://''"
  proof
    assume "has_prefix (host @ ?rest) ''https://''"
    then obtain x where "host @ ?rest = ''https://'' @ x" unfolding has_prefix_def by (metis append_take_drop_id)
    then have "host = ''https:''" using host host_https [of x] by simp
    then show False using assms(3) by simp
  qed
  then have "trim_prefix (trim_prefix (scheme False secure @ host @ ?rest) ''http://'') ''https://'' = host @ ?rest"
    by (cases secure) (simp_all add: scheme_def trim_prefix_def, simp_all add: has_prefix_def)
  then have "grpcTargetFromURL u = host" using host by (simp add: grpcTargetFromURL_def norm Let_def)
  moreover have "wsStreamURL (normaliseHTTP u) i = scheme True secure @ host @ ''/api/cameras/ws/stream?cameraId='' @ i"
    unfolding norm wsStreamURL_def trim_right_slashes [OF assms(1,2)] Let_def by (simp add: replace_scheme [OF assms(2)])
  ultimately show ?thesis using ws_route [OF assms(5,6)] by blast
qed

lemma tool_addresses_witness:
  "grpcTargetFromURL ''wss://edge:8080/'' = ''edge:8080''
   \<and> wsStreamURL (normaliseHTTP ''wss://edge:8080/'') ''c'' = ''wss://edge:8080/api/cameras/ws/stream?cameraId=c''"
  using tool_addresses [of "''edge:8080''" "''wss://edge:8080/''" True True 1 ref_router "[]" "''c''" True handler1]
  by (simp add: scheme_def ref_router_ok builtin_apart_def)

definition default_page :: paginatedInput where
  "default_page = \<lparr>pi_Limit = 0, pi_Offset = 0\<rparr>"

definition listed_of :: "CameraInfo \<Rightarrow> cameraEntry" where
  "listed_of c = \<lparr>cy_CameraID = cam_CameraID c, cy_Name = cam_Name c\<rparr>"

text \<open>
  The simulator serves the first hundred cameras. The list endpoint is asked without a page, so
  against the edge's own handler the tool subscribes to the first hundred cameras of the list, however
  many the node has, and reports no error.
\<close>

theorem tool_sees_first_page:
  assumes "humaListCameras env default_page h = Some pg"
  shows "\<exists>cams. run url None None (Inr (200, text, Inr (map listed_of (pg_Items pg)))) = Inr cams
    \<and> map fst cams = map cam_CameraID (take 100 (ListCameras (he_play env) (hh_svc h)))"
proof -
  have "pg_Items pg = take 100 (ListCameras (he_play env) (hh_svc h))"
    using assms page_valid [of default_page "ListCameras (he_play env) (hh_svc h)"]
    by (auto simp: humaListCameras_def default_page_def effectiveLimit_def)
  then show ?thesis by (simp add: run_def listCameras_def listed_of_def Let_def comp_def)
qed

lemma tool_sees_first_page_witness:
  "\<exists>pg cams. humaListCameras http_env0 default_page handler1 = Some pg
     \<and> run ''http://e'' None None (Inr (200, ''200 OK'', Inr (map listed_of (pg_Items pg)))) = Inr cams \<and> length cams \<le> 100"
proof -
  have "0 \<le> pi_Offset default_page" by (simp add: default_page_def)
  then obtain pg where pg: "humaListCameras http_env0 default_page handler1 = Some pg"
    unfolding humaListCameras_def by (metis page_valid)
  then obtain cams where cams: "run ''http://e'' None None (Inr (200, ''200 OK'', Inr (map listed_of (pg_Items pg)))) = Inr cams"
    "map fst cams = map cam_CameraID (take 100 (ListCameras (he_play http_env0) (hh_svc handler1)))"
    using tool_sees_first_page [OF pg] by metis
  from arg_cong [OF cams(2), of length] have "length cams \<le> 100" by simp
  then show ?thesis using pg cams(1) by blast
qed

subsection \<open>Ranges\<close>

definition detection_ok :: "Detection \<Rightarrow> bool" where
  "detection_ok d \<longleftrightarrow> 0 \<le> de_X d \<and> de_X d < 1920 \<and> 0 \<le> de_Y d \<and> de_Y d < 1080 \<and> 50 \<le> de_W d \<and> de_W d < 250
     \<and> 50 \<le> de_H d \<and> de_H d < 250 \<and> de_ClassID d \<in> {0, 1} \<and> 50 \<le> de_Confidence d \<and> de_Confidence d \<le> 99
     \<and> 0 \<le> de_TrackID d \<and> de_TrackID d < 100 \<and> \<not> de_IsEvent d"

definition random_ok :: "(nat \<Rightarrow> int \<Rightarrow> int) \<Rightarrow> bool" where
  "random_ok Intn \<longleftrightarrow> (\<forall>k n. 0 < n \<longrightarrow> 0 \<le> Intn k n \<and> Intn k n < n)"

lemma random_detection_ok:
  assumes "random_ok Intn"
  shows "detection_ok (random_detection Intn k)"
proof -
  have r: "0 \<le> Intn j n \<and> Intn j n < n" if "0 < n" for j n using assms that by (simp add: random_ok_def)
  have "Intn k 2 \<in> {0, 1}" using r [of 2 k] by auto
  then show ?thesis
    using r [of 1920 "k + 1"] r [of 1080 "k + 2"] r [of 200 "k + 3"] r [of 200 "k + 4"] r [of 50 "k + 5"] r [of 100 "k + 6"]
    by (simp add: detection_ok_def random_detection_def)
qed

text \<open>
  The analytics stay in range: at most three detections, each inside a frame of 1920 by 1080 at its
  upper left corner with a size of 50 to 249 and a confidence of 50 to 99; and the simulated latency
  lies between the two bounds, the upper one excluded.
\<close>

lemma generateAnalytics_ranges:
  assumes "random_ok Intn"
  shows "length (fa_Objects (generateAnalytics Intn t ms)) \<le> 3 \<and> (\<forall>d \<in> set (fa_Objects (generateAnalytics Intn t ms)). detection_ok d)
    \<and> 0 \<le> fa_PeopleCount (generateAnalytics Intn t ms) \<and> fa_PeopleCount (generateAnalytics Intn t ms) \<le> 4
    \<and> 0 \<le> fa_VehicleCount (generateAnalytics Intn t ms) \<and> fa_VehicleCount (generateAnalytics Intn t ms) \<le> 2"
proof -
  have r: "0 \<le> Intn j n \<and> Intn j n < n" if "0 < n" for j n using assms that by (simp add: random_ok_def)
  show ?thesis
    using r [of 5 0] r [of 3 1] r [of 4 2] random_detection_ok [OF assms]
    by (simp add: generateAnalytics_def Let_def nat_le_iff)
qed

text \<open>
  The simulated latency is at least the minimum and less than the maximum, so the maximum itself
  is never drawn although the comment says it is; when the range is empty it is the minimum; and the
  random source is never called with a range that makes it panic as long as the bounds are not
  292 years apart.
\<close>

theorem randomDuration_range:
  assumes "fits64 minD" "fits64 maxD" "fits64 (maxD - minD)" "\<forall>n > 0. 0 \<le> Int63n n \<and> Int63n n < n"
  shows "\<exists>d. randomDuration Int63n minD maxD = Some d \<and> minD \<le> d \<and> (minD < maxD \<longrightarrow> d < maxD) \<and> (maxD \<le> minD \<longrightarrow> d = minD)"
proof (cases "maxD \<le> minD")
  case False
  define k where "k = Int63n (maxD - minD)"
  have "0 \<le> k" "k < maxD - minD" using assms(4) False by (auto simp: k_def)
  moreover from this have "fits64 (minD + k)" using assms(1,2) by (auto simp: fits64_def)
  ultimately show ?thesis using False assms(3) by (simp add: randomDuration_def Let_def flip: k_def)
qed (simp add: randomDuration_def)

lemma randomDuration_range_witness:
  "\<exists>d. randomDuration (\<lambda>n. n - 1) (100 * Millisecond) (5 * Second) = Some d \<and> 100 * Millisecond \<le> d \<and> d < 5 * Second"
  using randomDuration_range [of "100 * Millisecond" "5 * Second" "\<lambda>n. n - 1"]
  by (auto simp: fits64_def Second_def Millisecond_def)
end
