(* ===== verification/Retention.thy ===== *)
theory Retention
  imports Recording_Types
begin

text \<open>
  The retention rules of \<^verbatim>\<open>pkg/recorder/retention.go\<close>: which of a channel's entries the recorder
  deletes. The flag array \<^verbatim>\<open>deleted\<close> that the three passes share is a list of booleans threaded
  through them; byte counts wrap at 64 bits; \<^verbatim>\<open>AddDate(0, 0, -n)\<close> is taken in UTC, where it is
  exactly \<open>n\<close> days. The passes are refined to one sentence: the entries past their tier go, and of
  the rest the shortest run of oldest entries that brings the disk within both limits.
\<close>

definition bytesPerGB :: int where
  "bytesPerGB = 2 ^ 30"

record RetentionPolicy =
  rp_ContinuousDays :: int
  rp_MotionDays :: int
  rp_ObjectDays :: int
  rp_MaxStorageGB :: rat
  rp_MinFreeGB :: rat
  rp_DiskFreeBytes :: int

definition tierCutoff :: "RecordingEntry \<Rightarrow> RetentionPolicy \<Rightarrow> instant \<Rightarrow> instant \<times> bool" where
  "tierCutoff e p now =
    (if re_HasObjects e \<and> rp_ObjectDays p > 0 then (now - rp_ObjectDays p * Day, True)
     else if re_HasMotion e \<and> rp_MotionDays p > 0 then (now - rp_MotionDays p * Day, True)
     else if rp_ContinuousDays p > 0 then (now - rp_ContinuousDays p * Day, True)
     else (zero_time, False))"

fun applyTimeTiers ::
  "RecordingEntry list \<Rightarrow> bool list \<Rightarrow> RetentionPolicy \<Rightarrow> instant \<Rightarrow> bool list" where
  "applyTimeTiers (e # es) (d # ds) policy now =
    (case tierCutoff e policy now of (cutoff, hasCutoff) \<Rightarrow>
       (if hasCutoff \<and> re_StartTime e < cutoff then True else d)) # applyTimeTiers es ds policy now"
| "applyTimeTiers _ ds _ _ = ds"

fun keptBytes :: "int \<Rightarrow> RecordingEntry list \<Rightarrow> bool list \<Rightarrow> int" where
  "keptBytes tot (e # es) (d # ds) =
    keptBytes (if \<not> d then wrap64 (tot + re_SizeBytes e) else tot) es ds"
| "keptBytes tot _ _ = tot"

fun storageCapLoop :: "int \<Rightarrow> int \<Rightarrow> RecordingEntry list \<Rightarrow> bool list \<Rightarrow> bool list" where
  "storageCapLoop maxBytes tot (e # es) (d # ds) =
    (if tot \<le> maxBytes then d # ds
     else if d then d # storageCapLoop maxBytes tot es ds
     else True # storageCapLoop maxBytes (wrap64 (tot - re_SizeBytes e)) es ds)"
| "storageCapLoop _ _ _ ds = ds"

definition applyStorageCap ::
  "RecordingEntry list \<Rightarrow> bool list \<Rightarrow> RetentionPolicy \<Rightarrow> bool list" where
  "applyStorageCap entries deleted policy =
    (if rp_MaxStorageGB policy \<le> 0 then deleted
     else let maxBytes = int64_of_float (rp_MaxStorageGB policy * of_int bytesPerGB);
              totalBytes = keptBytes 0 entries deleted
          in storageCapLoop maxBytes totalBytes entries deleted)"

fun lessDeleted :: "int \<Rightarrow> RecordingEntry list \<Rightarrow> bool list \<Rightarrow> int" where
  "lessDeleted deficit (e # es) (d # ds) =
    lessDeleted (if d then wrap64 (deficit - re_SizeBytes e) else deficit) es ds"
| "lessDeleted deficit _ _ = deficit"

fun diskFreeLoop :: "int \<Rightarrow> RecordingEntry list \<Rightarrow> bool list \<Rightarrow> bool list" where
  "diskFreeLoop deficit (e # es) (d # ds) =
    (if deficit \<le> 0 then d # ds
     else if d then d # diskFreeLoop deficit es ds
     else True # diskFreeLoop (wrap64 (deficit - re_SizeBytes e)) es ds)"
| "diskFreeLoop _ _ ds = ds"

definition applyDiskFreeCap ::
  "RecordingEntry list \<Rightarrow> bool list \<Rightarrow> RetentionPolicy \<Rightarrow> bool list" where
  "applyDiskFreeCap entries deleted policy =
    (if rp_MinFreeGB policy \<le> 0 \<or> rp_DiskFreeBytes policy \<le> 0 then deleted
     else let minFreeBytes = int64_of_float (rp_MinFreeGB policy * of_int bytesPerGB)
          in if rp_DiskFreeBytes policy \<ge> minFreeBytes then deleted
             else let deficit = wrap64 (minFreeBytes - rp_DiskFreeBytes policy);
                      deficit' = lessDeleted deficit entries deleted
                  in diskFreeLoop deficit' entries deleted)"

definition EvaluateRetention ::
  "RecordingEntry list \<Rightarrow> RetentionPolicy \<Rightarrow> instant \<Rightarrow> RecordingEntry list" where
  "EvaluateRetention entries policy now =
    (if entries = [] then []
     else let deleted = replicate (length entries) False;
              deleted1 = applyTimeTiers entries deleted policy now;
              deleted2 = applyStorageCap entries deleted1 policy;
              deleted3 = applyDiskFreeCap entries deleted2 policy
          in selected entries deleted3)"

subsection \<open>The specification\<close>

text \<open>
  \<open>expired\<close> is the tier rule for one entry. \<open>oldest k\<close> marks the first \<open>k\<close> entries beside those
  already marked; \<open>marked_bytes\<close> and \<open>kept_bytes\<close> measure the two sides over unbounded integers.
\<close>

definition expired :: "RetentionPolicy \<Rightarrow> instant \<Rightarrow> RecordingEntry \<Rightarrow> bool" where
  "expired p now e \<longleftrightarrow> (case tierCutoff e p now of (c, h) \<Rightarrow> h \<and> re_StartTime e < c)"

fun oldest :: "nat \<Rightarrow> bool list \<Rightarrow> bool list" where
  "oldest (Suc k) (d # ds) = True # oldest k ds"
| "oldest _ ds = ds"

definition bytes :: "RecordingEntry list \<Rightarrow> int" where
  "bytes es = (\<Sum>e\<leftarrow>es. re_SizeBytes e)"

definition marked_bytes :: "RecordingEntry list \<Rightarrow> bool list \<Rightarrow> int" where
  "marked_bytes es ds = bytes (selected es ds)"

definition kept_bytes :: "RecordingEntry list \<Rightarrow> bool list \<Rightarrow> int" where
  "kept_bytes es ds = bytes (selected es (map Not ds))"

definition within_cap :: "RetentionPolicy \<Rightarrow> RecordingEntry list \<Rightarrow> bool list \<Rightarrow> bool" where
  "within_cap p es ds \<longleftrightarrow> rp_MaxStorageGB p \<le> 0
     \<or> kept_bytes es ds \<le> int64_of_float (rp_MaxStorageGB p * of_int bytesPerGB)"

definition disk_relieved :: "RetentionPolicy \<Rightarrow> RecordingEntry list \<Rightarrow> bool list \<Rightarrow> bool" where
  "disk_relieved p es ds \<longleftrightarrow> rp_MinFreeGB p \<le> 0 \<or> rp_DiskFreeBytes p \<le> 0
     \<or> int64_of_float (rp_MinFreeGB p * of_int bytesPerGB)
         \<le> rp_DiskFreeBytes p + marked_bytes es ds"

text \<open>Entries as the index returns them: sizes are file sizes and add up within 64 bits.\<close>

definition sizes_ok :: "RecordingEntry list \<Rightarrow> bool" where
  "sizes_ok es \<longleftrightarrow> (\<forall>e \<in> set es. 0 \<le> re_SizeBytes e) \<and> bytes es < 2 ^ 63"

subsection \<open>The passes meet the specification\<close>

lemma bytes_simps [simp]: "bytes [] = 0" "bytes (e # es) = re_SizeBytes e + bytes es"
  by (simp_all add: bytes_def)

lemma marked_simps [simp]:
  "marked_bytes [] ds = 0" "marked_bytes es [] = 0"
  "marked_bytes (e # es) (d # ds) = (if d then re_SizeBytes e else 0) + marked_bytes es ds"
  by (simp_all add: marked_bytes_def)

lemma kept_simps [simp]:
  "kept_bytes [] ds = 0" "kept_bytes es [] = 0"
  "kept_bytes (e # es) (d # ds) = (if d then 0 else re_SizeBytes e) + kept_bytes es ds"
  by (simp_all add: kept_bytes_def)

lemma oldest_simps [simp]: "oldest 0 ds = ds" "oldest k [] = []"
  by (cases ds; cases k; simp)+

lemma length_oldest [simp]: "length (oldest k ds) = length ds"
  by (induction k ds rule: oldest.induct) auto

lemma oldest_nth: "i < length ds \<Longrightarrow> oldest k ds ! i = (i < k \<or> ds ! i)"
  by (induction k ds arbitrary: i rule: oldest.induct) (auto simp: nth_Cons split: nat.split)

lemma oldest_oldest: "oldest j (oldest k ds) = oldest (max j k) ds"
  by (rule nth_equalityI) (auto simp: oldest_nth)

lemma sizes_ok_Cons:
  "sizes_ok (e # es) \<Longrightarrow> 0 \<le> re_SizeBytes e \<and> sizes_ok es \<and> re_SizeBytes e + bytes es < 2 ^ 63
     \<and> 0 \<le> bytes es"
proof -
  assume "sizes_ok (e # es)"
  moreover from this have "0 \<le> bytes es"
    by (fastforce simp: sizes_ok_def bytes_def intro!: sum_list_nonneg)
  ultimately show ?thesis by (auto simp: sizes_ok_def)
qed

lemma marked_nonneg: "sizes_ok es \<Longrightarrow> 0 \<le> marked_bytes es ds \<and> marked_bytes es ds \<le> bytes es"
proof (induction es arbitrary: ds)
  case (Cons e es)
  show ?case
    using sizes_ok_Cons [OF Cons.prems] Cons.IH [of "tl ds"] by (cases ds) auto
qed simp

lemma kept_nonneg: "sizes_ok es \<Longrightarrow> 0 \<le> kept_bytes es ds \<and> kept_bytes es ds \<le> bytes es"
proof (induction es arbitrary: ds)
  case (Cons e es)
  show ?case
    using sizes_ok_Cons [OF Cons.prems] Cons.IH [of "tl ds"] by (cases ds) auto
qed simp

lemma kept_marked: "length ds = length es \<Longrightarrow> kept_bytes es ds + marked_bytes es ds = bytes es"
  by (induction ds es rule: list_induct2) auto

lemma marked_mono: "sizes_ok es \<Longrightarrow> j \<le> k \<Longrightarrow> marked_bytes es (oldest j ds) \<le> marked_bytes es (oldest k ds)"
proof (induction k ds arbitrary: j es rule: oldest.induct)
  case (1 k d ds)
  show ?case
  proof (cases es)
    case (Cons e es')
    then show ?thesis
      using 1 sizes_ok_Cons [of e es'] marked_nonneg [of es' ds]
      by (cases j) (auto, use "1.IH" [of es' 0] in auto)
  qed simp
qed simp_all

text \<open>Both loops relieve a need, oldest first, over unbounded integers.\<close>

fun relieve :: "int \<Rightarrow> RecordingEntry list \<Rightarrow> bool list \<Rightarrow> bool list" where
  "relieve need (e # es) (d # ds) =
    (if need \<le> 0 then d # ds
     else True # relieve (if d then need else need - re_SizeBytes e) es ds)"
| "relieve _ _ ds = ds"

lemma keptBytes_eq:
  "\<lbrakk>sizes_ok es; 0 \<le> acc; acc + bytes es < 2 ^ 63\<rbrakk> \<Longrightarrow> keptBytes acc es ds = acc + kept_bytes es ds"
proof (induction acc es ds rule: keptBytes.induct)
  case (1 acc e es d ds)
  then show ?case using sizes_ok_Cons [OF "1.prems"(1)] by (auto simp: fits64_def)
qed simp_all

lemma lessDeleted_eq:
  "\<lbrakk>sizes_ok es; need < 2 ^ 63; - (2 ^ 63) \<le> need - bytes es\<rbrakk>
     \<Longrightarrow> lessDeleted need es ds = need - marked_bytes es ds"
proof (induction need es ds rule: lessDeleted.induct)
  case (1 need e es d ds)
  then show ?case using sizes_ok_Cons [OF "1.prems"(1)] by (auto simp: fits64_def)
qed simp_all

lemma storageCapLoop_eq:
  "\<lbrakk>sizes_ok es; fits64 tot; kept_bytes es ds \<le> tot; length ds = length es\<rbrakk>
     \<Longrightarrow> storageCapLoop maxB tot es ds = relieve (tot - maxB) es ds"
proof (induction maxB tot es ds rule: storageCapLoop.induct)
  case (1 maxB tot e es d ds)
  note s = sizes_ok_Cons [OF "1.prems"(1)]
  from s have "0 \<le> kept_bytes es ds" using kept_nonneg by blast
  with 1 s show ?case by (auto simp: fits64_def diff_right_commute)
qed simp_all

lemma diskFreeLoop_eq:
  "\<lbrakk>sizes_ok es; need < 2 ^ 63; - (2 ^ 63) \<le> need - kept_bytes es ds; length ds = length es\<rbrakk>
     \<Longrightarrow> diskFreeLoop need es ds = relieve need es ds"
proof (induction need es ds rule: diskFreeLoop.induct)
  case (1 need e es d ds)
  note s = sizes_ok_Cons [OF "1.prems"(1)]
  from s have "0 \<le> kept_bytes es ds" using kept_nonneg by blast
  with 1 s show ?case by (auto simp: fits64_def)
qed simp_all

text \<open>Relieving a need marks the shortest run of oldest entries whose bytes cover it.\<close>

definition covers :: "int \<Rightarrow> RecordingEntry list \<Rightarrow> bool list \<Rightarrow> nat \<Rightarrow> bool" where
  "covers need es ds k \<longleftrightarrow> need \<le> marked_bytes es (oldest k ds) - marked_bytes es ds"

lemma relieve_least:
  "length ds = length es \<Longrightarrow> \<exists>k \<le> length es. relieve need es ds = oldest k ds
     \<and> (k = length es \<or> covers need es ds k) \<and> (\<forall>j < k. \<not> covers need es ds j)"
proof (induction need es ds rule: relieve.induct)
  case (1 need e es d ds)
  show ?case
  proof (cases "need \<le> 0")
    case True
    then show ?thesis by (intro exI [of _ 0]) (simp add: covers_def)
  next
    case False
    let ?n = "if d then need else need - re_SizeBytes e"
    have step: "covers need (e # es) (d # ds) (Suc j) = covers ?n es ds j" for j
      by (auto simp: covers_def)
    from 1 False obtain k where "k \<le> length es" "relieve ?n es ds = oldest k ds"
      "k = length es \<or> covers ?n es ds k" "\<forall>j < k. \<not> covers ?n es ds j" by auto
    with False step show ?thesis
      by (intro exI [of _ "Suc k"]) (auto simp: less_Suc_eq_0_disj covers_def)
  qed
qed auto

text \<open>The two capped passes, in these terms.\<close>

lemma applyStorageCap_least:
  assumes "sizes_ok es" "length ds = length es"
  shows "\<exists>k \<le> length es. applyStorageCap es ds p = oldest k ds
    \<and> (k = length es \<or> within_cap p es (oldest k ds)) \<and> (\<forall>j < k. \<not> within_cap p es (oldest j ds))"
proof (cases "rp_MaxStorageGB p \<le> 0")
  case True
  then show ?thesis by (intro exI [of _ 0]) (simp add: applyStorageCap_def within_cap_def)
next
  case False
  let ?m = "int64_of_float (rp_MaxStorageGB p * of_int bytesPerGB)"
  let ?need = "kept_bytes es ds - ?m"
  have within: "within_cap p es (oldest j ds) = covers ?need es ds j" for j
    using False assms kept_marked [of "oldest j ds" es] kept_marked [of ds es]
    by (auto simp: within_cap_def covers_def)
  have "fits64 (kept_bytes es ds)"
    using assms kept_nonneg [of es ds] by (auto simp: fits64_def sizes_ok_def)
  with assms False have "applyStorageCap es ds p = relieve ?need es ds"
    by (simp add: applyStorageCap_def Let_def keptBytes_eq storageCapLoop_eq sizes_ok_def)
  with relieve_least [OF assms(2)] within show ?thesis by simp
qed

lemma int64_of_float_less: "int64_of_float x < 2 ^ 63"
  by (simp add: int64_of_float_def fits64_def)

lemma applyDiskFreeCap_least:
  assumes "sizes_ok es" "length ds = length es"
  shows "\<exists>k \<le> length es. applyDiskFreeCap es ds p = oldest k ds
    \<and> (k = length es \<or> disk_relieved p es (oldest k ds))
    \<and> (\<forall>j < k. \<not> disk_relieved p es (oldest j ds))"
proof -
  let ?m = "int64_of_float (rp_MinFreeGB p * of_int bytesPerGB)"
  show ?thesis
  proof (cases "rp_MinFreeGB p \<le> 0 \<or> rp_DiskFreeBytes p \<le> 0 \<or> ?m \<le> rp_DiskFreeBytes p")
    case True
    then have "disk_relieved p es ds" and "applyDiskFreeCap es ds p = ds"
      using marked_nonneg [OF assms(1), of ds]
      by (auto simp: applyDiskFreeCap_def disk_relieved_def Let_def)
    then show ?thesis by (intro exI [of _ 0]) simp
  next
    case False
    let ?need = "?m - rp_DiskFreeBytes p - marked_bytes es ds"
    have relieved: "disk_relieved p es (oldest j ds) = covers ?need es ds j" for j
      using False by (auto simp: disk_relieved_def covers_def)
    have "0 < ?m - rp_DiskFreeBytes p" "?m - rp_DiskFreeBytes p < 2 ^ 63"
      using False int64_of_float_less [of "rp_MinFreeGB p * of_int bytesPerGB"] by auto
    moreover note assms marked_nonneg [OF assms(1), of ds] kept_marked [OF assms(2)]
    ultimately have "applyDiskFreeCap es ds p = relieve ?need es ds"
      using False
      by (simp add: applyDiskFreeCap_def Let_def lessDeleted_eq diskFreeLoop_eq sizes_ok_def fits64_def)
    with relieve_least [OF assms(2)] relieved show ?thesis by simp
  qed
qed

lemma length_applyTimeTiers: "length ds = length es \<Longrightarrow> length (applyTimeTiers es ds p now) = length es"
  by (induction ds es rule: list_induct2) auto

lemma applyTimeTiers_expired:
  "applyTimeTiers es (replicate (length es) False) p now = map (expired p now) es"
  by (induction es) (auto simp: expired_def split: prod.splits)

lemma within_cap_mono:
  assumes "sizes_ok es" "length ds = length es" "j \<le> k" "within_cap p es (oldest j ds)"
  shows "within_cap p es (oldest k ds)"
  using assms marked_mono [OF assms(1,3), of ds]
    kept_marked [of "oldest j ds" es] kept_marked [of "oldest k ds" es]
  by (auto simp: within_cap_def)

lemma disk_relieved_mono:
  "\<lbrakk>sizes_ok es; j \<le> k; disk_relieved p es (oldest j ds)\<rbrakk> \<Longrightarrow> disk_relieved p es (oldest k ds)"
  using marked_mono [of es j k ds] by (auto simp: disk_relieved_def)

lemma capped_passes_least:
  assumes "sizes_ok es" "length ds = length es"
  shows "\<exists>k \<le> length es. applyDiskFreeCap es (applyStorageCap es ds p) p = oldest k ds
    \<and> (k = length es \<or> within_cap p es (oldest k ds) \<and> disk_relieved p es (oldest k ds))
    \<and> (\<forall>j < k. \<not> (within_cap p es (oldest j ds) \<and> disk_relieved p es (oldest j ds)))"
proof -
  obtain a where a: "a \<le> length es" "applyStorageCap es ds p = oldest a ds"
    "a = length es \<or> within_cap p es (oldest a ds)" "\<forall>j < a. \<not> within_cap p es (oldest j ds)"
    using applyStorageCap_least [OF assms] by blast
  obtain b where b: "b \<le> length es" "applyDiskFreeCap es (oldest a ds) p = oldest b (oldest a ds)"
    "b = length es \<or> disk_relieved p es (oldest (max b a) ds)"
    "\<forall>j < b. \<not> disk_relieved p es (oldest (max j a) ds)"
    using applyDiskFreeCap_least [of es "oldest a ds" p] assms by (auto simp: oldest_oldest)
  have min: "\<not> (within_cap p es (oldest j ds) \<and> disk_relieved p es (oldest j ds))" if "j < max b a" for j
    using that a(4) b(4) by (cases "j < a") (auto simp: max_def split: if_splits)
  have "max b a = length es \<or> within_cap p es (oldest (max b a) ds) \<and> disk_relieved p es (oldest (max b a) ds)"
    using a(1,3) b(1,3) within_cap_mono [OF assms, of a "max b a" p] by (auto simp: max_def)
  with a b min show ?thesis by (intro exI [of _ "max b a"]) (simp add: oldest_oldest)
qed

lemma oldest_map: "oldest k (map P xs) = map (\<lambda>i. i < k \<or> P (xs ! i)) [0..<length xs]"
  by (rule nth_equalityI) (simp_all add: oldest_nth)

text \<open>The flags of a run of \<open>k\<close> oldest entries together with the expired ones.\<close>

definition run_marks :: "RetentionPolicy \<Rightarrow> instant \<Rightarrow> RecordingEntry list \<Rightarrow> nat \<Rightarrow> bool list" where
  "run_marks p now es k = map (\<lambda>i. i < k \<or> expired p now (es ! i)) [0..<length es]"

definition limits_met :: "RetentionPolicy \<Rightarrow> RecordingEntry list \<Rightarrow> bool list \<Rightarrow> bool" where
  "limits_met p es flags \<longleftrightarrow> within_cap p es flags \<and> disk_relieved p es flags"

lemma EvaluateRetention_eq:
  "EvaluateRetention es p now =
    selected es (applyDiskFreeCap es (applyStorageCap es (map (expired p now) es) p) p)"
  using applyTimeTiers_expired [of es p now] by (simp add: EvaluateRetention_def Let_def)

text \<open>
  C2: \<open>EvaluateRetention\<close> deletes the entries past the cutoff of their tier and, beside them, the \<open>k\<close>
  oldest entries, where \<open>k\<close> is the least number for which the kept bytes are within
  \<open>MaxStorageGB\<close> and the freed bytes lift the disk to \<open>MinFreeGB\<close> (or everything when no number is
  enough).
\<close>

theorem EvaluateRetention_refines:
  assumes "sizes_ok es"
  shows "\<exists>k \<le> length es. EvaluateRetention es p now = selected es (run_marks p now es k)
    \<and> (k = length es \<or> limits_met p es (run_marks p now es k))
    \<and> (\<forall>j < k. \<not> limits_met p es (run_marks p now es j))"
  using capped_passes_least [of es "map (expired p now) es" p] assms
  by (auto simp: EvaluateRetention_eq oldest_map run_marks_def limits_met_def)

definition entries0 :: "RecordingEntry list" where
  "entries0 = (let e = \<lparr>re_ID = ''a'', re_ChannelID = ''c'', re_StartTime = 5, re_EndTime = 6,
      re_FilePath = ''f'', re_SizeBytes = 2 ^ 30, re_Status = StatusComplete,
      re_HasMotion = False, re_HasObjects = False, re_HasEvents = False\<rparr>
    in [e, e\<lparr>re_ID := ''b'', re_StartTime := 7\<rparr>])"

definition policy0 :: RetentionPolicy where
  "policy0 = \<lparr>rp_ContinuousDays = 0, rp_MotionDays = 0, rp_ObjectDays = 0,
     rp_MaxStorageGB = 1, rp_MinFreeGB = 0, rp_DiskFreeBytes = 0\<rparr>"

lemma sizes_ok_entries0: "sizes_ok entries0"
  by (simp add: sizes_ok_def entries0_def Let_def)

lemma EvaluateRetention_refines_witness:
  "sizes_ok entries0 \<and> (\<exists>k \<le> length entries0.
     EvaluateRetention entries0 policy0 9 = selected entries0 (run_marks policy0 9 entries0 k)
     \<and> (k = length entries0 \<or> limits_met policy0 entries0 (run_marks policy0 9 entries0 k))
     \<and> (\<forall>j < k. \<not> limits_met policy0 entries0 (run_marks policy0 9 entries0 j)))"
  using EvaluateRetention_refines [OF sizes_ok_entries0, of policy0 9] sizes_ok_entries0 by blast

text \<open>
  With a storage cap configured, what a channel keeps after a retention pass fits in the cap.
\<close>

theorem EvaluateRetention_cap:
  assumes "sizes_ok es" "0 < rp_MaxStorageGB p" "rp_MaxStorageGB p * of_int bytesPerGB < 2 ^ 63"
  shows "\<exists>flags. EvaluateRetention es p now = selected es flags \<and> length flags = length es
    \<and> of_int (bytes (selected es (map Not flags))) \<le> rp_MaxStorageGB p * of_int bytesPerGB"
proof -
  let ?m = "rp_MaxStorageGB p * of_int bytesPerGB"
  let ?ds = "map (expired p now) es"
  have cap: "int64_of_float ?m = \<lfloor>?m\<rfloor>" "0 \<le> \<lfloor>?m\<rfloor>"
  proof -
    have "0 \<le> ?m" using assms(2) by (simp add: bytesPerGB_def)
    then show "0 \<le> \<lfloor>?m\<rfloor>" by simp
    moreover have "\<lfloor>?m\<rfloor> < 2 ^ 63" using assms(3) by (simp add: floor_less_iff)
    ultimately show "int64_of_float ?m = \<lfloor>?m\<rfloor>"
      using \<open>0 \<le> ?m\<close> by (simp add: int64_of_float_def trunc_def fits64_def)
  qed
  obtain k where k: "k \<le> length es"
    "applyDiskFreeCap es (applyStorageCap es ?ds p) p = oldest k ?ds"
    "k = length es \<or> within_cap p es (oldest k ?ds)"
    using capped_passes_least [OF assms(1), of ?ds p] by auto
  have "kept_bytes es (oldest k ?ds) \<le> \<lfloor>?m\<rfloor>"
    using k(3)
  proof
    assume "k = length es"
    then have "selected es (map Not (oldest k ?ds)) = []"
      by (simp add: selected_none oldest_nth list_all_length)
    with cap show ?thesis by (simp add: kept_bytes_def)
  next
    assume "within_cap p es (oldest k ?ds)"
    with assms(2) cap show ?thesis by (simp add: within_cap_def)
  qed
  then have "of_int (kept_bytes es (oldest k ?ds)) \<le> ?m" by (simp add: le_floor_iff)
  with k(2) show ?thesis
    by (intro exI [of _ "oldest k ?ds"]) (simp add: EvaluateRetention_eq kept_bytes_def)
qed

lemma EvaluateRetention_cap_witness:
  "0 < rp_MaxStorageGB policy0 \<and> (\<exists>flags. EvaluateRetention entries0 policy0 9 = selected entries0 flags
    \<and> length flags = length entries0
    \<and> of_int (bytes (selected entries0 (map Not flags))) \<le> rp_MaxStorageGB policy0 * of_int bytesPerGB)"
  using EvaluateRetention_cap [of entries0 policy0 9] sizes_ok_entries0
  by (simp add: policy0_def bytesPerGB_def)

end
