(* ===== verification/Schedules.thy ===== *)
theory Schedules
  imports Timestamps
begin

text \<open>
  The recording schedules and the three sources of \<^verbatim>\<open>pkg/schedule\<close> (\<^verbatim>\<open>file.go\<close>, \<^verbatim>\<open>mongo.go\<close>, \<^verbatim>\<open>mysql.go\<close>).

  The schedule type is the SDK's; its record has the fields that the repository reads or writes. What
  a source gets from outside is an argument: the outcome of reading the file and of decoding its
  JSON, the documents the Mongo driver returns, the rows the SQL driver returns, and what
  \<^verbatim>\<open>time.Parse\<close> makes of a text that \<open>parse_RFC3339\<close> leaves open. The locale \<open>schedule_source\<close> is the
  contract the sources share.
\<close>

subsection \<open>Schedules\<close>

record Schedule =
  sc_ID :: string
  sc_ChannelID :: string
  sc_StoragePath :: string
  sc_SegmentMinutes :: int
  sc_SegmentSizeMB :: int
  sc_RingBufferSeconds :: int
  sc_StorageProfile :: string
  sc_MaxAgeDays :: int
  sc_MaxStorageGB :: rat
  sc_ContinuousDays :: int
  sc_MotionDays :: int
  sc_ObjectDays :: int
  sc_MinFreeGB :: rat
  sc_LowFreeGB :: rat
  sc_StartAt :: instant
  sc_EndAt :: instant
  sc_DaysOfWeek :: "int list"

text \<open>The struct literals of the sources name four fields; the others are zero.\<close>

definition basic_schedule :: "string \<Rightarrow> string \<Rightarrow> string \<Rightarrow> int \<Rightarrow> Schedule" where
  "basic_schedule i ch path minutes =
    \<lparr>sc_ID = i, sc_ChannelID = ch, sc_StoragePath = path, sc_SegmentMinutes = minutes,
     sc_SegmentSizeMB = 0, sc_RingBufferSeconds = 0, sc_StorageProfile = [], sc_MaxAgeDays = 0,
     sc_MaxStorageGB = 0, sc_ContinuousDays = 0, sc_MotionDays = 0, sc_ObjectDays = 0,
     sc_MinFreeGB = 0, sc_LowFreeGB = 0, sc_StartAt = zero_time, sc_EndAt = zero_time,
     sc_DaysOfWeek = []\<rparr>"

definition ParseTime :: "(string \<Rightarrow> instant result) \<Rightarrow> string \<Rightarrow> instant result" where
  "ParseTime general s = (case parse_RFC3339 s of Some t \<Rightarrow> Inr t | None \<Rightarrow> general s)"

subsection \<open>The file source\<close>

record jsonSchedule =
  js_ID :: string
  js_ChannelID :: string
  js_StoragePath :: string
  js_SegmentMinutes :: int
  js_StartAt :: string
  js_EndAt :: string
  js_DaysOfWeek :: "int list"

definition toSchedule :: "(string \<Rightarrow> instant result) \<Rightarrow> jsonSchedule \<Rightarrow> Schedule result" where
  "toSchedule general j =
    (let s = basic_schedule (js_ID j) (js_ChannelID j) (js_StoragePath j) (js_SegmentMinutes j) in
     case (if js_StartAt j \<noteq> [] then ParseTime general (js_StartAt j) else Inr (sc_StartAt s)) of
       Inl e \<Rightarrow> Inl (WrapError (''schedule '' @ quoted (js_ID j) @ '': invalid start_at: '') e [])
     | Inr startAt \<Rightarrow>
       (case (if js_EndAt j \<noteq> [] then ParseTime general (js_EndAt j) else Inr (sc_EndAt s)) of
          Inl e \<Rightarrow> Inl (WrapError (''schedule '' @ quoted (js_ID j) @ '': invalid end_at: '') e [])
        | Inr endAt \<Rightarrow>
          Inr (s\<lparr>sc_StartAt := startAt, sc_EndAt := endAt, sc_DaysOfWeek := js_DaysOfWeek j\<rparr>)))"

text \<open>The loop that stops at the first entry that does not convert.\<close>

fun toSchedules :: "(string \<Rightarrow> instant result) \<Rightarrow> jsonSchedule list \<Rightarrow> Schedule list result" where
  "toSchedules general [] = Inr []"
| "toSchedules general (r # raw) =
    (case toSchedule general r of
       Inl e \<Rightarrow> Inl e
     | Inr s \<Rightarrow> (case toSchedules general raw of Inl e \<Rightarrow> Inl e | Inr ss \<Rightarrow> Inr (s # ss)))"

text \<open>The file at the provider's path, as \<^verbatim>\<open>os.ReadFile\<close> and \<^verbatim>\<open>json.Unmarshal\<close> find it at a call.\<close>

record schedule_file =
  sf_path :: string
  sf_ReadFile :: "go_error option"
  sf_Unmarshal :: "jsonSchedule list result"
  sf_parse :: "string \<Rightarrow> instant result"

definition file_ListSchedules :: "schedule_file \<Rightarrow> Schedule list result" where
  "file_ListSchedules p =
    (case sf_ReadFile p of
       Some e \<Rightarrow> Inl (WrapError (''schedule file provider: read '' @ quoted (sf_path p) @ '': '') e [])
     | None \<Rightarrow>
       (case sf_Unmarshal p of
          Inl e \<Rightarrow> Inl (WrapError (''schedule file provider: parse '' @ quoted (sf_path p) @ '': '') e [])
        | Inr raw \<Rightarrow> toSchedules (sf_parse p) raw))"

subsection \<open>The Mongo source\<close>

record mongoSchedule =
  md_ID :: string
  md_ChannelID :: string
  md_StoragePath :: string
  md_SegmentMinutes :: int
  md_StartAt :: "instant option"
  md_EndAt :: "instant option"
  md_DaysOfWeek :: "int list"

definition scheduleFromMongo :: "mongoSchedule \<Rightarrow> Schedule" where
  "scheduleFromMongo d =
    (let s = basic_schedule (md_ID d) (md_ChannelID d) (md_StoragePath d) (md_SegmentMinutes d);
         s = (case md_StartAt d of None \<Rightarrow> s | Some t \<Rightarrow> s\<lparr>sc_StartAt := t\<rparr>);
         s = (case md_EndAt d of None \<Rightarrow> s | Some t \<Rightarrow> s\<lparr>sc_EndAt := t\<rparr>)
     in s\<lparr>sc_DaysOfWeek := md_DaysOfWeek d\<rparr>)"

record schedule_collection =
  sm_Find :: "go_error option"
  sm_All :: "mongoSchedule list result"

definition mongo_ListSchedules :: "schedule_collection \<Rightarrow> Schedule list result" where
  "mongo_ListSchedules p =
    (case sm_Find p of
       Some e \<Rightarrow> Inl (WrapError ''schedule mongo: list: '' e [])
     | None \<Rightarrow>
       (case sm_All p of
          Inl e \<Rightarrow> Inl (WrapError ''schedule mongo: decode: '' e [])
        | Inr docs \<Rightarrow> Inr (map scheduleFromMongo docs)))"

subsection \<open>The MySQL source\<close>

text \<open>
  A row as \<^verbatim>\<open>rows.Scan\<close> delivers it. The column \<^verbatim>\<open>days_of_week\<close> is NULL or a text; the text is given
  with what \<^verbatim>\<open>json.Unmarshal\<close> makes of it.
\<close>

record schedule_row =
  sr_id :: string
  sr_channel_id :: string
  sr_storage_path :: string
  sr_segment_minutes :: int
  sr_start_at :: "instant option"
  sr_end_at :: "instant option"
  sr_days_of_week :: "(string \<times> int list result) option"

definition scanSchedule :: "schedule_row result \<Rightarrow> Schedule result" where
  "scanSchedule scan =
    (case scan of
       Inl e \<Rightarrow> Inl e
     | Inr r \<Rightarrow>
       (let s = basic_schedule (sr_id r) (sr_channel_id r) (sr_storage_path r) (sr_segment_minutes r);
            s = (case sr_start_at r of Some t \<Rightarrow> s\<lparr>sc_StartAt := t\<rparr> | None \<Rightarrow> s);
            s = (case sr_end_at r of Some t \<Rightarrow> s\<lparr>sc_EndAt := t\<rparr> | None \<Rightarrow> s)
        in case sr_days_of_week r of
             None \<Rightarrow> Inr s
           | Some (text, days) \<Rightarrow>
             if text = [] then Inr s
             else (case days of
                     Inl e \<Rightarrow> Inl (WrapError ''parse days_of_week JSON: '' e [])
                   | Inr ds \<Rightarrow> Inr (s\<lparr>sc_DaysOfWeek := ds\<rparr>))))"

fun scanSchedules :: "schedule_row result list \<Rightarrow> Schedule list result" where
  "scanSchedules [] = Inr []"
| "scanSchedules (r # rows) =
    (case scanSchedule r of
       Inl e \<Rightarrow> Inl (WrapError ''schedule mysql: scan: '' e [])
     | Inr s \<Rightarrow> (case scanSchedules rows of Inl e \<Rightarrow> Inl e | Inr ss \<Rightarrow> Inr (s # ss)))"

record schedule_table =
  st_Query :: "go_error option"
  st_rows :: "schedule_row result list"
  st_Err :: "go_error option"

definition mysql_ListSchedules :: "schedule_table \<Rightarrow> Schedule list result" where
  "mysql_ListSchedules p =
    (case st_Query p of
       Some e \<Rightarrow> Inl (WrapError ''schedule mysql: list: '' e [])
     | None \<Rightarrow>
       (case scanSchedules (st_rows p) of
          Inl e \<Rightarrow> Inl e
        | Inr ss \<Rightarrow>
          (case st_Err p of Some e \<Rightarrow> Inl (WrapError ''schedule mysql: rows: '' e []) | None \<Rightarrow> Inr ss)))"

subsection \<open>What the sources leave out\<close>

text \<open>
  A schedule that asks for nothing but plain recording: no size limit, no ring buffer, no storage
  profile, no retention and no disk guard.
\<close>

definition plain :: "Schedule \<Rightarrow> bool" where
  "plain s \<longleftrightarrow> sc_SegmentSizeMB s = 0 \<and> sc_RingBufferSeconds s = 0 \<and> sc_StorageProfile s = []
     \<and> sc_MaxAgeDays s = 0 \<and> sc_MaxStorageGB s = 0 \<and> sc_ContinuousDays s = 0 \<and> sc_MotionDays s = 0
     \<and> sc_ObjectDays s = 0 \<and> sc_MinFreeGB s = 0 \<and> sc_LowFreeGB s = 0"

lemma plain_basic [simp]: "plain (basic_schedule i ch path m)"
  by (simp add: plain_def basic_schedule_def)

lemma plain_updates [simp]:
  "plain (s\<lparr>sc_StartAt := t\<rparr>) = plain s" "plain (s\<lparr>sc_EndAt := t\<rparr>) = plain s"
  "plain (s\<lparr>sc_DaysOfWeek := ds\<rparr>) = plain s"
  by (simp_all add: plain_def)

text \<open>The contract of a schedule source, of which the recorder relies on the list alone.\<close>

locale schedule_source =
  fixes ListSchedules :: "'p \<Rightarrow> Schedule list result"
  assumes ListSchedules_plain: "ListSchedules p = Inr ss \<Longrightarrow> s \<in> set ss \<Longrightarrow> plain s"

lemma toSchedule_plain: "toSchedule general j = Inr s \<Longrightarrow> plain s"
  by (auto simp: toSchedule_def Let_def split: if_splits sum.splits)

lemma toSchedules_plain: "toSchedules general raw = Inr ss \<Longrightarrow> s \<in> set ss \<Longrightarrow> plain s"
  by (induction raw arbitrary: ss) (auto split: sum.splits dest: toSchedule_plain)

lemma scheduleFromMongo_plain [simp]: "plain (scheduleFromMongo d)"
  by (simp add: scheduleFromMongo_def Let_def split: option.split)

lemma scanSchedule_plain: "scanSchedule r = Inr s \<Longrightarrow> plain s"
  by (auto simp: scanSchedule_def Let_def split: if_splits sum.splits option.splits)

lemma scanSchedules_plain: "scanSchedules rows = Inr ss \<Longrightarrow> s \<in> set ss \<Longrightarrow> plain s"
  by (induction rows arbitrary: ss) (auto split: sum.splits dest: scanSchedule_plain)

interpretation file_source: schedule_source file_ListSchedules
  by unfold_locales (auto simp: file_ListSchedules_def split: option.splits sum.splits dest: toSchedules_plain)

interpretation mongo_source: schedule_source mongo_ListSchedules
  by unfold_locales (auto simp: mongo_ListSchedules_def split: option.splits sum.splits)

interpretation mysql_source: schedule_source mysql_ListSchedules
  by unfold_locales (auto simp: mysql_ListSchedules_def split: option.splits sum.splits dest: scanSchedules_plain)

subsection \<open>One schedule, three stores\<close>

text \<open>A schedule as an entry of the JSON file, as a document and as a row.\<close>

definition time_text :: "instant \<Rightarrow> string" where
  "time_text t = (if t = zero_time then [] else fmt_RFC3339Nano t)"

definition time_column :: "instant \<Rightarrow> instant option" where
  "time_column t = (if t = zero_time then None else Some t)"

definition json_of :: "Schedule \<Rightarrow> jsonSchedule" where
  "json_of s = \<lparr>js_ID = sc_ID s, js_ChannelID = sc_ChannelID s, js_StoragePath = sc_StoragePath s,
     js_SegmentMinutes = sc_SegmentMinutes s, js_StartAt = time_text (sc_StartAt s),
     js_EndAt = time_text (sc_EndAt s), js_DaysOfWeek = sc_DaysOfWeek s\<rparr>"

definition document_of :: "Schedule \<Rightarrow> mongoSchedule" where
  "document_of s = \<lparr>md_ID = sc_ID s, md_ChannelID = sc_ChannelID s, md_StoragePath = sc_StoragePath s,
     md_SegmentMinutes = sc_SegmentMinutes s, md_StartAt = time_column (sc_StartAt s),
     md_EndAt = time_column (sc_EndAt s), md_DaysOfWeek = sc_DaysOfWeek s\<rparr>"

definition schedule_row_of :: "string \<Rightarrow> Schedule \<Rightarrow> schedule_row" where
  "schedule_row_of text s = \<lparr>sr_id = sc_ID s, sr_channel_id = sc_ChannelID s, sr_storage_path = sc_StoragePath s,
     sr_segment_minutes = sc_SegmentMinutes s, sr_start_at = time_column (sc_StartAt s),
     sr_end_at = time_column (sc_EndAt s),
     sr_days_of_week = (if sc_DaysOfWeek s = [] then None else Some (text, Inr (sc_DaysOfWeek s)))\<rparr>"

definition datable :: "Schedule \<Rightarrow> bool" where
  "datable s \<longleftrightarrow> fmt_range (sc_StartAt s) \<and> fmt_range (sc_EndAt s)"

lemma fmt_RFC3339Nano_nonempty: "fmt_RFC3339Nano t \<noteq> []"
  by (simp add: fmt_RFC3339Nano_def)

lemma ParseTime_fmt: "fmt_range t \<Longrightarrow> ParseTime general (fmt_RFC3339Nano t) = Inr t"
  by (simp add: ParseTime_def parse_fmt_RFC3339Nano)

lemma basic_schedule_eq:
  "plain s \<Longrightarrow> (basic_schedule (sc_ID s) (sc_ChannelID s) (sc_StoragePath s) (sc_SegmentMinutes s))
     \<lparr>sc_StartAt := sc_StartAt s, sc_EndAt := sc_EndAt s, sc_DaysOfWeek := sc_DaysOfWeek s\<rparr> = s"
  by (cases s) (simp add: plain_def basic_schedule_def)

lemma basic_schedule_times [simp]:
  "sc_StartAt (basic_schedule i ch p m) = zero_time" "sc_EndAt (basic_schedule i ch p m) = zero_time"
  "sc_DaysOfWeek (basic_schedule i ch p m) = []"
  by (simp_all add: basic_schedule_def)

lemma toSchedule_json_of: "plain s \<Longrightarrow> datable s \<Longrightarrow> toSchedule general (json_of s) = Inr s"
  by (cases "sc_StartAt s = 0"; cases "sc_EndAt s = 0"; cases s)
    (simp_all add: toSchedule_def json_of_def datable_def time_text_def fmt_RFC3339Nano_nonempty ParseTime_fmt
      plain_def basic_schedule_def)

lemma scheduleFromMongo_document_of: "plain s \<Longrightarrow> scheduleFromMongo (document_of s) = s"
  by (cases s) (simp add: scheduleFromMongo_def document_of_def time_column_def plain_def basic_schedule_def)

lemma scanSchedule_row_of: "plain s \<Longrightarrow> text \<noteq> [] \<Longrightarrow> scanSchedule (Inr (schedule_row_of text s)) = Inr s"
  by (cases s) (simp add: scanSchedule_def schedule_row_of_def time_column_def plain_def basic_schedule_def)

lemma toSchedules_json_of:
  "\<forall>s \<in> set ss. plain s \<and> datable s \<Longrightarrow> toSchedules general (map json_of ss) = Inr ss"
  by (induction ss) (simp_all add: toSchedule_json_of)

lemma scanSchedules_row_of:
  "\<forall>s \<in> set ss. plain s \<Longrightarrow> text \<noteq> [] \<Longrightarrow> scanSchedules (map (Inr \<circ> schedule_row_of text) ss) = Inr ss"
  by (induction ss) (simp_all add: scanSchedule_row_of)


definition weekday0 :: Schedule where
  "weekday0 = (basic_schedule ''s'' ''c'' ''/rec'' 5)\<lparr>sc_EndAt := 1000000000, sc_DaysOfWeek := [1, 2]\<rparr>"


end
