(* ===== verification/Recorder.thy ===== *)
theory Recorder
  imports Record_Index Retention Schedules
begin

text \<open>
  The recording manager of \<^verbatim>\<open>pkg/recorder/recorder.go\<close> with \<^verbatim>\<open>metrics.go\<close> and \<^verbatim>\<open>diskcheck_linux.go\<close>:
  the poll loop that starts, rotates and stops recordings as schedules become active, the callbacks
  it hands to the SDK, and the retention it enforces.

  The manager's fields and what it does to the outside (handles closed, files present, throughput
  reported) are one record, over any recording index. What it calls outside the repository is in
  the environment of a step: the schedule and channel sources, the clock, \<^verbatim>\<open>schedule.IsActive\<close>,
  \<^verbatim>\<open>statfs\<close>, the relay hub's \<^verbatim>\<open>Consume\<close> and \<^verbatim>\<open>Close\<close>, the muxer's byte counter, and the outcomes of
  \<^verbatim>\<open>os.Rename\<close> and \<^verbatim>\<open>os.Remove\<close>. Log lines are dropped. The goroutines that one tick starts, one per
  active schedule, run one after the other in the order of the schedule list; the callbacks of the
  SDK are steps of their own.
\<close>

subsection \<open>Data\<close>

record activeRec =
  ar_sched :: Schedule
  ar_handle :: nat
  ar_muxer :: "nat option"
  ar_startTime :: instant

record SegmentCloseInfo =
  ci_Path :: string
  ci_Start :: instant
  ci_End :: instant
  ci_SizeBytes :: int
  ci_HasMotion :: bool
  ci_HasObjects :: bool
  ci_ValidationError :: "go_error option"

record 'ix RecordingManager =
  rm_index :: 'ix
  rm_pollInterval :: duration
  rm_hasChannels :: bool
  rm_defaultStoragePath :: string
  rm_active :: "(string \<times> activeRec) list"
  rm_ringBuffers :: "(string \<times> duration) list"
  rm_failedStart :: "string \<rightharpoonup> string"
  rm_lastRetention :: instant
  rm_hasCollector :: bool
  rm_closedHandles :: "nat list"
  rm_files :: "string set"
  rm_throughput :: "(rat \<times> string) list"

record 'ix rec_env =
  ev_ops :: "'ix RecordingIndex"
  ev_ListSchedules :: "Schedule list result"
  ev_ListChannels :: "string list result"
  ev_now :: instant
  ev_IsActive :: "Schedule \<Rightarrow> instant \<Rightarrow> bool"
  ev_statfs :: "string \<Rightarrow> (int \<times> int \<times> int) result"
  ev_ProfileAuto :: string
  ev_NewSegmentMuxer :: "string \<Rightarrow> instant \<Rightarrow> string \<Rightarrow> int \<Rightarrow> int \<Rightarrow> duration option \<Rightarrow> nat result"
  ev_Consume :: "string \<Rightarrow> string \<Rightarrow> (nat \<times> nat option) result"
  ev_BytesWritten :: "nat \<Rightarrow> int"
  ev_Rename :: "string \<Rightarrow> string \<Rightarrow> go_error option"
  ev_Remove :: "string \<Rightarrow> go_error option"

text \<open>\<^verbatim>\<open>Statfs\<close> gives the available blocks, the total blocks and the block size.\<close>

definition CheckDiskSpace :: "'ix rec_env \<Rightarrow> string \<Rightarrow> (int \<times> int) result" where
  "CheckDiskSpace env path =
    (case ev_statfs env path of
       Inl e \<Rightarrow> Inl e
     | Inr (bavail, blocks, bsize) \<Rightarrow>
       Inr (wrap64 (wrap64 bavail * bsize), wrap64 (wrap64 blocks * bsize)))"

datatype 'ix rec_option =
    WithDefaultRecording string
  | WithMetricsCollector

fun apply_option :: "'ix rec_option \<Rightarrow> 'ix RecordingManager \<Rightarrow> 'ix RecordingManager" where
  "apply_option (WithDefaultRecording storagePath) rm =
    rm\<lparr>rm_hasChannels := True, rm_defaultStoragePath := storagePath\<rparr>"
| "apply_option WithMetricsCollector rm = rm\<lparr>rm_hasCollector := True\<rparr>"

definition New :: "'ix \<Rightarrow> duration \<Rightarrow> string set \<Rightarrow> 'ix rec_option list \<Rightarrow> 'ix RecordingManager" where
  "New index pollInterval files opts =
    fold apply_option opts
      \<lparr>rm_index = index, rm_pollInterval = (if pollInterval \<le> 0 then 30 * Second else pollInterval),
       rm_hasChannels = False, rm_defaultStoragePath = [], rm_active = [], rm_ringBuffers = [],
       rm_failedStart = Map.empty, rm_lastRetention = zero_time, rm_hasCollector = False,
       rm_closedHandles = [], rm_files = files, rm_throughput = []\<rparr>"

definition SetMetricsCollector :: "'ix RecordingManager \<Rightarrow> 'ix RecordingManager" where
  "SetMetricsCollector rm = rm\<lparr>rm_hasCollector := True\<rparr>"

text \<open>A failure to seal is logged only.\<close>

definition Start :: "'ix rec_env \<Rightarrow> 'ix RecordingManager \<Rightarrow> 'ix RecordingManager" where
  "Start env rm = rm\<lparr>rm_index := snd (ix_SealInterrupted (ev_ops env) (rm_index rm))\<rparr>"

subsection \<open>Retention\<close>

definition hasRetentionPolicy :: "Schedule \<Rightarrow> bool" where
  "hasRetentionPolicy s \<longleftrightarrow> sc_MaxAgeDays s > 0 \<or> sc_MaxStorageGB s > 0 \<or> sc_ContinuousDays s > 0
     \<or> sc_MotionDays s > 0 \<or> sc_ObjectDays s > 0 \<or> sc_MinFreeGB s > 0"

definition deleteSegment ::
  "'ix rec_env \<Rightarrow> RecordingEntry \<Rightarrow> 'ix RecordingManager \<Rightarrow> 'ix RecordingManager" where
  "deleteSegment env e rm =
    (case ix_Delete (ev_ops env) (re_ID e) (rm_index rm) of
       (Inl err, ix) \<Rightarrow> rm\<lparr>rm_index := ix\<rparr>
     | (Inr _, ix) \<Rightarrow>
       (case ev_Remove env (re_FilePath e) of
          Some err \<Rightarrow> rm\<lparr>rm_index := ix\<rparr>
        | None \<Rightarrow> rm\<lparr>rm_index := ix, rm_files := rm_files rm - {re_FilePath e}\<rparr>))"

definition retention_policy :: "Schedule \<Rightarrow> int \<Rightarrow> RetentionPolicy" where
  "retention_policy s diskFree =
    \<lparr>rp_ContinuousDays = (if sc_ContinuousDays s = 0 \<and> sc_MaxAgeDays s > 0
                          then sc_MaxAgeDays s else sc_ContinuousDays s),
     rp_MotionDays = sc_MotionDays s, rp_ObjectDays = sc_ObjectDays s,
     rp_MaxStorageGB = sc_MaxStorageGB s, rp_MinFreeGB = sc_MinFreeGB s,
     rp_DiskFreeBytes = diskFree\<rparr>"

definition disk_free :: "'ix rec_env \<Rightarrow> Schedule \<Rightarrow> int" where
  "disk_free env s =
    (if sc_MinFreeGB s > 0
     then (case CheckDiskSpace env (sc_StoragePath s) of Inr (free, _) \<Rightarrow> free | Inl _ \<Rightarrow> 0)
     else 0)"

definition disk_critical :: "'ix rec_env \<Rightarrow> Schedule \<Rightarrow> bool" where
  "disk_critical env s \<longleftrightarrow> sc_MinFreeGB s > 0 \<and> disk_free env s > 0
     \<and> disk_free env s < int64_of_float (sc_MinFreeGB s * of_int bytesPerGB)"

text \<open>The entries one pass deletes: what the policy flags, cut to ten unless the disk is critical.\<close>

definition retention_batch ::
  "'ix rec_env \<Rightarrow> Schedule \<Rightarrow> instant \<Rightarrow> RecordingEntry list \<Rightarrow> RecordingEntry list" where
  "retention_batch env s now entries =
    (let toDelete = EvaluateRetention entries (retention_policy s (disk_free env s)) now
     in if \<not> disk_critical env s \<and> length toDelete > 10 then take 10 toDelete else toDelete)"

definition enforceRetention ::
  "'ix rec_env \<Rightarrow> Schedule \<Rightarrow> instant \<Rightarrow> 'ix RecordingManager \<Rightarrow> 'ix RecordingManager" where
  "enforceRetention env s now rm =
    (case ix_QueryByChannel (ev_ops env) (sc_ChannelID s) zero_time zero_time (rm_index rm) of
       (Inl _, ix) \<Rightarrow> rm\<lparr>rm_index := ix\<rparr>
     | (Inr entries, ix) \<Rightarrow>
       (let toDelete = retention_batch env s now entries;
            rm = fold (deleteSegment env) toDelete (rm\<lparr>rm_index := ix\<rparr>)
        in if length toDelete > 0 then rm\<lparr>rm_lastRetention := now\<rparr> else rm))"

definition checkDiskSpace ::
  "'ix rec_env \<Rightarrow> Schedule \<Rightarrow> instant \<Rightarrow> 'ix RecordingManager \<Rightarrow> 'ix RecordingManager" where
  "checkDiskSpace env s now rm =
    (case CheckDiskSpace env (sc_StoragePath s) of
       Inl _ \<Rightarrow> rm
     | Inr (avail, _) \<Rightarrow>
       (let rm1 = (if sc_LowFreeGB s > 0 \<and> avail < int64_of_float (sc_LowFreeGB s * of_int bytesPerGB)
                   then enforceRetention env s now (enforceRetention env s now rm) else rm)
        in if sc_MinFreeGB s > 0 \<and> avail < int64_of_float (sc_MinFreeGB s * of_int bytesPerGB)
           then enforceRetention env s now rm1 else rm1))"

subsection \<open>Segments\<close>

definition entry_id :: "Schedule \<Rightarrow> instant \<Rightarrow> string" where
  "entry_id s t = ''recorder-'' @ sc_ID s @ ''-'' @ fmt_compact_ms t"

definition completion_entry :: "Schedule \<Rightarrow> SegmentCloseInfo \<Rightarrow> string \<Rightarrow> RecordingEntry" where
  "completion_entry s info finalPath =
    \<lparr>re_ID = entry_id s (ci_Start info), re_ChannelID = sc_ChannelID s, re_StartTime = ci_Start info,
     re_EndTime = ci_End info, re_FilePath = finalPath, re_SizeBytes = ci_SizeBytes info,
     re_Status = (if ci_ValidationError info \<noteq> None then StatusCorrupted else StatusComplete),
     re_HasMotion = ci_HasMotion info, re_HasObjects = ci_HasObjects info, re_HasEvents = False\<rparr>"

definition makeOnCloseCallback ::
  "'ix rec_env \<Rightarrow> Schedule \<Rightarrow> SegmentCloseInfo \<Rightarrow> 'ix RecordingManager \<Rightarrow> 'ix RecordingManager" where
  "makeOnCloseCallback env s info rm =
    (let renamed = SegmentPathFinal (sc_StoragePath s) (sc_ChannelID s) (ci_Start info) (ci_End info);
         (finalPath, files) =
           (case ev_Rename env (ci_Path info) renamed of
              Some _ \<Rightarrow> (ci_Path info, rm_files rm)
            | None \<Rightarrow> (renamed, insert renamed (rm_files rm - {ci_Path info})));
         entry = completion_entry s info finalPath;
         ix = snd (ix_Insert (ev_ops env) entry (rm_index rm));
         dur = rat_of_int (time_Sub (ci_End info) (ci_Start info)) / of_int Second;
         report = (if rm_hasCollector rm \<and> re_Status entry = StatusComplete \<and> ci_SizeBytes info > 0
                      \<and> dur > 0
                   then [(rat_of_int (ci_SizeBytes info) * 8 / dur, sc_ChannelID s)] else [])
     in rm\<lparr>rm_files := files, rm_index := ix, rm_throughput := rm_throughput rm @ report\<rparr>)"

definition segmentPreallocBytes :: "Schedule \<Rightarrow> int" where
  "segmentPreallocBytes s =
    (if sc_SegmentSizeMB s > 0 then wrap64 (sc_SegmentSizeMB s * 1024 * 1024)
     else if sc_SegmentMinutes s > 0 then wrap64 (sc_SegmentMinutes s * 60 * 1200000)
     else 0)"

definition marker_entry :: "Schedule \<Rightarrow> instant \<Rightarrow> RecordingEntry" where
  "marker_entry s segStart =
    \<lparr>re_ID = entry_id s segStart, re_ChannelID = sc_ChannelID s, re_StartTime = segStart,
     re_EndTime = zero_time,
     re_FilePath = SegmentPath (sc_StoragePath s) (sc_ChannelID s) segStart, re_SizeBytes = 0,
     re_Status = StatusRecording, re_HasMotion = False, re_HasObjects = False, re_HasEvents = False\<rparr>"

text \<open>
  The muxer factory runs at a time \<open>segStart\<close> the SDK chooses, with the ring buffer its
  \<open>startSegment\<close> got; a muxer that \<^verbatim>\<open>segment.NewSegmentMuxer\<close> returns has created its file. A failed
  insert of the marker is logged only.
\<close>

definition muxerFactory ::
  "'ix rec_env \<Rightarrow> Schedule \<Rightarrow> duration option \<Rightarrow> instant \<Rightarrow> 'ix RecordingManager
     \<Rightarrow> nat result \<times> 'ix RecordingManager" where
  "muxerFactory env s ring segStart rm =
    (let segPath = SegmentPath (sc_StoragePath s) (sc_ChannelID s) segStart;
         profile = (if sc_StorageProfile s = [] then ev_ProfileAuto env else sc_StorageProfile s);
         maxBytes = (if sc_SegmentSizeMB s > 0 then wrap64 (sc_SegmentSizeMB s * 1024 * 1024) else 0)
     in case ev_NewSegmentMuxer env segPath segStart profile maxBytes (segmentPreallocBytes s) ring of
          Inl err \<Rightarrow> (Inl err, rm)
        | Inr mux \<Rightarrow>
            (Inr mux, rm\<lparr>rm_index := snd (ix_Insert (ev_ops env) (marker_entry s segStart) (rm_index rm)),
                         rm_files := insert segPath (rm_files rm)\<rparr>))"

definition getOrCreateRingBuffer ::
  "Schedule \<Rightarrow> 'ix RecordingManager \<Rightarrow> duration option \<times> 'ix RecordingManager" where
  "getOrCreateRingBuffer s rm =
    (if sc_RingBufferSeconds s \<le> 0 then (None, rm)
     else case map_of (rm_ringBuffers rm) (sc_ChannelID s) of
       Some rb \<Rightarrow> (Some rb, rm)
     | None \<Rightarrow>
       (let rb = wrap64 (sc_RingBufferSeconds s * Second)
        in (Some rb, rm\<lparr>rm_ringBuffers := AList.update (sc_ChannelID s) rb (rm_ringBuffers rm)\<rparr>)))"

definition registerActiveSegment ::
  "Schedule \<Rightarrow> instant \<Rightarrow> nat \<Rightarrow> nat option \<Rightarrow> 'ix RecordingManager \<Rightarrow> 'ix RecordingManager" where
  "registerActiveSegment s now handle muxerRef rm =
    rm\<lparr>rm_active := AList.update (sc_ID s)
         \<lparr>ar_sched = s, ar_handle = handle, ar_muxer = muxerRef, ar_startTime = now\<rparr> (rm_active rm)\<rparr>"

definition startSegment ::
  "'ix rec_env \<Rightarrow> Schedule \<Rightarrow> instant \<Rightarrow> 'ix RecordingManager \<Rightarrow> 'ix RecordingManager" where
  "startSegment env s now rm =
    (let consumerID = ''recorder-'' @ sc_ID s @ ''-'' @ fmt_compact now;
         (ring, rm) = getOrCreateRingBuffer s rm
     in case ev_Consume env (sc_ChannelID s) consumerID of
          Inl err \<Rightarrow> rm\<lparr>rm_failedStart := (rm_failedStart rm)(sc_ID s \<mapsto> error_string err)\<rparr>
        | Inr (handle, muxerRef) \<Rightarrow>
            registerActiveSegment s now handle muxerRef
              (rm\<lparr>rm_failedStart := (rm_failedStart rm)(sc_ID s := None)\<rparr>))"

definition closeHandle :: "activeRec \<Rightarrow> 'ix RecordingManager \<Rightarrow> 'ix RecordingManager" where
  "closeHandle ar rm = rm\<lparr>rm_closedHandles := rm_closedHandles rm @ [ar_handle ar]\<rparr>"

definition rotateSegment ::
  "'ix rec_env \<Rightarrow> activeRec \<Rightarrow> Schedule \<Rightarrow> instant \<Rightarrow> 'ix RecordingManager \<Rightarrow> 'ix RecordingManager" where
  "rotateSegment env ar s now rm =
    startSegment env s now
      (closeHandle ar (rm\<lparr>rm_active := AList.delete (sc_ID s) (rm_active rm)\<rparr>))"

subsection \<open>The poll loop\<close>

definition processSchedule ::
  "'ix rec_env \<Rightarrow> instant \<Rightarrow> Schedule \<Rightarrow> 'ix RecordingManager \<Rightarrow> 'ix RecordingManager" where
  "processSchedule env now s rm =
    (let rm = (if sc_MinFreeGB s > 0 \<or> sc_LowFreeGB s > 0 then checkDiskSpace env s now rm else rm)
     in case map_of (rm_active rm) (sc_ID s) of
       None \<Rightarrow>
         (case (if sc_MinFreeGB s > 0 then CheckDiskSpace env (sc_StoragePath s)
                else Inl (ErrorString [])) of
            Inr (avail, _) \<Rightarrow>
              if avail < int64_of_float (sc_MinFreeGB s * 1024 * 1024 * 1024) then rm
              else startSegment env s now rm
          | Inl _ \<Rightarrow> startSegment env s now rm)
     | Some ar \<Rightarrow>
         if sc_SegmentMinutes s > 0
            \<and> time_Sub now (ar_startTime ar) \<ge> wrap64 (sc_SegmentMinutes s * Minute)
         then rotateSegment env ar s now rm
         else (case ar_muxer ar of
                 Some m \<Rightarrow>
                   if sc_SegmentSizeMB s > 0
                      \<and> ev_BytesWritten env m \<ge> wrap64 (sc_SegmentSizeMB s * 1024 * 1024)
                   then rotateSegment env ar s now rm else rm
               | None \<Rightarrow> rm))"

definition defaultSegmentMinutes :: int where "defaultSegmentMinutes = 5"

definition default_schedule :: "string \<Rightarrow> string \<Rightarrow> Schedule" where
  "default_schedule path ch =
    \<lparr>sc_ID = ''default-'' @ ch, sc_ChannelID = ch, sc_StoragePath = path,
     sc_SegmentMinutes = defaultSegmentMinutes, sc_SegmentSizeMB = 0, sc_RingBufferSeconds = 0,
     sc_StorageProfile = [], sc_MaxAgeDays = 0, sc_MaxStorageGB = 0, sc_ContinuousDays = 0, sc_MotionDays = 0,
     sc_ObjectDays = 0, sc_MinFreeGB = 0, sc_LowFreeGB = 0, sc_StartAt = zero_time, sc_EndAt = zero_time,
     sc_DaysOfWeek = []\<rparr>"

definition appendDefaults ::
  "'ix rec_env \<Rightarrow> 'ix RecordingManager \<Rightarrow> Schedule list \<Rightarrow> Schedule list" where
  "appendDefaults env rm schedules =
    (if \<not> rm_hasChannels rm then schedules
     else case ev_ListChannels env of
       Inl _ \<Rightarrow> schedules
     | Inr channels \<Rightarrow>
       (let covered = sc_ChannelID ` set schedules
        in schedules @ map (default_schedule (rm_defaultStoragePath rm))
                         (filter (\<lambda>ch. ch \<notin> covered) channels)))"

definition closeStale :: "string set \<Rightarrow> 'ix RecordingManager \<Rightarrow> 'ix RecordingManager" where
  "closeStale activeIDs rm =
    (let stale = filter (\<lambda>(i, ar). i \<notin> activeIDs) (rm_active rm)
     in fold (\<lambda>(i, ar). closeHandle ar) stale
          (rm\<lparr>rm_active := filter (\<lambda>(i, ar). i \<in> activeIDs) (rm_active rm)\<rparr>))"

definition active_schedules :: "'ix rec_env \<Rightarrow> instant \<Rightarrow> Schedule list \<Rightarrow> Schedule list" where
  "active_schedules env now schedules = filter (\<lambda>s. ev_IsActive env s now) schedules"

definition tick :: "'ix rec_env \<Rightarrow> 'ix RecordingManager \<Rightarrow> 'ix RecordingManager" where
  "tick env rm =
    (case ev_ListSchedules env of
       Inl _ \<Rightarrow> rm
     | Inr listed \<Rightarrow>
       (let schedules = appendDefaults env rm listed;
            now = ev_now env;
            active = active_schedules env now schedules;
            rm1 = fold (processSchedule env now) active rm;
            rm2 = closeStale (sc_ID ` set active) rm1
        in fold (\<lambda>s rm. if hasRetentionPolicy s then enforceRetention env s now rm else rm)
             schedules rm2))"

definition stopAll :: "'ix RecordingManager \<Rightarrow> 'ix RecordingManager" where
  "stopAll rm = fold (\<lambda>(i, ar). closeHandle ar) (rm_active rm) (rm\<lparr>rm_active := []\<rparr>)"

subsection \<open>Observers\<close>

definition ActiveCount :: "'ix RecordingManager \<Rightarrow> nat" where
  "ActiveCount rm = length (rm_active rm)"

definition ActiveChannels :: "'ix RecordingManager \<Rightarrow> string set" where
  "ActiveChannels rm = (\<lambda>(i, ar). sc_ChannelID (ar_sched ar)) ` set (rm_active rm)"

definition RingBuffer :: "'ix RecordingManager \<Rightarrow> string \<Rightarrow> duration option" where
  "RingBuffer rm channelID = map_of (rm_ringBuffers rm) channelID"

record ChannelStats =
  cs_Segments :: int
  cs_TotalBytes :: int
  cs_OldestSegment :: instant
  cs_NewestSegment :: instant
  cs_Recording :: bool
  cs_RingBufBytes :: int

record Metrics =
  me_ActiveSegments :: nat
  me_TotalSegments :: nat
  me_TotalSizeBytes :: int
  me_DiskFreeBytes :: int
  me_DiskTotalBytes :: int
  me_PerChannel :: "string \<rightharpoonup> ChannelStats"
  me_LastRetention :: instant

definition zero_stats :: ChannelStats where
  "zero_stats = \<lparr>cs_Segments = 0, cs_TotalBytes = 0, cs_OldestSegment = zero_time,
     cs_NewestSegment = zero_time, cs_Recording = False, cs_RingBufBytes = 0\<rparr>"

definition add_segment ::
  "string set \<Rightarrow> (string \<rightharpoonup> int) \<Rightarrow> RecordingEntry \<Rightarrow> ChannelStats \<Rightarrow> ChannelStats" where
  "add_segment activeChannels ringBufSizes e cs =
    \<lparr>cs_Segments = cs_Segments cs + 1, cs_TotalBytes = wrap64 (cs_TotalBytes cs + re_SizeBytes e),
     cs_OldestSegment = (if cs_OldestSegment cs = zero_time \<or> re_StartTime e < cs_OldestSegment cs
                         then re_StartTime e else cs_OldestSegment cs),
     cs_NewestSegment = (if re_StartTime e > cs_NewestSegment cs
                         then re_StartTime e else cs_NewestSegment cs),
     cs_Recording = (re_ChannelID e \<in> activeChannels),
     cs_RingBufBytes = (case ringBufSizes (re_ChannelID e) of Some n \<Rightarrow> n | None \<Rightarrow> 0)\<rparr>"

definition add_entry_stats ::
  "string set \<Rightarrow> (string \<rightharpoonup> int) \<Rightarrow> RecordingEntry \<Rightarrow> (string \<rightharpoonup> ChannelStats) \<times> int
     \<Rightarrow> (string \<rightharpoonup> ChannelStats) \<times> int" where
  "add_entry_stats activeChannels ringBufSizes e acc =
    (case acc of (perChannel, totalSize) \<Rightarrow>
       let cs = (case perChannel (re_ChannelID e) of Some c \<Rightarrow> c | None \<Rightarrow> zero_stats)
       in (perChannel(re_ChannelID e \<mapsto> add_segment activeChannels ringBufSizes e cs),
           wrap64 (totalSize + re_SizeBytes e)))"

definition buildPerChannelStats ::
  "RecordingEntry list \<Rightarrow> string set \<Rightarrow> (string \<rightharpoonup> int) \<Rightarrow> (string \<rightharpoonup> ChannelStats) \<times> int" where
  "buildPerChannelStats entries activeChannels ringBufSizes =
    fold (add_entry_stats activeChannels ringBufSizes) entries (Map.empty, 0)"

text \<open>\<open>ringBytes\<close> is the byte count of the SDK's ring buffer of a channel.\<close>

definition Metrics_of ::
  "'ix rec_env \<Rightarrow> (string \<Rightarrow> int) \<Rightarrow> 'ix RecordingManager \<Rightarrow> Metrics \<times> 'ix RecordingManager" where
  "Metrics_of env ringBytes rm =
    (let ringBufSizes = (\<lambda>ch. if ch \<in> fst ` set (rm_ringBuffers rm) then Some (ringBytes ch) else None);
         (q, ix) = ix_QueryAllChannels (ev_ops env) zero_time zero_time (rm_index rm);
         allEntries = (case q of Inr es \<Rightarrow> es | Inl _ \<Rightarrow> []);
         (perChannel, totalSize) = buildPerChannelStats allEntries (ActiveChannels rm) ringBufSizes;
         (diskFree, diskTotal) =
           (case rm_active rm of
              [] \<Rightarrow> (0, 0)
            | (i, ar) # _ \<Rightarrow> (case CheckDiskSpace env (sc_StoragePath (ar_sched ar)) of
                                Inr d \<Rightarrow> d | Inl _ \<Rightarrow> (0, 0)))
     in (\<lparr>me_ActiveSegments = length (rm_active rm), me_TotalSegments = length allEntries,
          me_TotalSizeBytes = totalSize, me_DiskFreeBytes = diskFree, me_DiskTotalBytes = diskTotal,
          me_PerChannel = perChannel, me_LastRetention = rm_lastRetention rm\<rparr>,
         rm\<lparr>rm_index := ix\<rparr>))"

lemma find_key_unique: "distinct (map f xs) \<Longrightarrow> x \<in> set xs \<Longrightarrow> find (\<lambda>y. f y = f x) xs = Some x"
  by (induction xs) (auto simp: image_iff)

subsection \<open>What a tick does to the active recordings\<close>

lemma deleteSegment_frame [simp]:
  "rm_active (deleteSegment env e rm) = rm_active rm"
  "rm_closedHandles (deleteSegment env e rm) = rm_closedHandles rm"
  by (auto simp: deleteSegment_def split: prod.split sum.split option.split)

lemma fold_deleteSegment_frame [simp]:
  "rm_active (fold (deleteSegment env) es rm) = rm_active rm"
  "rm_closedHandles (fold (deleteSegment env) es rm) = rm_closedHandles rm"
  by (induction es arbitrary: rm) auto

lemma enforceRetention_frame [simp]:
  "rm_active (enforceRetention env s now rm) = rm_active rm"
  "rm_closedHandles (enforceRetention env s now rm) = rm_closedHandles rm"
  by (auto simp: enforceRetention_def Let_def split: prod.split sum.split)

lemma checkDiskSpace_frame [simp]:
  "rm_active (checkDiskSpace env s now rm) = rm_active rm"
  by (auto simp: checkDiskSpace_def Let_def split: prod.split sum.split)

lemma getOrCreateRingBuffer_frame [simp]:
  "rm_active (snd (getOrCreateRingBuffer s rm)) = rm_active rm"
  by (auto simp: getOrCreateRingBuffer_def Let_def split: option.split)

lemma closeHandle_frame [simp]: "rm_active (closeHandle ar rm) = rm_active rm"
  by (simp add: closeHandle_def)

lemma fold_closeHandle [simp]:
  "rm_active (fold (\<lambda>(i, ar). closeHandle ar) xs rm) = rm_active rm"
  "rm_closedHandles (fold (\<lambda>(i, ar). closeHandle ar) xs rm)
     = rm_closedHandles rm @ map (\<lambda>(i, ar). ar_handle ar) xs"
  by (induction xs arbitrary: rm) (auto simp: closeHandle_def split: prod.split)

lemma map_of_filter_key: "map_of (filter (\<lambda>(i, x). P i) xs) i = (if P i then map_of xs i else None)"
  by (induction xs) auto

text \<open>
  The specification of one schedule's slot: start when there is no recording and the disk allows
  it, rotate when the recording is due, keep it otherwise.
\<close>

definition started :: "'ix rec_env \<Rightarrow> instant \<Rightarrow> Schedule \<Rightarrow> activeRec option" where
  "started env now s =
    (case ev_Consume env (sc_ChannelID s) (''recorder-'' @ sc_ID s @ ''-'' @ fmt_compact now) of
       Inl _ \<Rightarrow> None
     | Inr (h, m) \<Rightarrow> Some \<lparr>ar_sched = s, ar_handle = h, ar_muxer = m, ar_startTime = now\<rparr>)"

definition disk_too_low :: "'ix rec_env \<Rightarrow> Schedule \<Rightarrow> bool" where
  "disk_too_low env s \<longleftrightarrow> sc_MinFreeGB s > 0 \<and>
     (case CheckDiskSpace env (sc_StoragePath s) of
        Inr (avail, _) \<Rightarrow> avail < int64_of_float (sc_MinFreeGB s * 1024 * 1024 * 1024) | Inl _ \<Rightarrow> False)"

definition rotation_due :: "'ix rec_env \<Rightarrow> instant \<Rightarrow> Schedule \<Rightarrow> activeRec \<Rightarrow> bool" where
  "rotation_due env now s ar \<longleftrightarrow>
     sc_SegmentMinutes s > 0 \<and> time_Sub now (ar_startTime ar) \<ge> wrap64 (sc_SegmentMinutes s * Minute)
     \<or> sc_SegmentSizeMB s > 0 \<and> (\<exists>m. ar_muxer ar = Some m
         \<and> ev_BytesWritten env m \<ge> wrap64 (sc_SegmentSizeMB s * 1024 * 1024))"

definition slot :: "'ix rec_env \<Rightarrow> instant \<Rightarrow> Schedule \<Rightarrow> activeRec option \<Rightarrow> activeRec option" where
  "slot env now s old =
    (case old of
       None \<Rightarrow> if disk_too_low env s then None else started env now s
     | Some ar \<Rightarrow> if rotation_due env now s ar then started env now s else Some ar)"

lemma startSegment_active:
  assumes "map_of (rm_active rm) (sc_ID s) = None"
  shows "map_of (rm_active (startSegment env s now rm)) = (map_of (rm_active rm))(sc_ID s := started env now s)"
proof -
  obtain ring rm1 where g: "getOrCreateRingBuffer s rm = (ring, rm1)" by force
  then have "rm_active rm1 = rm_active rm" using getOrCreateRingBuffer_frame [of s rm] by simp
  with g assms show ?thesis
    by (auto simp: startSegment_def started_def registerActiveSegment_def update_conv' fun_eq_iff
        split: sum.split)
qed

lemma rotateSegment_active:
  "map_of (rm_active (rotateSegment env ar s now rm)) = (map_of (rm_active rm))(sc_ID s := started env now s)"
  by (simp add: rotateSegment_def startSegment_active delete_conv')

lemma processSchedule_active:
  "map_of (rm_active (processSchedule env now s rm)) =
    (map_of (rm_active rm))(sc_ID s := slot env now s (map_of (rm_active rm) (sc_ID s)))"
proof -
  define rm1 where "rm1 = (if sc_MinFreeGB s > 0 \<or> sc_LowFreeGB s > 0 then checkDiskSpace env s now rm else rm)"
  have a: "rm_active rm1 = rm_active rm" by (simp add: rm1_def)
  show ?thesis
  proof (cases "map_of (rm_active rm) (sc_ID s)")
    case None
    then have "map_of (rm_active rm1) (sc_ID s) = None" by (simp add: a)
    with None show ?thesis
      unfolding processSchedule_def rm1_def [symmetric] Let_def
      by (auto simp: startSegment_active slot_def disk_too_low_def a fun_eq_iff
          split: sum.split prod.split)
  next
    case (Some ar)
    then have "map_of (rm_active rm1) (sc_ID s) = Some ar" by (simp add: a)
    with Some show ?thesis
      unfolding processSchedule_def rm1_def [symmetric] Let_def
      by (auto simp: rotateSegment_active slot_def rotation_due_def a fun_eq_iff split: option.split)
  qed
qed

lemma fold_processSchedule_active:
  assumes "distinct (map sc_ID ss)"
  shows "map_of (rm_active (fold (processSchedule env now) ss rm)) i =
    (case find (\<lambda>s. sc_ID s = i) ss of None \<Rightarrow> map_of (rm_active rm) i
     | Some s \<Rightarrow> slot env now s (map_of (rm_active rm) i))"
  using assms
proof (induction ss arbitrary: rm)
  case (Cons s ss)
  have "find (\<lambda>s. sc_ID s = i) ss = None" if "sc_ID s = i"
    using Cons.prems that by (auto simp: find_None_iff) (metis image_eqI)
  with Cons show ?case by (auto simp: processSchedule_active split: option.split)
qed simp

lemma closeStale_active:
  "map_of (rm_active (closeStale ids rm)) i = (if i \<in> ids then map_of (rm_active rm) i else None)"
  by (simp add: closeStale_def map_of_filter_key)

lemma fold_retention_active:
  "rm_active (fold (\<lambda>s rm. if hasRetentionPolicy s then enforceRetention env s now rm else rm) ss rm) = rm_active rm"
  by (induction ss arbitrary: rm) auto

lemma tick_active_map:
  assumes "ev_ListSchedules env = Inr listed"
    and "ss = active_schedules env (ev_now env) (appendDefaults env rm listed)"
    and "distinct (map sc_ID ss)"
  shows "map_of (rm_active (tick env rm)) i =
    (case find (\<lambda>s. sc_ID s = i) ss of
       None \<Rightarrow> None
     | Some s \<Rightarrow> slot env (ev_now env) s (map_of (rm_active rm) i))"
proof -
  have "map_of (rm_active (tick env rm)) i =
      (if i \<in> sc_ID ` set ss then map_of (rm_active (fold (processSchedule env (ev_now env)) ss rm)) i else None)"
    using assms(1,2) by (simp add: tick_def Let_def fold_retention_active closeStale_active)
  moreover have "(i \<in> sc_ID ` set ss) = (find (\<lambda>s. sc_ID s = i) ss \<noteq> None)"
    by (auto simp: find_None_iff)
  ultimately show ?thesis
    by (auto simp: fold_processSchedule_active [OF assms(3)] split: option.split)
qed


definition sched0 :: Schedule where
  "sched0 = \<lparr>sc_ID = ''s'', sc_ChannelID = ''c'', sc_StoragePath = ''/rec'', sc_SegmentMinutes = 5,
     sc_SegmentSizeMB = 0, sc_RingBufferSeconds = 0, sc_StorageProfile = [], sc_MaxAgeDays = 0,
     sc_MaxStorageGB = 0, sc_ContinuousDays = 0, sc_MotionDays = 0, sc_ObjectDays = 0,
     sc_MinFreeGB = 0, sc_LowFreeGB = 0, sc_StartAt = zero_time, sc_EndAt = zero_time,
     sc_DaysOfWeek = []\<rparr>"

definition rec_env0 :: "sqliteIndex rec_env" where
  "rec_env0 = \<lparr>ev_ops = sqlite_ops env0, ev_ListSchedules = Inr [sched0], ev_ListChannels = Inr [''c'', ''d''],
     ev_now = 7, ev_IsActive = (\<lambda>_ _. True), ev_statfs = (\<lambda>_. Inr (10, 20, 4096)), ev_ProfileAuto = ''auto'',
     ev_NewSegmentMuxer = (\<lambda>_ _ _ _ _ _. Inr 1), ev_Consume = (\<lambda>ch _. Inr (length ch, None)),
     ev_BytesWritten = (\<lambda>_. 0), ev_Rename = (\<lambda>_ _. None), ev_Remove = (\<lambda>_. None)\<rparr>"

definition manager0 :: "sqliteIndex RecordingManager" where
  "manager0 = New index1 0 {''f'', ''g''} [WithDefaultRecording ''/rec'']"

lemma active0: "active_schedules rec_env0 7 (appendDefaults rec_env0 manager0 [sched0])
    = [sched0, default_schedule ''/rec'' ''d'']"
  by (simp add: active_schedules_def appendDefaults_def rec_env0_def manager0_def New_def sched0_def)


text \<open>
  After a tick, no recording of an active schedule is as old as the schedule's segment length.
\<close>

theorem tick_bounds_segment_age:
  assumes "ev_ListSchedules env = Inr listed"
    and "ss = active_schedules env (ev_now env) (appendDefaults env rm listed)"
    and "distinct (map sc_ID ss)" "s \<in> set ss" "0 < sc_SegmentMinutes s" "sc_SegmentMinutes s * Minute < 2 ^ 63"
    and "map_of (rm_active (tick env rm)) (sc_ID s) = Some ar"
  shows "time_Sub (ev_now env) (ar_startTime ar) < sc_SegmentMinutes s * Minute"
proof -
  have "find (\<lambda>x. sc_ID x = sc_ID s) ss = Some s" using assms(3,4) by (simp add: find_key_unique)
  then have slot: "slot env (ev_now env) s (map_of (rm_active rm) (sc_ID s)) = Some ar"
    using tick_active_map [OF assms(1-3), of "sc_ID s"] assms(7) by simp
  have pos: "0 < sc_SegmentMinutes s * Minute" using assms(5) by (simp add: Minute_def Second_def)
  with assms(6) have w: "wrap64 (sc_SegmentMinutes s * Minute) = sc_SegmentMinutes s * Minute"
    by (simp add: fits64_def)
  show ?thesis
  proof (cases "map_of (rm_active rm) (sc_ID s) = Some ar \<and> \<not> rotation_due env (ev_now env) s ar")
    case True
    then show ?thesis using assms(5) w by (auto simp: rotation_due_def)
  next
    case False
    with slot have "ar_startTime ar = ev_now env"
      by (auto simp: slot_def started_def split: option.splits if_splits sum.splits)
    with pos show ?thesis by (simp add: time_Sub_def)
  qed
qed

lemma tick_bounds_segment_age_witness:
  "\<exists>ar. map_of (rm_active (tick rec_env0 manager0)) ''s'' = Some ar \<and> time_Sub 7 (ar_startTime ar) < 5 * Minute"
proof -
  have d: "distinct (map sc_ID [sched0, default_schedule ''/rec'' ''d''])"
    by (simp add: sched0_def default_schedule_def)
  have e: "ev_ListSchedules rec_env0 = Inr [sched0]" "ev_now rec_env0 = 7" by (simp_all add: rec_env0_def)
  have "map_of (rm_active (tick rec_env0 manager0)) ''s'' = slot rec_env0 7 sched0 (map_of (rm_active manager0) ''s'')"
    using tick_active_map [OF e(1) active0 [folded e(2), symmetric] d, of "''s''"] e by (simp add: sched0_def)
  then obtain ar where ar: "map_of (rm_active (tick rec_env0 manager0)) ''s'' = Some ar"
    by (simp add: manager0_def New_def slot_def disk_too_low_def started_def sched0_def) (simp add: rec_env0_def)
  have "sc_ID sched0 = ''s''" "sc_SegmentMinutes sched0 = 5" by (simp_all add: sched0_def)
  then show ?thesis
    using tick_bounds_segment_age [OF e(1) active0 [folded e(2), symmetric] d, of sched0 ar] ar e(2)
    by (simp add: Minute_def Second_def)
qed

text \<open>
  With default recording enabled, every channel the source lists has a schedule, the explicit
  schedules come first and unchanged, and a channel with an explicit schedule gets no default one.
\<close>

theorem appendDefaults_covers:
  assumes "rm_hasChannels rm" "ev_ListChannels env = Inr channels"
  shows "set channels \<subseteq> sc_ChannelID ` set (appendDefaults env rm ss)
    \<and> take (length ss) (appendDefaults env rm ss) = ss
    \<and> (\<forall>s \<in> set (drop (length ss) (appendDefaults env rm ss)).
         sc_ChannelID s \<in> set channels - sc_ChannelID ` set ss \<and> sc_ID s = ''default-'' @ sc_ChannelID s
         \<and> sc_SegmentMinutes s = 5 \<and> sc_StoragePath s = rm_defaultStoragePath rm)"
proof -
  let ?new = "map (default_schedule (rm_defaultStoragePath rm)) (filter (\<lambda>ch. ch \<notin> sc_ChannelID ` set ss) channels)"
  have eq: "appendDefaults env rm ss = ss @ ?new" using assms by (simp add: appendDefaults_def)
  have ids: "sc_ChannelID (default_schedule p ch) = ch" for p ch by (simp add: default_schedule_def)
  have "set channels \<subseteq> sc_ChannelID ` set (ss @ ?new)"
    by (auto simp: image_Un image_image ids)
  moreover have "\<forall>s \<in> set ?new. sc_ChannelID s \<in> set channels - sc_ChannelID ` set ss
      \<and> sc_ID s = ''default-'' @ sc_ChannelID s \<and> sc_SegmentMinutes s = 5
      \<and> sc_StoragePath s = rm_defaultStoragePath rm"
    by (auto simp: default_schedule_def defaultSegmentMinutes_def)
  moreover have "take (length ss) (ss @ ?new) = ss" "drop (length ss) (ss @ ?new) = ?new" by simp_all
  ultimately show ?thesis unfolding eq by metis
qed

lemma appendDefaults_covers_witness:
  "{''c'', ''d''} \<subseteq> sc_ChannelID ` set (appendDefaults rec_env0 manager0 [sched0])"
  using appendDefaults_covers [of manager0 rec_env0 "[''c'', ''d'']" "[sched0]"]
  by (simp add: manager0_def New_def rec_env0_def)

text \<open>
  \<open>stopAll\<close> closes the handle of every active recording, each once, and leaves none active.
\<close>

theorem stopAll_closes:
  "rm_active (stopAll rm) = []
   \<and> rm_closedHandles (stopAll rm) = rm_closedHandles rm @ map (\<lambda>(i, ar). ar_handle ar) (rm_active rm)
   \<and> ActiveCount (stopAll rm) = 0"
  by (simp add: stopAll_def ActiveCount_def)

subsection \<open>Retention never takes the file of an entry that playback can see\<close>

text \<open>Identifiers belong to one channel and the files of playable entries to one entry.\<close>

definition ids_unique :: "index_view \<Rightarrow> bool" where
  "ids_unique v \<longleftrightarrow> (\<forall>ch ch' i. v ch i \<noteq> None \<and> v ch' i \<noteq> None \<longrightarrow> ch = ch')"

definition files_unique :: "index_view \<Rightarrow> bool" where
  "files_unique v \<longleftrightarrow> (\<forall>ch i e ch' i' e'. v ch i = Some e \<and> v ch' i' = Some e' \<and> playable e \<and> playable e'
     \<and> re_FilePath e = re_FilePath e' \<longrightarrow> ch = ch' \<and> i = i')"

definition files_present :: "index_view \<Rightarrow> string set \<Rightarrow> bool" where
  "files_present v files \<longleftrightarrow> (\<forall>ch i e. v ch i = Some e \<and> playable e \<longrightarrow> re_FilePath e \<in> files)"

lemma mark_deleted_Some:
  "mark_deleted ch i v ch' i' = Some e \<longleftrightarrow>
     (if ch' = ch \<and> i' = i then \<exists>x. v ch i = Some x \<and> e = x\<lparr>re_Status := StatusDeleted\<rparr> else v ch' i' = Some e)"
  by (auto simp: mark_deleted_def)

lemma mark_deleted_None: "mark_deleted ch i v ch' i' = None \<longleftrightarrow> v ch' i' = None"
  by (auto simp: mark_deleted_def)

lemma mark_deleted_absent: "v ch i = None \<Longrightarrow> mark_deleted ch i v = v"
  by (auto simp: mark_deleted_def fun_eq_iff)

lemma not_playable_deleted [simp]: "\<not> playable (e\<lparr>re_Status := StatusDeleted\<rparr>)"
  by (simp add: playable_def)

lemma mark_deleted_playable:
  "mark_deleted ch i v ch' i' = Some e \<and> playable e \<longleftrightarrow> v ch' i' = Some e \<and> playable e \<and> \<not> (ch' = ch \<and> i' = i)"
  by (auto simp: mark_deleted_Some)

lemma ids_unique_mark [simp]: "ids_unique (mark_deleted ch i v) = ids_unique v"
  by (simp add: ids_unique_def mark_deleted_None)

lemma files_unique_mark: "files_unique v \<Longrightarrow> files_unique (mark_deleted ch i v)"
  unfolding files_unique_def using mark_deleted_playable by metis

lemma files_present_mark: "files_present v files \<Longrightarrow> files_present (mark_deleted ch i v) files"
  unfolding files_present_def using mark_deleted_playable by metis

lemma files_present_remove:
  assumes "files_present v files" "files_unique v" "v ch i = Some e" "playable e"
  shows "files_present (mark_deleted ch i v) (files - {re_FilePath e})"
  using assms unfolding files_present_def files_unique_def using mark_deleted_playable by (metis DiffI singletonD)

lemma subseq_distinct: "subseq xs ys \<Longrightarrow> distinct ys \<Longrightarrow> distinct xs"
  by (induction rule: list_emb.induct) (auto dest: list_emb_set)

lemma subseq_set: "subseq xs ys \<Longrightarrow> set xs \<subseteq> set ys"
  by (auto dest: list_emb_set)

lemma subseq_take: "subseq (take n xs) xs"
  by (metis append_take_drop_id list_emb_append2 subseq_order.order_refl subseq_rev_drop_many)

lemma retention_batch_limits:
  "subseq (retention_batch env s now es) (EvaluateRetention es (retention_policy s (disk_free env s)) now)
   \<and> (disk_critical env s \<or> length (retention_batch env s now es) \<le> 10)"
  by (auto simp: retention_batch_def Let_def subseq_take)

lemma subseq_retention_batch: "subseq (retention_batch env s now es) es"
  using retention_batch_limits subseq_selected EvaluateRetention_eq subseq_order.order_trans by metis

context recording_index
begin

text \<open>One deletion, of an entry that the view holds in an opened channel.\<close>

lemma deleteSegment_safe:
  assumes env: "ev_ops env = ops" and "inv (rm_index rm)" "ch \<in> opened (rm_index rm)"
    and "ids_unique (view (rm_index rm))" "files_unique (view (rm_index rm))"
    and "files_present (view (rm_index rm)) (rm_files rm)"
    and "view (rm_index rm) ch (re_ID e) = Some e" "playable e"
  defines "rm' \<equiv> deleteSegment env e rm"
  shows "inv (rm_index rm') \<and> ch \<in> opened (rm_index rm')
    \<and> (view (rm_index rm') = view (rm_index rm) \<or> view (rm_index rm') = mark_deleted ch (re_ID e) (view (rm_index rm)))
    \<and> files_present (view (rm_index rm')) (rm_files rm')"
proof -
  let ?v = "view (rm_index rm)" and ?i = "re_ID e"
  obtain r ix where d: "ix_Delete ops ?i (rm_index rm) = (r, ix)" by force
  note law = delete_law [OF assms(2) d]
  have alone: "mark_deleted ch' ?i ?v = mark_deleted ch ?i ?v \<or> mark_deleted ch' ?i ?v = ?v" for ch'
  proof (cases "ch' = ch")
    case False
    then have "?v ch' ?i = None" using assms(4,7) unfolding ids_unique_def by (metis option.distinct(1))
    then show ?thesis by (simp add: mark_deleted_absent)
  qed simp
  have view: "view ix = ?v \<or> view ix = mark_deleted ch ?i ?v" using law alone by metis
  have ok: "view ix = mark_deleted ch ?i ?v" if nr: "\<not> isl r"
  proof -
    have "?v ch ?i \<noteq> None" using assms(7) by simp
    then obtain c where "?v c ?i \<noteq> None" "view ix = mark_deleted c ?i ?v"
      using law nr assms(3) by blast
    moreover from this have "c = ch" using assms(4,7) unfolding ids_unique_def by (metis option.distinct(1))
    ultimately show ?thesis by simp
  qed
  have rm': "rm_index rm' = ix" "rm_files rm' = rm_files rm \<or> \<not> isl r \<and> rm_files rm' = rm_files rm - {re_FilePath e}"
    using d by (auto simp: rm'_def deleteSegment_def env split: sum.split option.split)
  have "files_present (view ix) (rm_files rm')"
    using rm'(2) ok view files_present_remove [OF assms(6,5,7,8)] files_present_mark [OF assms(6)] assms(6)
    by auto
  with rm' law view assms(3) show ?thesis by auto
qed

lemma fold_deleteSegment_safe:
  assumes env: "ev_ops env = ops" and "inv (rm_index rm)" "ch \<in> opened (rm_index rm)"
    and "ids_unique (view (rm_index rm))" "files_unique (view (rm_index rm))"
    and "files_present (view (rm_index rm)) (rm_files rm)"
    and "distinct (map re_ID es)"
    and "\<forall>e \<in> set es. view (rm_index rm) ch (re_ID e) = Some e \<and> playable e"
  defines "rm' \<equiv> fold (deleteSegment env) es rm"
  shows "inv (rm_index rm') \<and> files_present (view (rm_index rm')) (rm_files rm')
    \<and> (\<forall>ch' i. \<not> (ch' = ch \<and> i \<in> re_ID ` set es) \<longrightarrow> view (rm_index rm') ch' i = view (rm_index rm) ch' i)"
  using assms(2-8) unfolding rm'_def
proof (induction es arbitrary: rm)
  case (Cons e es)
  let ?v = "view (rm_index rm)" and ?rm = "deleteSegment env e rm"
  have e: "?v ch (re_ID e) = Some e" "playable e" using Cons.prems(7) by auto
  note step = deleteSegment_safe [OF env Cons.prems(1-5) e]
  have v: "view (rm_index ?rm) = ?v \<or> view (rm_index ?rm) = mark_deleted ch (re_ID e) ?v" using step by blast
  then have u: "ids_unique (view (rm_index ?rm))" "files_unique (view (rm_index ?rm))"
    using Cons.prems(3,4) files_unique_mark by auto
  have other: "view (rm_index ?rm) ch' i = ?v ch' i" if "\<not> (ch' = ch \<and> i = re_ID e)" for ch' i
    using v that by (auto simp: mark_deleted_def)
  have rest: "\<forall>x \<in> set es. view (rm_index ?rm) ch (re_ID x) = Some x \<and> playable x"
  proof
    fix x assume "x \<in> set es"
    moreover from this have "re_ID x \<noteq> re_ID e" using Cons.prems(6) by (auto simp: image_iff)
    ultimately show "view (rm_index ?rm) ch (re_ID x) = Some x \<and> playable x" using other Cons.prems(7) by simp
  qed
  have "distinct (map re_ID es)" using Cons.prems(6) by simp
  with Cons.IH [of ?rm] step u rest
  have IH: "inv (rm_index (fold (deleteSegment env) es ?rm))"
    "files_present (view (rm_index (fold (deleteSegment env) es ?rm))) (rm_files (fold (deleteSegment env) es ?rm))"
    "\<forall>ch' i. \<not> (ch' = ch \<and> i \<in> re_ID ` set es) \<longrightarrow>
       view (rm_index (fold (deleteSegment env) es ?rm)) ch' i = view (rm_index ?rm) ch' i" by blast+
  then show ?case using other by (simp add: image_iff)
qed simp

lemma enforceRetention_safe:
  fixes s :: Schedule and now :: instant
  assumes env: "ev_ops env = ops" and "inv (rm_index rm)"
    and "ids_unique (view (rm_index rm))" "files_unique (view (rm_index rm))"
    and "files_present (view (rm_index rm)) (rm_files rm)"
  defines "rm' \<equiv> enforceRetention env s now rm"
  shows "inv (rm_index rm') \<and> files_present (view (rm_index rm')) (rm_files rm')
    \<and> (\<exists>entries batch. batch = retention_batch env s now entries
        \<and> (\<forall>e \<in> set entries. view (rm_index rm) (sc_ChannelID s) (re_ID e) = Some e \<and> playable e)
        \<and> (\<forall>ch i. \<not> (ch = sc_ChannelID s \<and> i \<in> re_ID ` set batch) \<longrightarrow>
             view (rm_index rm') ch i = view (rm_index rm) ch i))"
proof -
  let ?ch = "sc_ChannelID s"
  obtain q ix where q: "ix_QueryByChannel ops ?ch zero_time zero_time (rm_index rm) = (q, ix)" by force
  note law = query_law [OF assms(2) q]
  show ?thesis
  proof (cases q)
    case (Inl err)
    then have "rm' = rm\<lparr>rm_index := ix\<rparr>" using q by (simp add: rm'_def enforceRetention_def env)
    with law assms(5) show ?thesis by (auto intro!: exI [of _ "[]"])
  next
    case (Inr es)
    let ?b = "retention_batch env s now es" and ?rm = "rm\<lparr>rm_index := ix\<rparr>"
    have sub: "subseq ?b es" by (simp add: subseq_retention_batch)
    have es: "distinct (map re_ID es)" "\<forall>e \<in> set es. view (rm_index rm) ?ch (re_ID e) = Some e \<and> playable e"
      "?ch \<in> opened ix" using law Inr by auto
    have "distinct (map re_ID ?b)" using es(1) subseq_map [OF sub] subseq_distinct by metis
    moreover have "set ?b \<subseteq> set es" using sub by (simp add: subseq_set)
    ultimately have fold: "inv (rm_index (fold (deleteSegment env) ?b ?rm))
        \<and> files_present (view (rm_index (fold (deleteSegment env) ?b ?rm))) (rm_files (fold (deleteSegment env) ?b ?rm))
        \<and> (\<forall>ch' i. \<not> (ch' = ?ch \<and> i \<in> re_ID ` set ?b) \<longrightarrow>
             view (rm_index (fold (deleteSegment env) ?b ?rm)) ch' i = view (rm_index ?rm) ch' i)"
      using es law assms(3-5) by (intro fold_deleteSegment_safe [OF env, where ch = ?ch]) auto
    have "rm_index rm' = rm_index (fold (deleteSegment env) ?b ?rm)" "rm_files rm' = rm_files (fold (deleteSegment env) ?b ?rm)"
      using q Inr by (simp_all add: rm'_def enforceRetention_def env Let_def)
    with fold law es(2) show ?thesis by (intro conjI exI [of _ es] exI [of _ ?b]) auto
  qed
qed

end

text \<open>
  C3: a retention pass over the SQLite index keeps the promise that every entry playback can see
  has its file. It touches only entries of the schedule's channel that the policy flagged, at most
  ten of them unless the disk is critically low.
\<close>

theorem enforceRetention_keeps_files:
  assumes "ev_ops env = sqlite_ops ie" "index_inv (rm_index rm)"
    and "ids_unique (index_view_of ie (rm_index rm))" "files_unique (index_view_of ie (rm_index rm))"
    and "files_present (index_view_of ie (rm_index rm)) (rm_files rm)"
    and "rm' = enforceRetention env s now rm"
  shows "index_inv (rm_index rm') \<and> files_present (index_view_of ie (rm_index rm')) (rm_files rm')
    \<and> (\<exists>entries batch. subseq batch (EvaluateRetention entries (retention_policy s (disk_free env s)) now)
        \<and> (disk_critical env s \<or> length batch \<le> 10)
        \<and> (\<forall>e \<in> set entries. index_view_of ie (rm_index rm) (sc_ChannelID s) (re_ID e) = Some e \<and> playable e)
        \<and> (\<forall>ch i. \<not> (ch = sc_ChannelID s \<and> i \<in> re_ID ` set batch) \<longrightarrow>
             index_view_of ie (rm_index rm') ch i = index_view_of ie (rm_index rm) ch i))"
proof -
  from sx.enforceRetention_safe [OF assms(1-5), of s now] assms(6)
  obtain entries where *: "index_inv (rm_index rm')" "files_present (index_view_of ie (rm_index rm')) (rm_files rm')"
    "\<forall>e \<in> set entries. index_view_of ie (rm_index rm) (sc_ChannelID s) (re_ID e) = Some e \<and> playable e"
    "\<forall>ch i. \<not> (ch = sc_ChannelID s \<and> i \<in> re_ID ` set (retention_batch env s now entries)) \<longrightarrow>
       index_view_of ie (rm_index rm') ch i = index_view_of ie (rm_index rm) ch i"
    by blast
  then show ?thesis using retention_batch_limits [of env s now entries] by blast
qed

lemma manager0_ok:
  "index_inv (rm_index manager0)" "ids_unique (index_view_of env0 (rm_index manager0))"
  "files_unique (index_view_of env0 (rm_index manager0))"
  "files_present (index_view_of env0 (rm_index manager0)) (rm_files manager0)"
proof -
  have i: "rm_index manager0 = index1" "rm_files manager0 = {''f'', ''g''}" by (simp_all add: manager0_def New_def)
  have p: "re_FilePath complete0 = ''f''" "re_FilePath late0 = ''g''"
    by (simp_all add: complete0_def late0_def marker0_def)
  show "index_inv (rm_index manager0)" using index_inv_index1 i by simp
  show "ids_unique (index_view_of env0 (rm_index manager0))"
    unfolding i by (auto simp: ids_unique_def view_index1 split: if_splits)
  show "files_unique (index_view_of env0 (rm_index manager0))"
    unfolding i files_unique_def view_index1 using p by (auto split: if_splits)
  show "files_present (index_view_of env0 (rm_index manager0)) (rm_files manager0)"
    unfolding i files_present_def view_index1 using p by (auto split: if_splits)
qed

lemma enforceRetention_keeps_files_witness:
  "files_present (index_view_of env0 (rm_index (enforceRetention rec_env0 (sched0\<lparr>sc_MaxAgeDays := 1\<rparr>) (2 * Day) manager0)))
     (rm_files (enforceRetention rec_env0 (sched0\<lparr>sc_MaxAgeDays := 1\<rparr>) (2 * Day) manager0))"
proof -
  have "ev_ops rec_env0 = sqlite_ops env0" by (simp add: rec_env0_def)
  from enforceRetention_keeps_files [OF this manager0_ok refl] show ?thesis by blast
qed

subsection \<open>The life of a segment\<close>

lemma apply_option_frame [simp]:
  "rm_index (apply_option opt rm) = rm_index rm" "rm_active (apply_option opt rm) = rm_active rm"
  "rm_pollInterval (apply_option opt rm) = rm_pollInterval rm"
  by (cases opt; simp)+

lemma fold_apply_option [simp]:
  "rm_index (fold apply_option opts rm) = rm_index rm" "rm_active (fold apply_option opts rm) = rm_active rm"
  "rm_pollInterval (fold apply_option opts rm) = rm_pollInterval rm"
  by (induction opts arbitrary: rm) auto

lemma New_fields [simp]:
  "rm_index (New ix poll files opts) = ix" "rm_active (New ix poll files opts) = []"
  "rm_pollInterval (New ix poll files opts) = (if poll \<le> 0 then 30 * Second else poll)"
  by (simp_all add: New_def)

lemma marker_entry_simps [simp]:
  "re_ID (marker_entry s t) = entry_id s t" "re_ChannelID (marker_entry s t) = sc_ChannelID s"
  "re_Status (marker_entry s t) = StatusRecording" "re_EndTime (marker_entry s t) = 0"
  by (simp_all add: marker_entry_def)

lemma storable_marker: "fmt_range t \<Longrightarrow> storable (marker_entry s t)"
  by (simp add: storable_def marker_entry_def fmt_range_def)

lemma completion_entry_simps [simp]:
  "re_ID (completion_entry s info p) = entry_id s (ci_Start info)"
  "re_ChannelID (completion_entry s info p) = sc_ChannelID s"
  "stored (completion_entry s info p) = completion_entry s info p"
  by (simp_all add: completion_entry_def stored_def)

lemma storable_completion: "fmt_range (ci_Start info) \<Longrightarrow> fmt_range (ci_End info) \<Longrightarrow> storable (completion_entry s info p)"
  by (simp add: storable_def completion_entry_def)

lemma makeOnCloseCallback_index:
  "rm_index (makeOnCloseCallback env s info rm) =
    snd (ix_Insert (ev_ops env) (completion_entry s info
      (let final = SegmentPathFinal (sc_StoragePath s) (sc_ChannelID s) (ci_Start info) (ci_End info)
       in if ev_Rename env (ci_Path info) final = None then final else ci_Path info)) (rm_index rm))"
  by (auto simp: makeOnCloseCallback_def Let_def split: option.split)

lemma muxerFactory_index:
  "muxerFactory env s ring t rm = (Inr m, rm') \<Longrightarrow>
     rm_index rm' = snd (ix_Insert (ev_ops env) (marker_entry s t) (rm_index rm))"
  by (auto simp: muxerFactory_def Let_def split: sum.splits)

text \<open>
  C4: when a segment whose muxer started at \<open>t\<close> closes, its completion replaces the marker written
  at the start: the index holds exactly the completed (or corrupted) entry under the identifier,
  pointing to the file under its final name when the rename succeeds, and all other entries are as
  they were before the segment began.
\<close>

theorem segment_lifecycle:
  assumes "ev_ops env = sqlite_ops ie" "ev_ops env' = sqlite_ops ie" "index_inv (rm_index rm)"
    and "fmt_range t" "ci_Start info = t" "fmt_range (ci_End info)"
    and "muxerFactory env s ring t rm = (Inr m, rm1)"
    and "fst (Insert ie (marker_entry s t) (rm_index rm)) = Inr ()"
    and "final = SegmentPathFinal (sc_StoragePath s) (sc_ChannelID s) t (ci_End info)"
    and "ev_Rename env' (ci_Path info) final = None"
    and "fst (Insert ie (completion_entry s info final) (rm_index rm1)) = Inr ()"
    and "rm2 = makeOnCloseCallback env' s info rm1"
  shows "index_view_of ie (rm_index rm2) = put_entry (completion_entry s info final) (index_view_of ie (rm_index rm))
    \<and> final \<in> rm_files rm2"
proof -
  let ?e = "completion_entry s info final"
  have 1: "ix_Insert (sqlite_ops ie) (marker_entry s t) (rm_index rm) = (Inr (), rm_index rm1)"
    using muxerFactory_index [OF assms(7)] assms(1,8) by (simp add: sqlite_ops_def prod_eq_iff)
  have 2: "ix_Insert (sqlite_ops ie) ?e (rm_index rm1) = (Inr (), rm_index rm2)"
    using assms(2,5,9-12) by (simp add: makeOnCloseCallback_index sqlite_ops_def prod_eq_iff)
  have "final \<in> rm_files rm2" using assms(5,9,10,12) by (simp add: makeOnCloseCallback_def Let_def)
  moreover have "index_view_of ie (rm_index rm2) = put_entry ?e (index_view_of ie (rm_index rm))"
    by (rule sx.replace_entry [OF assms(3) _ _ _ _ 1 2])
      (use assms(4-6) in \<open>simp_all add: storable_marker storable_completion\<close>)
  ultimately show ?thesis by simp
qed


definition info0 :: SegmentCloseInfo where
  "info0 = \<lparr>ci_Path = ''p'', ci_Start = 1000000000, ci_End = 301000000000, ci_SizeBytes = 4096,
     ci_HasMotion = False, ci_HasObjects = False, ci_ValidationError = None\<rparr>"

definition empty_manager :: "sqliteIndex RecordingManager" where
  "empty_manager = New (index_with []) 0 {''p''} []"

lemma muxer0: "muxerFactory rec_env0 sched0 None 1000000000 empty_manager =
    (Inr 1, empty_manager\<lparr>rm_index := index_with [row_of (marker_entry sched0 1000000000)],
       rm_files := insert (SegmentPath ''/rec'' ''c'' 1000000000) (rm_files empty_manager)\<rparr>)"
proof -
  have "Insert env0 (marker_entry sched0 1000000000) (index_with []) =
      (Inr (), index_with [row_of (marker_entry sched0 1000000000)])"
    using Insert_index_with [of "marker_entry sched0 1000000000" "[]"]
    by (simp add: insert_or_replace_def sched0_def)
  then show ?thesis
    by (simp add: muxerFactory_def Let_def rec_env0_def sqlite_ops_def empty_manager_def)
      (simp add: sched0_def)
qed

lemma sched0_ch: "sc_ChannelID sched0 = ''c''" by (simp add: sched0_def)

lemma inv_empty: "index_inv (rm_index empty_manager)"
  using index_inv_index_with [of "[]"] by (simp add: empty_manager_def)

lemma insert_ok0: "fst (Insert env0 (marker_entry sched0 1000000000) (rm_index empty_manager)) = Inr ()"
  using Insert_index_with [of "marker_entry sched0 1000000000" "[]"]
  by (simp add: sched0_ch empty_manager_def)

lemma segment_lifecycle_witness:
  "\<exists>rm1 final rm2. muxerFactory rec_env0 sched0 None 1000000000 empty_manager = (Inr 1, rm1)
    \<and> rm2 = makeOnCloseCallback rec_env0 sched0 info0 rm1
    \<and> index_view_of env0 (rm_index rm2) = put_entry (completion_entry sched0 info0 final) (index_view_of env0 (rm_index empty_manager))
    \<and> final \<in> rm_files rm2"
proof -
  let ?final = "SegmentPathFinal (sc_StoragePath sched0) (sc_ChannelID sched0) 1000000000 (ci_End info0)"
  have r: "fmt_range 1000000000" "fmt_range (ci_End info0)" "ci_Start info0 = 1000000000"
    by (simp_all add: fmt_range_def info0_def)
  have o: "ev_ops rec_env0 = sqlite_ops env0" "ev_Rename rec_env0 (ci_Path info0) ?final = None"
    by (simp_all add: rec_env0_def)
  have c: "fst (Insert env0 (completion_entry sched0 info0 ?final) (rm_index (snd (muxerFactory rec_env0 sched0 None 1000000000 empty_manager)))) = Inr ()"
    by (simp add: muxer0 Insert_index_with sched0_ch)
  obtain rm1 where m: "muxerFactory rec_env0 sched0 None 1000000000 empty_manager = (Inr 1, rm1)"
    using muxer0 by blast
  show ?thesis
    using segment_lifecycle [OF o(1) o(1) inv_empty r(1) r(3) r(2) m insert_ok0 refl o(2) _ refl] c m by auto
qed


text \<open>
  An interrupted recording keeps the zero end time of its marker, so a query with a lower bound
  of a second or more after the zero time never returns it, however recent it is.
\<close>

theorem interrupted_not_in_range_queries:
  assumes "index_inv s" "QueryByChannel ie ch from to s = (Inr es, s')" "fmt_range from" "fmt_range to"
    and "Second \<le> from"
  shows "seal_entry (marker_entry sch t) \<notin> set es"
proof
  assume "seal_entry (marker_entry sch t) \<in> set es"
  moreover have "re_EndTime (seal_entry (marker_entry sch t)) = 0"
    by (simp add: seal_entry_def marker_entry_def)
  moreover have "from \<noteq> zero_time" using assms(5) by (auto simp: Second_def)
  ultimately show False using QueryByChannel_bounds [OF assms(1-4)] assms(5) by force
qed

lemma interrupted_not_in_range_queries_witness:
  "seal_entry (marker_entry sched0 1000000000) \<notin> set (projr (fst (QueryByChannel env0 ''c'' 2000000000 0
     (index_with [row_of (seal_entry (marker_entry sched0 1000000000))]))))"
proof -
  let ?e = "seal_entry (marker_entry sched0 1000000000)"
  let ?s = "index_with (map row_of [?e])"
  have f: "fmt_range 2000000000" "fmt_range 0" "fmt_range 1000000000" by (simp_all add: fmt_range_def)
  have "index_inv ?s"
    by (rule index_inv_index_with) (use storable_marker [OF f(3), of sched0] in \<open>auto simp: seal_entry_def storable_def\<close>)
  moreover obtain q where "QueryByChannel env0 ''c'' 2000000000 0 ?s = (Inr q, ?s)"
    using QueryByChannel_index_with by blast
  ultimately show ?thesis
    using interrupted_not_in_range_queries [of ?s env0 "''c''" 2000000000 0 q ?s sched0 1000000000] f
    by (simp add: Second_def)
qed

subsection \<open>Statistics\<close>

definition of_channel :: "string \<Rightarrow> RecordingEntry list \<Rightarrow> RecordingEntry list" where
  "of_channel ch es = filter (\<lambda>e. re_ChannelID e = ch) es"

definition stats_of :: "string set \<Rightarrow> (string \<rightharpoonup> int) \<Rightarrow> string \<Rightarrow> RecordingEntry list \<Rightarrow> ChannelStats" where
  "stats_of active rings ch es =
    \<lparr>cs_Segments = int (length es), cs_TotalBytes = bytes es,
     cs_OldestSegment = Min (re_StartTime ` set es), cs_NewestSegment = Max (re_StartTime ` set es),
     cs_Recording = (ch \<in> active), cs_RingBufBytes = (case rings ch of Some n \<Rightarrow> n | None \<Rightarrow> 0)\<rparr>"

lemma bytes_append [simp]: "bytes (xs @ ys) = bytes xs + bytes ys"
  by (simp add: bytes_def)

lemma bytes_nonneg: "\<forall>e \<in> set es. 0 \<le> re_SizeBytes e \<Longrightarrow> 0 \<le> bytes es"
  by (induction es) auto

lemma bytes_of_channel_le: "\<forall>e \<in> set es. 0 \<le> re_SizeBytes e \<Longrightarrow> bytes (of_channel ch es) \<le> bytes es"
  by (induction es) (auto simp: of_channel_def)

lemma add_segment_stats:
  assumes "\<forall>e \<in> set es. 0 < re_StartTime e" "0 < re_StartTime e" "re_ChannelID e = ch"
    and "fits64 (bytes es + re_SizeBytes e)"
  shows "add_segment active rings e (if es = [] then zero_stats else stats_of active rings ch es)
      = stats_of active rings ch (es @ [e])"
proof (cases "es = []")
  case True
  with assms show ?thesis by (simp add: add_segment_def zero_stats_def stats_of_def)
next
  case False
  let ?M = "re_StartTime ` set es"
  have fin: "finite ?M" "?M \<noteq> {}" using False by auto
  define lo hi where "lo = Min ?M" and "hi = Max ?M"
  have "0 < lo" using assms(1) fin by (simp add: lo_def Min_gr_iff)
  moreover have "Min (re_StartTime ` set (es @ [e])) = min (re_StartTime e) lo"
    "Max (re_StartTime ` set (es @ [e])) = max (re_StartTime e) hi"
    using fin by (simp_all add: lo_def hi_def)
  ultimately show ?thesis using False assms(3,4)
    unfolding add_segment_def stats_of_def lo_def [symmetric] hi_def [symmetric]
    by (auto simp: min_def max_def)
qed

lemma buildPerChannelStats_eq:
  assumes "\<forall>e \<in> set es. 0 \<le> re_SizeBytes e \<and> 0 < re_StartTime e" "bytes es < 2 ^ 63"
  shows "buildPerChannelStats es active rings =
    (\<lambda>ch. if of_channel ch es = [] then None else Some (stats_of active rings ch (of_channel ch es)), bytes es)"
  using assms
proof (induction es rule: rev_induct)
  case Nil
  then show ?case by (simp add: buildPerChannelStats_def of_channel_def fun_eq_iff)
next
  case (snoc e es)
  let ?c = "re_ChannelID e"
  have nn: "\<forall>x \<in> set es. 0 \<le> re_SizeBytes x" using snoc.prems(1) by auto
  have b: "0 \<le> bytes es" "bytes es + re_SizeBytes e < 2 ^ 63" "0 \<le> re_SizeBytes e"
    using snoc.prems bytes_nonneg [OF nn] by auto
  have c: "0 \<le> bytes (of_channel ?c es)" "bytes (of_channel ?c es) \<le> bytes es"
    using bytes_of_channel_le [OF nn] bytes_nonneg [of "of_channel ?c es"] nn by (auto simp: of_channel_def)
  have IH: "buildPerChannelStats es active rings =
    (\<lambda>ch. if of_channel ch es = [] then None else Some (stats_of active rings ch (of_channel ch es)), bytes es)"
    using snoc b by auto
  have step: "buildPerChannelStats (es @ [e]) active rings =
      add_entry_stats active rings e (buildPerChannelStats es active rings)"
    by (simp add: buildPerChannelStats_def)
  have seg: "add_segment active rings e
        (if of_channel ?c es = [] then zero_stats else stats_of active rings ?c (of_channel ?c es))
      = stats_of active rings ?c (of_channel ?c es @ [e])"
    by (rule add_segment_stats) (use snoc.prems(1) b c in \<open>auto simp: of_channel_def fits64_def\<close>)
  have oc: "of_channel ch (es @ [e]) = (if ch = ?c then of_channel ?c es @ [e] else of_channel ch es)" for ch
    by (auto simp: of_channel_def)
  show ?case unfolding step IH add_entry_stats_def
    using seg b by (auto simp: oc fun_eq_iff fits64_def Let_def split: if_splits)
qed

text \<open>
  The per-channel statistics of the recorder count the segments of a channel, add up their
  bytes and give the earliest and latest start; a channel without entries has none; the total is
  the sum over all entries.
\<close>

theorem buildPerChannelStats_correct:
  assumes "\<forall>e \<in> set es. 0 \<le> re_SizeBytes e \<and> 0 < re_StartTime e" "bytes es < 2 ^ 63"
  shows "snd (buildPerChannelStats es active rings) = bytes es
    \<and> fst (buildPerChannelStats es active rings) ch =
       (let own = filter (\<lambda>e. re_ChannelID e = ch) es
        in if own = [] then None
           else Some \<lparr>cs_Segments = int (length own), cs_TotalBytes = bytes own,
             cs_OldestSegment = Min (re_StartTime ` set own), cs_NewestSegment = Max (re_StartTime ` set own),
             cs_Recording = (ch \<in> active), cs_RingBufBytes = (case rings ch of Some n \<Rightarrow> n | None \<Rightarrow> 0)\<rparr>)"
  using buildPerChannelStats_eq [OF assms, of active rings]
  by (simp add: Let_def of_channel_def stats_of_def)

lemma buildPerChannelStats_correct_witness:
  "snd (buildPerChannelStats entries0 {} Map.empty) = 2 ^ 31"
  using buildPerChannelStats_correct [of entries0 "{}" Map.empty] by (simp add: entries0_def Let_def)

subsection \<open>The manager as a state machine\<close>

text \<open>
  The steps of a manager over the SQLite index: a tick, a muxer the SDK creates for some schedule,
  a segment the SDK closes, the final stop. Times lie in the years 1 to 9999.
\<close>

inductive rec_step :: "sqliteIndex RecordingManager \<Rightarrow> sqliteIndex RecordingManager \<Rightarrow> bool" where
  step_tick: "ev_ops env = sqlite_ops ie \<Longrightarrow> rec_step rm (tick env rm)"
| step_factory: "ev_ops env = sqlite_ops ie \<Longrightarrow> fmt_range t \<Longrightarrow>
    rec_step rm (snd (muxerFactory env s ring t rm))"
| step_close: "ev_ops env = sqlite_ops ie \<Longrightarrow> fmt_range (ci_Start info) \<Longrightarrow> fmt_range (ci_End info) \<Longrightarrow>
    rec_step rm (makeOnCloseCallback env s info rm)"
| step_stop: "rec_step rm (stopAll rm)"

definition manager_inv :: "sqliteIndex RecordingManager \<Rightarrow> bool" where
  "manager_inv rm \<longleftrightarrow> index_inv (rm_index rm) \<and> distinct (map fst (rm_active rm)) \<and> 0 < rm_pollInterval rm
     \<and> (\<forall>i ar. map_of (rm_active rm) i = Some ar \<longrightarrow> sc_ID (ar_sched ar) = i)"

lemma Insert_keeps_inv: "index_inv s \<Longrightarrow> storable e \<Longrightarrow> index_inv (snd (Insert ie e s))"
  using Insert_correct by (metis prod.collapse)

lemma deleteSegment_inv:
  assumes "ev_ops env = sqlite_ops ie" "manager_inv rm"
  shows "manager_inv (deleteSegment env e rm)"
proof -
  obtain r ix where d: "Delete ie (re_ID e) (rm_index rm) = (r, ix)" by force
  then have "index_inv ix" using assms(2) Delete_correct by (auto simp: manager_inv_def)
  with assms d show ?thesis
    by (auto simp: manager_inv_def deleteSegment_def sqlite_ops_def split: sum.split option.split)
qed

lemma fold_deleteSegment_inv:
  "ev_ops env = sqlite_ops ie \<Longrightarrow> manager_inv rm \<Longrightarrow> manager_inv (fold (deleteSegment env) es rm)"
  by (induction es arbitrary: rm) (auto simp: deleteSegment_inv)

lemma enforceRetention_inv:
  assumes "ev_ops env = sqlite_ops ie" "manager_inv rm"
  shows "manager_inv (enforceRetention env s now rm)"
proof -
  obtain q ix where q: "QueryByChannel ie (sc_ChannelID s) 0 0 (rm_index rm) = (q, ix)" by force
  then have "index_inv ix" using assms(2) QueryByChannel_correct by (auto simp: manager_inv_def)
  then have m: "manager_inv (rm\<lparr>rm_index := ix\<rparr>)" using assms(2) by (simp add: manager_inv_def)
  have upd: "manager_inv (rm'\<lparr>rm_lastRetention := now\<rparr>) = manager_inv rm'" for rm' by (simp add: manager_inv_def)
  from m fold_deleteSegment_inv [OF assms(1) m] upd show ?thesis
    using q assms(1) by (auto simp: enforceRetention_def sqlite_ops_def Let_def split: sum.split)
qed

lemma checkDiskSpace_inv:
  "ev_ops env = sqlite_ops ie \<Longrightarrow> manager_inv rm \<Longrightarrow> manager_inv (checkDiskSpace env s now rm)"
  by (auto simp: checkDiskSpace_def Let_def enforceRetention_inv split: sum.split)

lemma startSegment_inv:
  assumes "manager_inv rm"
  shows "manager_inv (startSegment env s now rm)"
proof -
  obtain ring rm1 where g: "getOrCreateRingBuffer s rm = (ring, rm1)" by force
  have "manager_inv rm1"
    using assms g by (auto simp: manager_inv_def getOrCreateRingBuffer_def Let_def split: if_splits option.splits)
  then show ?thesis using g
    by (auto simp: startSegment_def registerActiveSegment_def manager_inv_def distinct_update update_conv'
        simp del: map_of_eq_Some_iff split: sum.split if_splits)
qed

lemma rotateSegment_inv: "manager_inv rm \<Longrightarrow> manager_inv (rotateSegment env ar s now rm)"
  unfolding rotateSegment_def
  by (rule startSegment_inv)
    (auto simp: manager_inv_def closeHandle_def distinct_delete delete_conv' split: if_splits)

lemma processSchedule_inv:
  assumes "ev_ops env = sqlite_ops ie" "manager_inv rm"
  shows "manager_inv (processSchedule env now s rm)"
proof -
  define rm1 where "rm1 = (if sc_MinFreeGB s > 0 \<or> sc_LowFreeGB s > 0 then checkDiskSpace env s now rm else rm)"
  have "manager_inv rm1" using assms checkDiskSpace_inv by (simp add: rm1_def)
  then show ?thesis
    unfolding processSchedule_def rm1_def [symmetric] Let_def
    by (auto simp: startSegment_inv rotateSegment_inv split: option.split sum.split)
qed

lemma fold_processSchedule_inv:
  "ev_ops env = sqlite_ops ie \<Longrightarrow> manager_inv rm \<Longrightarrow> manager_inv (fold (processSchedule env now) ss rm)"
  by (induction ss arbitrary: rm) (auto simp: processSchedule_inv)

lemma closeHandle_frames:
  "rm_index (fold (\<lambda>(i, ar). closeHandle ar) xs r) = rm_index r"
  "rm_pollInterval (fold (\<lambda>(i, ar). closeHandle ar) xs r) = rm_pollInterval r"
  by (induction xs arbitrary: r) (auto simp: closeHandle_def)

lemma closeStale_inv: "manager_inv rm \<Longrightarrow> manager_inv (closeStale ids rm)"
proof -
  assume m: "manager_inv rm"
  have "distinct (map fst (filter (\<lambda>(i, ar). i \<in> ids) (rm_active rm)))"
    using m by (simp add: manager_inv_def distinct_map_filter)
  with m show ?thesis by (auto simp: manager_inv_def closeStale_def map_of_filter_key closeHandle_frames split: if_splits)
qed

lemma tick_inv:
  assumes "ev_ops env = sqlite_ops ie" "manager_inv rm"
  shows "manager_inv (tick env rm)"
proof -
  have ret: "manager_inv (fold (\<lambda>s rm. if hasRetentionPolicy s then enforceRetention env s now rm else rm) ss r)"
    if "manager_inv r" for now ss r
    using that by (induction ss arbitrary: r) (auto simp: enforceRetention_inv [OF assms(1)])
  show ?thesis using assms
    by (auto simp: tick_def Let_def intro!: ret closeStale_inv fold_processSchedule_inv split: sum.split)
qed

lemma rec_step_inv: "rec_step rm rm' \<Longrightarrow> manager_inv rm \<Longrightarrow> manager_inv rm'"
proof (induction rule: rec_step.induct)
  case (step_tick env ie rm)
  then show ?case by (rule tick_inv)
next
  case (step_factory env ie t rm s ring)
  then show ?case
    by (auto simp: muxerFactory_def Let_def manager_inv_def sqlite_ops_def Insert_keeps_inv storable_marker
        split: sum.split)
next
  case (step_close env ie info rm s)
  then show ?case
    by (auto simp: manager_inv_def makeOnCloseCallback_index sqlite_ops_def Insert_keeps_inv storable_completion)
      (auto simp: makeOnCloseCallback_def Let_def split: option.splits)
next
  case (step_stop rm)
  then show ?case by (simp add: manager_inv_def stopAll_def closeHandle_frames)
qed



subsection \<open>Ticks over the schedules of a source\<close>

lemma plain_no_retention: "plain s \<Longrightarrow> \<not> hasRetentionPolicy s"
  by (simp add: plain_def hasRetentionPolicy_def)

lemma plain_default [simp]: "plain (default_schedule path ch)"
  by (simp add: plain_def default_schedule_def)

lemma appendDefaults_plain:
  "\<forall>s \<in> set ss. plain s \<Longrightarrow> s \<in> set (appendDefaults env rm ss) \<Longrightarrow> plain s"
  by (auto simp: appendDefaults_def Let_def split: if_splits sum.splits)

definition same_store :: "'ix RecordingManager \<Rightarrow> 'ix RecordingManager \<Rightarrow> bool" where
  "same_store rm rm' \<longleftrightarrow> rm_index rm' = rm_index rm \<and> rm_files rm' = rm_files rm
     \<and> rm_lastRetention rm' = rm_lastRetention rm \<and> rm_ringBuffers rm' = rm_ringBuffers rm"

lemma same_store_refl [simp]: "same_store rm rm"
  by (simp add: same_store_def)

lemma same_store_trans: "same_store a b \<Longrightarrow> same_store b c \<Longrightarrow> same_store a c"
  by (simp add: same_store_def)

lemma startSegment_same_store: "plain s \<Longrightarrow> same_store rm (startSegment env s now rm)"
  by (simp add: same_store_def startSegment_def getOrCreateRingBuffer_def registerActiveSegment_def plain_def
      split: sum.split prod.split)

lemma rotateSegment_same_store: "plain s \<Longrightarrow> same_store rm (rotateSegment env ar s now rm)"
  using startSegment_same_store [of s "closeHandle ar (rm\<lparr>rm_active := AList.delete (sc_ID s) (rm_active rm)\<rparr>)" env now]
  by (simp add: rotateSegment_def same_store_def closeHandle_def)

lemma processSchedule_same_store: "plain s \<Longrightarrow> same_store rm (processSchedule env now s rm)"
proof -
  assume p: "plain s"
  then have "sc_MinFreeGB s = 0" "sc_LowFreeGB s = 0" by (simp_all add: plain_def)
  then show ?thesis
    by (simp add: processSchedule_def startSegment_same_store [OF p] rotateSegment_same_store [OF p]
        split: option.split)
qed

lemma fold_processSchedule_same_store:
  "\<forall>s \<in> set ss. plain s \<Longrightarrow> same_store rm (fold (processSchedule env now) ss rm)"
proof (induction ss arbitrary: rm)
  case (Cons s ss)
  then show ?case using processSchedule_same_store [of s rm env now] by (auto intro: same_store_trans)
qed simp

lemma fold_closeHandle_same_store: "same_store rm (fold (\<lambda>(i, ar). closeHandle ar) xs rm)"
  by (induction xs arbitrary: rm) (auto simp: closeHandle_def same_store_def split: prod.splits)

lemma closeStale_same_store: "same_store rm (closeStale ids rm)"
proof -
  have "same_store rm (rm\<lparr>rm_active := xs\<rparr>)" for xs by (simp add: same_store_def)
  then show ?thesis unfolding closeStale_def Let_def by (rule same_store_trans) (rule fold_closeHandle_same_store)
qed

lemma fold_no_retention:
  "\<forall>s \<in> set ss. \<not> hasRetentionPolicy s \<Longrightarrow>
   fold (\<lambda>s rm. if hasRetentionPolicy s then enforceRetention env s now rm else rm) ss rm = rm"
  by (induction ss) simp_all

lemma tick_plain_same_store:
  assumes "ev_ListSchedules env = Inr ss" "\<forall>s \<in> set ss. plain s"
  shows "same_store rm (tick env rm)"
proof -
  let ?all = "appendDefaults env rm ss"
  let ?act = "active_schedules env (ev_now env) ?all"
  have all: "\<forall>s \<in> set ?all. plain s" using assms(2) by (blast dest: appendDefaults_plain)
  then have "\<forall>s \<in> set ?act. plain s" by (simp add: active_schedules_def)
  then have "same_store rm (closeStale (sc_ID ` set ?act) (fold (processSchedule env (ev_now env)) ?act rm))"
    by (blast intro: same_store_trans fold_processSchedule_same_store closeStale_same_store)
  moreover have "\<forall>s \<in> set ?all. \<not> hasRetentionPolicy s" using all plain_no_retention by blast
  ultimately show ?thesis by (simp add: tick_def assms(1) Let_def fold_no_retention)
qed

context schedule_source
begin

lemma tick_never_deletes:
  assumes "ev_ListSchedules env = ListSchedules p"
  shows "same_store rm (tick env rm)"
proof (cases "ListSchedules p")
  case (Inl e)
  then show ?thesis using assms by (simp add: tick_def)
next
  case (Inr ss)
  then show ?thesis using assms ListSchedules_plain by (intro tick_plain_same_store) auto
qed

end

text \<open>
  Over the schedules that any of the three sources delivers, with or without default
  recordings, no tick enforces retention: the index and the files stay as they are and no ring buffer
  is created, whatever the age and size of the recordings. The limits that the recorder implements
  cannot be configured through a source.
\<close>

theorem configured_schedules_never_expire:
  assumes "ev_ListSchedules env \<in> {file_ListSchedules f, mongo_ListSchedules c, mysql_ListSchedules t}"
  shows "rm_index (tick env rm) = rm_index rm \<and> rm_files (tick env rm) = rm_files rm
    \<and> rm_ringBuffers (tick env rm) = rm_ringBuffers rm \<and> rm_lastRetention (tick env rm) = rm_lastRetention rm"
  using assms file_source.tick_never_deletes [of env f rm] mongo_source.tick_never_deletes [of env c rm]
    mysql_source.tick_never_deletes [of env t rm]
  by (auto simp: same_store_def)

lemma configured_schedules_never_expire_witness:
  "rm_files (tick (rec_env0\<lparr>ev_ListSchedules := mongo_ListSchedules \<lparr>sm_Find = None, sm_All = Inr [document_of sched0]\<rparr>\<rparr>) manager0)
     = rm_files manager0"
  using configured_schedules_never_expire
    [of "rec_env0\<lparr>ev_ListSchedules := mongo_ListSchedules \<lparr>sm_Find = None, sm_All = Inr [document_of sched0]\<rparr>\<rparr>"
      "\<lparr>sf_path = [], sf_ReadFile = None, sf_Unmarshal = Inr [], sf_parse = \<lambda>_. Inr 0\<rparr>"
      "\<lparr>sm_Find = None, sm_All = Inr [document_of sched0]\<rparr>"
      "\<lparr>st_Query = None, st_rows = [], st_Err = None\<rparr>" manager0] by simp

end
