(* ===== verification/Annex_B.thy ===== *)
theory Annex_B
  imports Vrtc_Prelude "HOL-Library.Word"
begin

unbundle bit_operations_syntax

text \<open>
  The byte level of the RTSP grabber, \<^verbatim>\<open>src/internal/avgrabber/convert.go\<close>: splitting an Annex-B byte
  stream into NAL units by a scan over indices, recognising parameter sets, and re-framing a video
  payload with four-byte lengths (AVCC). A byte is an \<^verbatim>\<open>8 word\<close>; a slice \<^verbatim>\<open>data[a:b]\<close> is the list of
  its bytes, since no code writes through these slices. The scan is compared with a splitter that
  works on the remaining bytes, and the re-framing with a reader of length-prefixed units.
\<close>

type_synonym byte = "8 word"
type_synonym bytes = "byte list"

definition go_slice :: "nat \<Rightarrow> nat \<Rightarrow> 'a list \<Rightarrow> 'a list" where
  "go_slice a b xs = take (b - a) (drop a xs)"

subsection \<open>The code\<close>

definition CodecMJPEG :: byte where "CodecMJPEG = 0"
definition CodecH264 :: byte where "CodecH264 = 2"
definition CodecH265 :: byte where "CodecH265 = 8"

lemmas video_codecs = CodecMJPEG_def CodecH264_def CodecH265_def

definition annexBStartCodeLen :: "bytes \<Rightarrow> nat \<Rightarrow> nat" where
  "annexBStartCodeLen data i =
    (if i + 3 < length data \<and> data ! i = 0 \<and> data ! (i + 1) = 0 \<and> data ! (i + 2) = 0 \<and> data ! (i + 3) = 1 then 4
     else if i + 2 < length data \<and> data ! i = 0 \<and> data ! (i + 1) = 0 \<and> data ! (i + 2) = 1 then 3
     else 0)"

text \<open>The loop of \<^verbatim>\<open>splitAnnexB\<close>; its variables are \<^verbatim>\<open>start\<close> (here \<open>s\<close>), \<^verbatim>\<open>i\<close> and \<^verbatim>\<open>nals\<close>.\<close>

function splitLoop :: "bytes \<Rightarrow> nat \<Rightarrow> nat \<Rightarrow> bytes list \<Rightarrow> bytes list" where
  "splitLoop data s i nals =
    (if i < length data then
       let scLen = annexBStartCodeLen data i in
       if scLen = 0 then splitLoop data s (i + 1) nals
       else splitLoop data (i + scLen) (i + scLen) (if s < i then nals @ [go_slice s i data] else nals)
     else if s < length data then nals @ [drop s data] else nals)"
  by pat_completeness auto
termination by (relation "measure (\<lambda>(data, s, i, nals). length data - i)") auto

declare splitLoop.simps [simp del]

definition splitAnnexB :: "bytes \<Rightarrow> bytes list" where
  "splitAnnexB data = splitLoop data 0 0 []"

definition isParamSetNALU :: "bytes \<Rightarrow> byte \<Rightarrow> bool" where
  "isParamSetNALU nal codecType \<longleftrightarrow> nal \<noteq> [] \<and>
    (if codecType = CodecH264 then let t = hd nal AND 0x1F in t = 7 \<or> t = 8
     else if codecType = CodecH265 then let t = drop_bit 1 (hd nal AND 0x7E) in t = 32 \<or> t = 33 \<or> t = 34
     else False)"

text \<open>\<^verbatim>\<open>binary.BigEndian.PutUint32\<close> of \<^verbatim>\<open>uint32(n)\<close>.\<close>

definition PutUint32 :: "nat \<Rightarrow> bytes" where
  "PutUint32 n = (let v = n mod 2 ^ 32 in
     [word_of_nat (v div 2 ^ 24), word_of_nat (v div 2 ^ 16), word_of_nat (v div 2 ^ 8), word_of_nat v])"

fun avccLoop :: "byte \<Rightarrow> bytes list \<Rightarrow> bytes \<Rightarrow> bytes" where
  "avccLoop codecType [] buf = buf"
| "avccLoop codecType (nal # nals) buf =
    (if nal = [] \<or> isParamSetNALU nal codecType then avccLoop codecType nals buf
     else avccLoop codecType nals (buf @ PutUint32 (length nal) @ nal))"

definition videoPayloadToAVCC :: "bytes \<Rightarrow> byte \<Rightarrow> bytes" where
  "videoPayloadToAVCC data codecType =
    (let nalus = splitAnnexB data in
     if nalus = [] then PutUint32 (length data) @ data else avccLoop codecType nalus [])"

subsection \<open>The splitter on the remaining bytes\<close>

definition code_len :: "bytes \<Rightarrow> nat" where
  "code_len d = (if take 4 d = [0, 0, 0, 1] then 4 else if take 3 d = [0, 0, 1] then 3 else 0)"

definition flush :: "'a list \<Rightarrow> 'a list list" where
  "flush xs = (if xs = [] then [] else [xs])"

function units :: "bytes \<Rightarrow> bytes \<Rightarrow> bytes list" where
  "units cur d =
    (if d = [] then flush cur
     else if code_len d = 0 then units (cur @ [hd d]) (tl d)
     else flush cur @ units [] (drop (code_len d) d))"
  by pat_completeness auto
termination by (relation "measure (\<lambda>(cur, d). length d)") auto

declare units.simps [simp del]

lemma units_Nil [simp]: "units cur [] = flush cur"
  by (simp add: units.simps)

lemma units_step: "code_len (b # d) = 0 \<Longrightarrow> units cur (b # d) = units (cur @ [b]) d"
  by (simp add: units.simps [of cur "b # d"])

lemma units_code: "code_len d \<noteq> 0 \<Longrightarrow> units cur d = flush cur @ units [] (drop (code_len d) d)"
  by (subst units.simps) (auto simp: code_len_def)

lemma take_nth_drop:
  "i + 3 < length data \<Longrightarrow> take 4 (drop i data) = [data ! i, data ! (i + 1), data ! (i + 2), data ! (i + 3)]"
  "i + 2 < length data \<Longrightarrow> take 3 (drop i data) = [data ! i, data ! (i + 1), data ! (i + 2)]"
  by (auto simp: list_eq_iff_nth_eq less_Suc_eq numeral_eq_Suc)

lemma annexBStartCodeLen_code_len: "annexBStartCodeLen data i = code_len (drop i data)"
proof -
  have "take 4 (drop i data) = [0, 0, 0, 1] \<longleftrightarrow>
      i + 3 < length data \<and> data ! i = 0 \<and> data ! (i + 1) = 0 \<and> data ! (i + 2) = 0 \<and> data ! (i + 3) = 1"
  proof (cases "i + 3 < length data")
    case False
    then have "length (take 4 (drop i data)) \<noteq> length [0 :: byte, 0, 0, 1]" by auto
    with False show ?thesis by metis
  qed (simp add: take_nth_drop)
  moreover have "take 3 (drop i data) = [0, 0, 1] \<longleftrightarrow>
      i + 2 < length data \<and> data ! i = 0 \<and> data ! (i + 1) = 0 \<and> data ! (i + 2) = 1"
  proof (cases "i + 2 < length data")
    case False
    then have "length (take 3 (drop i data)) \<noteq> length [0 :: byte, 0, 1]" by auto
    with False show ?thesis by metis
  qed (simp add: take_nth_drop)
  ultimately show ?thesis by (simp add: annexBStartCodeLen_def code_len_def)
qed

lemma code_len_le: "code_len d \<le> length d"
proof -
  have "length d \<ge> 4" if "take 4 d = [0, 0, 0, 1]" using arg_cong [OF that, of length] by simp
  moreover have "length d \<ge> 3" if "take 3 d = [0, 0, 1]" using arg_cong [OF that, of length] by simp
  ultimately show ?thesis by (simp add: code_len_def)
qed

lemma code_len_Nil [simp]: "code_len [] = 0"
  by (simp add: code_len_def)

lemma go_slice_same [simp]: "go_slice i i xs = []"
  by (simp add: go_slice_def)

lemma go_slice_Suc: "s \<le> i \<Longrightarrow> i < length xs \<Longrightarrow> go_slice s (Suc i) xs = go_slice s i xs @ [xs ! i]"
  by (simp add: go_slice_def Suc_diff_le take_Suc_conv_app_nth)

lemma go_slice_empty_iff: "s \<le> i \<Longrightarrow> i \<le> length xs \<Longrightarrow> go_slice s i xs = [] \<longleftrightarrow> \<not> s < i"
  by (auto simp: go_slice_def)

lemma splitLoop_units:
  "s \<le> i \<Longrightarrow> i \<le> length data \<Longrightarrow>
   splitLoop data s i nals = nals @ units (go_slice s i data) (drop i data)"
proof (induction data s i nals rule: splitLoop.induct)
  case (1 data s i nals)
  let ?k = "annexBStartCodeLen data i"
  have le: "i + ?k \<le> length data"
    using "1.prems"(2) code_len_le [of "drop i data"] by (simp add: annexBStartCodeLen_code_len)
  show ?case
  proof (cases "i < length data")
    case True
    have d: "drop i data = data ! i # drop (Suc i) data" using True by (rule Cons_nth_drop_Suc [symmetric])
    show ?thesis
    proof (cases "?k = 0")
      case k: True
      have "units (go_slice s i data) (drop i data) = units (go_slice s i data @ [data ! i]) (drop (Suc i) data)"
        using k units_step [of "data ! i" "drop (Suc i) data"] d by (simp add: annexBStartCodeLen_code_len)
      then show ?thesis
        using "1.IH"(1) [OF True refl k] "1.prems" True k
        by (simp add: splitLoop.simps [of data s i] go_slice_Suc)
    next
      case k: False
      have "units (go_slice s i data) (drop i data) = flush (go_slice s i data) @ units [] (drop (i + ?k) data)"
        using units_code [of "drop i data"] k by (simp add: annexBStartCodeLen_code_len add.commute)
      then show ?thesis
        using "1.IH"(2) [OF True refl k] "1.prems" True k le
        by (simp add: splitLoop.simps [of data s i] flush_def go_slice_empty_iff)
    qed
  next
    case False
    then have "i = length data" using "1.prems" by simp
    then show ?thesis
      using "1.prems" by (subst splitLoop.simps) (auto simp: flush_def go_slice_def)
  qed
qed

lemma splitAnnexB_units: "splitAnnexB data = units [] data"
  using splitLoop_units [of 0 0 data "[]"] by (simp add: splitAnnexB_def)

text \<open>What comes out: non-empty units without a start code inside, made of the bytes of the input.\<close>

fun has_code :: "bytes \<Rightarrow> bool" where
  "has_code (a # b # c # d) \<longleftrightarrow> a = 0 \<and> b = 0 \<and> c = 1 \<or> has_code (b # c # d)"
| "has_code _ \<longleftrightarrow> False"

lemma code_len_eq_0:
  "code_len d = 0 \<longleftrightarrow> take 4 d \<noteq> [0, 0, 0, 1] \<and> take 3 d \<noteq> [0, 0, 1]"
  by (simp add: code_len_def)

text \<open>No start code begins inside the bytes collected so far, even with what follows.\<close>

definition quiet :: "bytes \<Rightarrow> bytes \<Rightarrow> bool" where
  "quiet cur d \<longleftrightarrow> (\<forall>k < length cur. take 3 (drop k cur @ d) \<noteq> [0, 0, 1])"

lemma has_code_nth: "has_code xs \<longleftrightarrow> (\<exists>k. k + 2 < length xs \<and> take 3 (drop k xs) = [0, 0, 1])"
proof (induction xs rule: has_code.induct)
  case (1 a b c d)
  have "(\<exists>k. k + 2 < length (a # b # c # d) \<and> take 3 (drop k (a # b # c # d)) = [0, 0, 1]) \<longleftrightarrow>
      a = 0 \<and> b = 0 \<and> c = 1 \<or> (\<exists>k. k + 2 < length (b # c # d) \<and> take 3 (drop k (b # c # d)) = [0, 0, 1])"
    (is "(\<exists>k. ?P k) \<longleftrightarrow> _ \<or> (\<exists>k. ?Q k)")
  proof -
    have "?P 0 \<longleftrightarrow> a = 0 \<and> b = 0 \<and> c = 1" "\<And>k. ?P (Suc k) \<longleftrightarrow> ?Q k" by (simp_all add: numeral_3_eq_3)
    then show ?thesis by (metis not0_implies_Suc)
  qed
  with 1 show ?case by simp
qed auto

lemma quiet_has_code: "quiet cur d \<Longrightarrow> \<not> has_code cur"
proof
  assume q: "quiet cur d" and "has_code cur"
  then obtain k where k: "k + 2 < length cur" "take 3 (drop k cur) = [0, 0, 1]" by (auto simp: has_code_nth)
  then have "take 3 (drop k cur @ d) = [0, 0, 1]" by simp
  moreover have "k < length cur" using k(1) by simp
  ultimately show False using q unfolding quiet_def by blast
qed

lemma quiet_snoc: "quiet cur (b # d) \<Longrightarrow> code_len (b # d) = 0 \<Longrightarrow> quiet (cur @ [b]) d"
  by (auto simp: quiet_def code_len_eq_0 less_Suc_eq simp del: take_append)

lemma units_sound: "quiet cur d \<Longrightarrow> \<forall>nal \<in> set (units cur d). nal \<noteq> [] \<and> \<not> has_code nal"
proof (induction cur d rule: units.induct)
  case (1 cur d)
  have fl: "\<forall>nal \<in> set (flush cur). nal \<noteq> [] \<and> \<not> has_code nal"
    using "1.prems" by (simp add: flush_def quiet_has_code)
  consider "d = []" | b d' where "d = b # d'" "code_len d = 0" | "code_len d \<noteq> 0"
    by (metis list.exhaust)
  then show ?case
  proof cases
    case 2
    then show ?thesis using "1.IH"(1) "1.prems" quiet_snoc by (simp add: units_step)
  next
    case 3
    then have "\<forall>nal \<in> set (units [] (drop (code_len d) d)). nal \<noteq> [] \<and> \<not> has_code nal"
      using "1.IH"(2) by (cases "d = []") (simp_all add: quiet_def)
    then show ?thesis using fl by (auto simp: units_code [OF 3])
  qed (use fl in simp)
qed

lemma units_bytes: "length (concat (units cur d)) \<le> length cur + length d"
proof (induction cur d rule: units.induct)
  case (1 cur d)
  consider "d = []" | b d' where "d = b # d'" "code_len d = 0" | "code_len d \<noteq> 0" "d \<noteq> []"
    by (metis code_len_Nil list.exhaust)
  then show ?case
  proof cases
    case 2
    then show ?thesis using "1.IH"(1) by (simp add: units_step)
  next
    case 3
    then show ?thesis using "1.IH"(2) by (simp add: units_code flush_def)
  qed (simp add: flush_def)
qed

subsection \<open>Byte streams of NAL units\<close>

text \<open>
  A NAL unit of the standard is not empty, does not end in a zero byte and has its start codes
  escaped. A stream has a start code of three or four bytes before each unit.
\<close>

definition nal_unit :: "bytes \<Rightarrow> bool" where
  "nal_unit nal \<longleftrightarrow> nal \<noteq> [] \<and> last nal \<noteq> 0 \<and> \<not> has_code nal"

definition start_code :: "bool \<Rightarrow> bytes" where
  "start_code long = (if long then [0, 0, 0, 1] else [0, 0, 1])"

definition annexb :: "(bool \<times> bytes) list \<Rightarrow> bytes" where
  "annexb xs = concat (map (\<lambda>(long, nal). start_code long @ nal) xs)"

lemma annexb_simps [simp]:
  "annexb [] = []" "annexb ((long, nal) # xs) = start_code long @ nal @ annexb xs"
  by (simp_all add: annexb_def)

lemma start_code_not_Nil [simp]: "start_code long \<noteq> []"
  by (simp add: start_code_def)

lemma code_len_start_code [simp]: "code_len (start_code long @ d) = length (start_code long)"
  by (simp add: code_len_def start_code_def)

lemma code_len_nal_unit: "nal_unit (b # nal) \<Longrightarrow> code_len (b # nal @ d) = 0"
  by (auto simp: code_len_eq_0 nal_unit_def take_Cons' neq_Nil_conv Cons_eq_append_conv split: if_splits)

lemma has_code_Cons: "has_code d \<Longrightarrow> has_code (b # d)"
  by (cases d rule: has_code.cases) auto

lemma nal_unit_tl: "nal_unit (b # nal) \<Longrightarrow> nal \<noteq> [] \<Longrightarrow> nal_unit nal"
  by (auto simp: nal_unit_def dest: has_code_Cons)

lemma units_nal_unit: "nal_unit nal \<Longrightarrow> units cur (nal @ d) = units (cur @ nal) d"
proof (induction nal arbitrary: cur)
  case (Cons b nal)
  then have "units cur (b # nal @ d) = units (cur @ [b]) (nal @ d)"
    by (simp add: units_step code_len_nal_unit)
  then show ?case using Cons by (cases "nal = []") (simp_all add: nal_unit_tl)
qed (simp add: nal_unit_def)

lemma units_annexb: "\<forall>(long, nal) \<in> set xs. nal_unit nal \<Longrightarrow> units cur (annexb xs) = flush cur @ map snd xs"
proof (induction xs arbitrary: cur)
  case (Cons x xs)
  obtain long nal where x: "x = (long, nal)" by force
  with Cons.prems have nal: "nal_unit nal" by simp
  then have "units cur (annexb (x # xs)) = flush cur @ units nal (annexb xs)"
    using units_code [of "start_code long @ nal @ annexb xs" cur] by (simp add: x units_nal_unit)
  moreover have "nal \<noteq> []" using nal by (simp add: nal_unit_def)
  ultimately show ?case using Cons x by (simp add: flush_def)
qed simp

text \<open>
  The three shapes that a payload has: with a start code in front, with the first start code
  removed, and, with one unit only, a raw unit.
\<close>

fun payload :: "bool \<Rightarrow> (bool \<times> bytes) list \<Rightarrow> bytes" where
  "payload leading [] = []"
| "payload leading ((long, nal) # xs) = (if leading then start_code long else []) @ nal @ annexb xs"

lemma splitAnnexB_payload:
  assumes "\<forall>(long, nal) \<in> set xs. nal_unit nal"
  shows "splitAnnexB (payload leading xs) = map snd xs"
proof (cases xs)
  case Nil
  then show ?thesis by (simp add: splitAnnexB_units flush_def)
next
  case (Cons x ys)
  obtain long nal where x: "x = (long, nal)" by force
  show ?thesis
  proof (cases leading)
    case True
    then have "payload leading xs = annexb xs" by (simp add: Cons x)
    then show ?thesis using units_annexb [OF assms, of "[]"] by (simp add: splitAnnexB_units flush_def)
  next
    case False
    have "nal_unit nal" "\<forall>(long, nal) \<in> set ys. nal_unit nal" using assms by (simp_all add: Cons x)
    moreover from this have "nal \<noteq> []" by (simp add: nal_unit_def)
    ultimately show ?thesis
      using False by (simp add: Cons x splitAnnexB_units units_nal_unit units_annexb flush_def)
  qed
qed

subsection \<open>Reading length-prefixed units\<close>

fun Uint32 :: "bytes \<Rightarrow> nat" where
  "Uint32 [a, b, c, d] = unat a * 2 ^ 24 + unat b * 2 ^ 16 + unat c * 2 ^ 8 + unat d"
| "Uint32 _ = 0"

function read_avcc :: "bytes \<Rightarrow> bytes list option" where
  "read_avcc d =
    (if d = [] then Some []
     else if length d < 4 then None
     else let n = Uint32 (take 4 d) in
       if length d < 4 + n then None
       else map_option ((#) (take n (drop 4 d))) (read_avcc (drop (4 + n) d)))"
  by pat_completeness auto
termination by (relation "measure length") auto

declare read_avcc.simps [simp del]

lemma read_avcc_Nil [simp]: "read_avcc [] = Some []"
  by (simp add: read_avcc.simps)

lemma length_PutUint32 [simp]: "length (PutUint32 n) = 4"
  by (simp add: PutUint32_def Let_def)

lemma PutUint32_not_Nil [simp]: "PutUint32 n \<noteq> []"
  by (simp add: PutUint32_def Let_def)

lemma Uint32_PutUint32:
  assumes "n < 2 ^ 32"
  shows "Uint32 (PutUint32 n) = n"
proof -
  let ?a = "n div 256" let ?b = "?a div 256" let ?c = "?b div 256"
  have "?c < 256" using assms by (simp add: div_mult2_eq [symmetric] less_mult_imp_div_less)
  then have "?c mod 256 = ?c" by simp
  moreover have "n = ?a * 256 + n mod 256" "?a = ?b * 256 + ?a mod 256" "?b = ?c * 256 + ?b mod 256" by simp_all
  ultimately have "?c mod 256 * 16777216 + ?b mod 256 * 65536 + ?a mod 256 * 256 + n mod 256 = n" by linarith
  then show ?thesis using assms by (simp add: PutUint32_def Let_def unat_of_nat div_mult2_eq [symmetric])
qed

lemma read_avcc_unit:
  assumes "length nal < 2 ^ 32"
  shows "read_avcc (PutUint32 (length nal) @ nal @ d) = map_option ((#) nal) (read_avcc d)"
  using Uint32_PutUint32 [OF assms] by (subst read_avcc.simps) (simp add: Let_def)

definition avcc :: "bytes list \<Rightarrow> bytes" where
  "avcc nals = concat (map (\<lambda>nal. PutUint32 (length nal) @ nal) nals)"

lemma avccLoop_avcc:
  "\<forall>nal \<in> set nals. nal \<noteq> [] \<Longrightarrow>
   avccLoop codecType nals buf = buf @ avcc (filter (\<lambda>nal. \<not> isParamSetNALU nal codecType) nals)"
  by (induction nals arbitrary: buf) (simp_all add: avcc_def)

lemma read_avcc_avcc: "\<forall>nal \<in> set nals. length nal < 2 ^ 32 \<Longrightarrow> read_avcc (avcc nals) = Some nals"
proof (induction nals)
  case (Cons nal nals)
  then show ?case using read_avcc_unit [of nal "avcc nals"] by (simp add: avcc_def)
qed (simp add: avcc_def)

lemma splitAnnexB_sound:
  "\<forall>nal \<in> set (splitAnnexB data). nal \<noteq> [] \<and> \<not> has_code nal"
  "length (concat (splitAnnexB data)) \<le> length data"
  using units_sound [of "[]" data] units_bytes [of "[]" data] by (simp_all add: splitAnnexB_units quiet_def)

lemma length_le_concat: "xs \<in> set xss \<Longrightarrow> length xs \<le> length (concat xss)"
  by (induction xss) auto

lemma read_avcc_videoPayloadToAVCC:
  assumes "length data < 2 ^ 32" "splitAnnexB data \<noteq> []"
  shows "read_avcc (videoPayloadToAVCC data codecType)
    = Some (filter (\<lambda>nal. \<not> isParamSetNALU nal codecType) (splitAnnexB data))"
proof -
  have "\<forall>nal \<in> set (splitAnnexB data). length nal < 2 ^ 32"
    using length_le_concat splitAnnexB_sound(2) assms(1) by (metis le_less_trans)
  then show ?thesis
    using assms(2) splitAnnexB_sound(1) [of data]
    by (simp add: videoPayloadToAVCC_def Let_def avccLoop_avcc read_avcc_avcc)
qed

subsection \<open>Properties\<close>

text \<open>
  The index scan of the splitter is the splitter on the remaining bytes, for every input. Its
  units are not empty, have no start code inside and together are no longer than the input.
\<close>

theorem splitAnnexB_correct:
  "splitAnnexB data = units [] data
    \<and> list_all (\<lambda>nal. nal \<noteq> [] \<and> \<not> has_code nal) (splitAnnexB data)
    \<and> length (concat (splitAnnexB data)) \<le> length data"
  using splitAnnexB_sound [of data] by (simp add: splitAnnexB_units list_all_iff)

text \<open>
  C19: a video payload made of NAL units, in any of the three shapes the grabber delivers and with
  three- or four-byte start codes, is re-framed without loss: a reader of length-prefixed units gets
  back exactly the units that are not parameter sets, in order.
\<close>

theorem payload_to_avcc:
  assumes "xs \<noteq> []" "\<forall>(long, nal) \<in> set xs. nal_unit nal" "length (payload leading xs) < 2 ^ 32"
  shows "read_avcc (videoPayloadToAVCC (payload leading xs) codecType)
    = Some (filter (\<lambda>nal. \<not> isParamSetNALU nal codecType) (map snd xs))"
  using read_avcc_videoPayloadToAVCC [OF assms(3), of codecType] splitAnnexB_payload [OF assms(2), of leading] assms(1)
  by simp

lemma payload_to_avcc_witness:
  "read_avcc (videoPayloadToAVCC [0, 0, 0, 1, 0x67, 0x42, 0, 0, 1, 0x68, 0xCE, 0, 0, 1, 0x65, 0xAA] CodecH264)
     = Some [[0x65, 0xAA]]"
  using payload_to_avcc [of "[(True, [0x67, 0x42]), (False, [0x68, 0xCE]), (False, [0x65, 0xAA])]" True CodecH264]
  by (simp add: nal_unit_def annexb_def start_code_def isParamSetNALU_def video_codecs)

end
