(* ===== verification/Grabber.thy ===== *)
theory Grabber
  imports Annex_B
begin

unbundle bit_operations_syntax

text \<open>
  The RTSP grabber, \<^verbatim>\<open>src/internal/avgrabber\<close>: the frames and status codes of the C library
  (\<^verbatim>\<open>types.go\<close>, \<^verbatim>\<open>constants.go\<close>, \<^verbatim>\<open>errors.go\<close>), the session that wraps it (\<^verbatim>\<open>session.go\<close>) and the demuxer
  that turns its frames into packets (\<^verbatim>\<open>demuxer.go\<close>). The C library is a parameter: it answers each
  call, numbered by the loop iterations of the demuxer, with a status code and a value. The codec
  parsers of the SDK are parameters too. 64-bit products wrap. The two reading loops are partial
  functions: they have a value exactly when the loop of the code ends.
\<close>

subsection \<open>Constants and status codes\<close>

definition FrameTypeParamSet :: int where "FrameTypeParamSet = 0"
definition FrameTypeKey :: int where "FrameTypeKey = 1"
definition FrameTypeDelta :: int where "FrameTypeDelta = 2"
definition MediaVideo :: int where "MediaVideo = 0"
definition MediaAudio :: int where "MediaAudio = 1"

definition CodecG711U :: byte where "CodecG711U = 3"
definition CodecG711A :: byte where "CodecG711A = 4"
definition CodecL16 :: byte where "CodecL16 = 5"
definition CodecAAC :: byte where "CodecAAC = 6"
definition CodecG722 :: byte where "CodecG722 = 9"
definition CodecG726 :: byte where "CodecG726 = 10"
definition CodecOpus :: byte where "CodecOpus = 11"

definition StatusOK :: int where "StatusOK = 0"
definition ErrNullPointer :: int where "ErrNullPointer = 3"
definition ErrNotReady :: int where "ErrNotReady = 10"
definition ErrStopped :: int where "ErrStopped = 18"
definition ErrInvalidArg :: int where "ErrInvalidArg = 37"
definition ErrAuthFailed :: int where "ErrAuthFailed = 1101"

lemmas frame_kinds = FrameTypeParamSet_def FrameTypeKey_def FrameTypeDelta_def MediaVideo_def MediaAudio_def
lemmas audio_codecs = CodecG711U_def CodecG711A_def CodecL16_def CodecAAC_def CodecG722_def CodecG726_def CodecOpus_def
lemmas status_codes = StatusOK_def ErrNullPointer_def ErrNotReady_def ErrStopped_def ErrInvalidArg_def ErrAuthFailed_def

definition errNotReady :: go_error where "errNotReady = ErrorString ''not ready''"
definition errStopped :: go_error where "errStopped = ErrorString ''stopped''"
definition errAuthFailed :: go_error where "errAuthFailed = ErrorString ''authentication failed''"
definition errNullPointer :: go_error where "errNullPointer = ErrorString ''null pointer''"
definition errInvalidArg :: go_error where "errInvalidArg = ErrorString ''invalid argument''"
definition errUnknown :: go_error where "errUnknown = ErrorString ''avgrabber error''"

lemmas grabber_errors = errNotReady_def errStopped_def errAuthFailed_def errNullPointer_def errInvalidArg_def errUnknown_def

definition statusError :: "int \<Rightarrow> go_error option" where
  "statusError rc =
    (if rc = StatusOK then None
     else if rc = ErrNullPointer then Some errNullPointer
     else if rc = ErrNotReady then Some errNotReady
     else if rc = ErrStopped then Some errStopped
     else if rc = ErrInvalidArg then Some errInvalidArg
     else if rc = ErrAuthFailed then Some errAuthFailed
     else Some (WrapError [] errUnknown ('' '' @ itoa rc)))"

definition IsNotReady :: "go_error \<Rightarrow> bool" where
  "IsNotReady e = errors_Is e errNotReady"

definition IsFatal :: "go_error \<Rightarrow> bool" where
  "IsFatal e \<longleftrightarrow> errors_Is e errStopped \<or> errors_Is e errAuthFailed"

lemma statusError_None [simp]: "statusError rc = None \<longleftrightarrow> rc = StatusOK"
  by (simp add: statusError_def)

lemma statusError_NotReady: "statusError rc = Some e \<Longrightarrow> IsNotReady e \<longleftrightarrow> rc = ErrNotReady"
  by (auto simp: statusError_def IsNotReady_def grabber_errors status_codes split: if_splits)

lemma statusError_Fatal: "statusError rc = Some e \<Longrightarrow> IsFatal e \<longleftrightarrow> rc = ErrStopped \<or> rc = ErrAuthFailed"
  by (auto simp: statusError_def IsFatal_def grabber_errors status_codes split: if_splits)

subsection \<open>Frames and the session\<close>

record Frame =
  fr_FrameType :: int
  fr_MediaType :: int
  fr_FrameSize :: int
  fr_CodecType :: byte
  fr_Flags :: byte
  fr_WallClockMS :: int
  fr_NTPMS :: int
  fr_PTSTicks :: int
  fr_DTSTicks :: int
  fr_DurationTicks :: "32 word"
  fr_Data :: bytes

definition IsKeyframe :: "Frame \<Rightarrow> bool" where "IsKeyframe f \<longleftrightarrow> fr_Flags f AND 0x04 \<noteq> 0"
definition IsNTPSynced :: "Frame \<Rightarrow> bool" where "IsNTPSynced f \<longleftrightarrow> fr_Flags f AND 0x01 \<noteq> 0"
definition IsDiscontinuity :: "Frame \<Rightarrow> bool" where "IsDiscontinuity f \<longleftrightarrow> fr_Flags f AND 0x02 \<noteq> 0"
definition HasSEI :: "Frame \<Rightarrow> bool" where "HasSEI f \<longleftrightarrow> fr_Flags f AND 0x10 \<noteq> 0"

record StreamInfo =
  si_VideoCodec :: byte
  si_AudioCodec :: byte
  si_AudioChannels :: byte
  si_FPS :: byte
  si_Width :: "16 word"
  si_Height :: "16 word"
  si_VideoClockRate :: "32 word"
  si_AudioSampleRate :: "32 word"
  si_AudioSamplesPerFrame :: "32 word"

record Stats =
  sx_VideoBitrateKbps :: "32 word"
  sx_VideoFPSMilli :: "32 word"
  sx_VideoFrameTotal :: "64 word"
  sx_VideoBytesTotal :: "64 word"
  sx_AudioBitrateKbps :: "32 word"
  sx_AudioFrameTotal :: "64 word"
  sx_AudioBytesTotal :: "64 word"
  sx_ElapsedMS :: "64 word"
  sx_Discontinuities :: "32 word"

record Config =
  cf_URL :: string
  cf_Username :: string
  cf_Password :: string
  cf_Protocol :: int
  cf_Multicast :: bool
  cf_Audio :: bool
  cf_ConnectTimeoutMS :: int
  cf_FrameQueueDepth :: int

text \<open>The C structs: a frame's header with its payload, and the configuration with its flags as integers.\<close>

record c_frame =
  c_frame_type :: int
  c_media_type :: int
  c_frame_size :: int
  c_codec_type :: byte
  c_flags :: byte
  c_wall_clock_ms :: int
  c_ntp_ms :: int
  c_pts_ticks :: int
  c_dts_ticks :: int
  c_duration_ticks :: "32 word"
  c_data :: bytes

record c_config =
  c_url :: string
  c_username :: string
  c_password :: string
  c_protocol :: int
  c_multicast :: int
  c_audio :: int
  c_connect_timeout_ms :: int
  c_frame_queue_depth :: int

record c_library =
  avgrabber_open :: "c_config \<Rightarrow> int \<times> nat"
  avgrabber_close :: "nat \<Rightarrow> int"
  avgrabber_stop :: "nat option \<Rightarrow> int"
  avgrabber_resume :: "nat option \<Rightarrow> int"
  avgrabber_next_frame :: "nat option \<Rightarrow> int \<Rightarrow> nat \<Rightarrow> int \<times> c_frame"
  avgrabber_stream_info :: "nat option \<Rightarrow> nat \<Rightarrow> int \<times> StreamInfo"
  avgrabber_stats :: "nat option \<Rightarrow> nat \<Rightarrow> int \<times> Stats"

record Session =
  ss_ptr :: "nat option"

definition Open :: "c_library \<Rightarrow> Config \<Rightarrow> Session result" where
  "Open lib cfg =
    (let ccfg = \<lparr>c_url = cf_URL cfg, c_username = cf_Username cfg, c_password = cf_Password cfg, c_protocol = cf_Protocol cfg,
       c_multicast = (if cf_Multicast cfg then 1 else 0), c_audio = (if cf_Audio cfg then 1 else 0),
       c_connect_timeout_ms = cf_ConnectTimeoutMS cfg, c_frame_queue_depth = cf_FrameQueueDepth cfg\<rparr>;
       (rc, p) = avgrabber_open lib ccfg
     in case statusError rc of Some e \<Rightarrow> Inl e | None \<Rightarrow> Inr \<lparr>ss_ptr = Some p\<rparr>)"

definition Close_session :: "c_library \<Rightarrow> Session \<Rightarrow> go_error option \<times> Session" where
  "Close_session lib s =
    (case ss_ptr s of None \<Rightarrow> (None, s) | Some p \<Rightarrow> (statusError (avgrabber_close lib p), s\<lparr>ss_ptr := None\<rparr>))"

definition Stop_session :: "c_library \<Rightarrow> Session \<Rightarrow> go_error option" where
  "Stop_session lib s = statusError (avgrabber_stop lib (ss_ptr s))"

definition Resume_session :: "c_library \<Rightarrow> Session \<Rightarrow> go_error option" where
  "Resume_session lib s = statusError (avgrabber_resume lib (ss_ptr s))"

text \<open>\<^verbatim>\<open>C.GoBytes\<close> copies the first \<^verbatim>\<open>frame_size\<close> bytes of the payload.\<close>

definition frame_of :: "c_frame \<Rightarrow> Frame" where
  "frame_of h = \<lparr>fr_FrameType = c_frame_type h, fr_MediaType = c_media_type h, fr_FrameSize = c_frame_size h,
     fr_CodecType = c_codec_type h, fr_Flags = c_flags h, fr_WallClockMS = c_wall_clock_ms h, fr_NTPMS = c_ntp_ms h,
     fr_PTSTicks = c_pts_ticks h, fr_DTSTicks = c_dts_ticks h, fr_DurationTicks = c_duration_ticks h,
     fr_Data = take (nat (c_frame_size h)) (c_data h)\<rparr>"

definition NextFrame :: "c_library \<Rightarrow> Session \<Rightarrow> int \<Rightarrow> nat \<Rightarrow> Frame result" where
  "NextFrame lib s timeoutMS k =
    (let (rc, cframe) = avgrabber_next_frame lib (ss_ptr s) timeoutMS k
     in case statusError rc of Some e \<Rightarrow> Inl e | None \<Rightarrow> Inr (frame_of cframe))"

definition GetStreamInfo :: "c_library \<Rightarrow> Session \<Rightarrow> nat \<Rightarrow> StreamInfo result" where
  "GetStreamInfo lib s k =
    (let (rc, ci) = avgrabber_stream_info lib (ss_ptr s) k
     in case statusError rc of Some e \<Rightarrow> Inl e | None \<Rightarrow> Inr ci)"

definition GetStats :: "c_library \<Rightarrow> Session \<Rightarrow> nat \<Rightarrow> Stats result" where
  "GetStats lib s k =
    (let (rc, cs) = avgrabber_stats lib (ss_ptr s) k
     in case statusError rc of Some e \<Rightarrow> Inl e | None \<Rightarrow> Inr cs)"

subsection \<open>Codecs and packets\<close>

datatype CodecType = H264 | H265 | MJPEG | UNKNOWN | AAC | PCM_MULAW | PCM_ALAW | OPUS | PCM

datatype ChannelLayout = ChMono | ChFrontLeftRight

text \<open>
  Codec data made by a function of the SDK is opaque; the two PCM structs are written out by the
  demuxer itself (sample format S16), with their type, sample rate and channel layout.
\<close>

datatype 'c CodecData =
    SdkCodec 'c
  | PCMMulawCodecData CodecType int ChannelLayout
  | PCMAlawCodecData CodecType int ChannelLayout

record 'c Stream =
  st_Idx :: nat
  st_Codec :: "'c CodecData"

record 'c Packet =
  pk_Idx :: nat
  pk_CodecType :: CodecType
  pk_IsDiscontinuity :: bool
  pk_DTS :: duration
  pk_PTSOffset :: duration
  pk_WallClockTime :: instant
  pk_FrameID :: int
  pk_KeyFrame :: bool
  pk_Data :: bytes
  pk_Duration :: duration
  pk_NewCodecs :: "'c Stream list option"

definition avCodecType :: "Frame \<Rightarrow> CodecType" where
  "avCodecType f =
    (if fr_MediaType f = MediaAudio then
       if fr_CodecType f = CodecAAC then AAC
       else if fr_CodecType f = CodecG711U then PCM_MULAW
       else if fr_CodecType f = CodecG711A then PCM_ALAW
       else if fr_CodecType f = CodecOpus then OPUS
       else PCM
     else if fr_CodecType f = CodecH264 then H264
     else if fr_CodecType f = CodecH265 then H265
     else if fr_CodecType f = CodecMJPEG then MJPEG
     else UNKNOWN)"

text \<open>
  The context, the library and the SDK: \<^verbatim>\<open>ctx.Err()\<close> at each iteration, the parsers and what the
  demuxer asks of their results.
\<close>

record ('c, 'm) grab_env =
  ge_ctx_Err :: "nat \<Rightarrow> go_error option"
  ge_lib :: c_library
  ge_NewCodecDataFromSPSAndPPS :: "bytes \<Rightarrow> bytes \<Rightarrow> 'c result"
  ge_NewCodecDataFromVPSAndSPSAndPPS :: "bytes \<Rightarrow> bytes \<Rightarrow> bytes \<Rightarrow> 'c result"
  ge_TimeScale :: "'c \<Rightarrow> 32 word"
  ge_PacketDuration :: "'c \<Rightarrow> duration"
  ge_ParseADTSHeader :: "bytes \<Rightarrow> ('m \<times> nat) result"
  ge_SampleRate :: "'m \<Rightarrow> 32 word"
  ge_NewCodecDataFromMPEG4AudioConfig :: "'m \<Rightarrow> 'c result"
  ge_NewPCMMulawCodecData :: 'c
  ge_NewPCMAlawCodecData :: 'c
  ge_NewOpusCodecData :: "int \<Rightarrow> ChannelLayout \<Rightarrow> 'c"

record 'c Demuxer =
  dm_session :: Session
  dm_videoCodec :: "'c CodecData option"
  dm_videoClk :: "32 word"
  dm_audioCodec :: "'c CodecData option"
  dm_audioClk :: "32 word"
  dm_audioReady :: bool
  dm_pendingSPSH264 :: bytes
  dm_pendingPPSH264 :: bytes
  dm_pendingVPSH265 :: bytes
  dm_pendingSPSH265 :: bytes
  dm_pendingPPSH265 :: bytes
  dm_codecDirty :: bool
  dm_lastVideoDTS :: duration
  dm_lastAudioDTS :: duration
  dm_nominalVideoDur :: duration
  dm_hasLastVideoDTS :: bool
  dm_hasLastAudioDTS :: bool

definition new_demuxer :: "Session \<Rightarrow> 'c Demuxer" where
  "new_demuxer s = \<lparr>dm_session = s, dm_videoCodec = None, dm_videoClk = 0, dm_audioCodec = None, dm_audioClk = 0,
     dm_audioReady = False, dm_pendingSPSH264 = [], dm_pendingPPSH264 = [], dm_pendingVPSH265 = [],
     dm_pendingSPSH265 = [], dm_pendingPPSH265 = [], dm_codecDirty = False, dm_lastVideoDTS = 0,
     dm_lastAudioDTS = 0, dm_nominalVideoDur = 0, dm_hasLastVideoDTS = False, dm_hasLastAudioDTS = False\<rparr>"

definition NewDemuxer :: "c_library \<Rightarrow> Config \<Rightarrow> 'c Demuxer result" where
  "NewDemuxer lib cfg = (case Open lib cfg of Inl e \<Rightarrow> Inl e | Inr s \<Rightarrow> Inr (new_demuxer s))"

definition videoStreamIdx :: nat where "videoStreamIdx = 0"
definition audioStreamIdx :: nat where "audioStreamIdx = 1"
definition frameTimeoutMS :: int where "frameTimeoutMS = 50"

lemmas stream_indices = videoStreamIdx_def audioStreamIdx_def

subsection \<open>Parameter sets\<close>

text \<open>The last unit of each kind in the frame wins; \<^verbatim>\<open>nil\<close> is \<open>None\<close>.\<close>

definition h264_sets :: "bytes list \<Rightarrow> bytes option \<times> bytes option" where
  "h264_sets nals = fold (\<lambda>nal (sps, pps).
     if nal = [] then (sps, pps)
     else if hd nal AND 0x1F = 7 then (Some nal, pps)
     else if hd nal AND 0x1F = 8 then (sps, Some nal)
     else (sps, pps)) nals (None, None)"

definition h265_sets :: "bytes list \<Rightarrow> bytes option \<times> bytes option \<times> bytes option" where
  "h265_sets nals = fold (\<lambda>nal (vps, sps, pps).
     if nal = [] then (vps, sps, pps)
     else let nalType = drop_bit 1 (hd nal AND 0x7E) in
       if nalType = 32 then (Some nal, sps, pps)
       else if nalType = 33 then (vps, Some nal, pps)
       else if nalType = 34 then (vps, sps, Some nal)
       else (vps, sps, pps)) nals (None, None, None)"

definition set_video_codec :: "('c, 'm) grab_env \<Rightarrow> 'c \<Rightarrow> 'c Demuxer \<Rightarrow> 'c Demuxer" where
  "set_video_codec env cd d = d\<lparr>dm_videoCodec := Some (SdkCodec cd), dm_videoClk := ge_TimeScale env cd,
     dm_nominalVideoDur := ge_PacketDuration env cd\<rparr>"

definition applyH264ParamSet :: "('c, 'm) grab_env \<Rightarrow> bytes \<Rightarrow> 'c Demuxer \<Rightarrow> go_error option \<times> 'c Demuxer" where
  "applyH264ParamSet env data d =
    (case h264_sets (splitAnnexB data) of
       (Some sps, Some pps) \<Rightarrow>
         (case ge_NewCodecDataFromSPSAndPPS env sps pps of
            Inl e \<Rightarrow> (Some e, d)
          | Inr cd \<Rightarrow> (None, (set_video_codec env cd d)\<lparr>dm_pendingSPSH264 := sps, dm_pendingPPSH264 := pps,
              dm_codecDirty := True\<rparr>))
     | _ \<Rightarrow> (None, d))"

definition applyH265ParamSet :: "('c, 'm) grab_env \<Rightarrow> bytes \<Rightarrow> 'c Demuxer \<Rightarrow> go_error option \<times> 'c Demuxer" where
  "applyH265ParamSet env data d =
    (case h265_sets (splitAnnexB data) of
       (Some vps, Some sps, Some pps) \<Rightarrow>
         (case ge_NewCodecDataFromVPSAndSPSAndPPS env vps sps pps of
            Inl e \<Rightarrow> (Some e, d)
          | Inr cd \<Rightarrow> (None, (set_video_codec env cd d)\<lparr>dm_pendingVPSH265 := vps, dm_pendingSPSH265 := sps,
              dm_pendingPPSH265 := pps, dm_codecDirty := True\<rparr>))
     | _ \<Rightarrow> (None, d))"

definition applyParamSet :: "('c, 'm) grab_env \<Rightarrow> Frame \<Rightarrow> 'c Demuxer \<Rightarrow> go_error option \<times> 'c Demuxer" where
  "applyParamSet env f d =
    (if fr_CodecType f = CodecH264 then applyH264ParamSet env (fr_Data f) d
     else if fr_CodecType f = CodecH265 then applyH265ParamSet env (fr_Data f) d
     else (None, d))"

definition buildStreams :: "'c Demuxer \<Rightarrow> 'c Stream list option" where
  "buildStreams d =
    (case dm_videoCodec d of
       None \<Rightarrow> None
     | Some v \<Rightarrow>
         Some (\<lparr>st_Idx = videoStreamIdx, st_Codec = v\<rparr> #
           (case dm_audioCodec d of
              Some a \<Rightarrow> if dm_audioReady d then [\<lparr>st_Idx = audioStreamIdx, st_Codec = a\<rparr>] else []
            | None \<Rightarrow> [])))"
subsection \<open>Audio codecs\<close>

definition set_audio :: "'c CodecData \<Rightarrow> 32 word \<Rightarrow> 'c Demuxer \<Rightarrow> 'c Demuxer" where
  "set_audio cd clk d = d\<lparr>dm_audioCodec := Some cd, dm_audioClk := clk, dm_audioReady := True\<rparr>"

text \<open>The sample rate that the stream information gives, or the default.\<close>

definition sample_rate :: "('c, 'm) grab_env \<Rightarrow> Session \<Rightarrow> nat \<Rightarrow> 32 word \<Rightarrow> 32 word" where
  "sample_rate env s k sr =
    (case GetStreamInfo (ge_lib env) s k of
       Inr info \<Rightarrow> if 0 < si_AudioSampleRate info then si_AudioSampleRate info else sr
     | Inl e \<Rightarrow> sr)"

definition tryAudioFromStreamInfo :: "('c, 'm) grab_env \<Rightarrow> nat \<Rightarrow> 'c Demuxer \<Rightarrow> 'c Demuxer" where
  "tryAudioFromStreamInfo env k d =
    (case GetStreamInfo (ge_lib env) (dm_session d) k of
       Inl e \<Rightarrow> d
     | Inr info \<Rightarrow>
         if si_AudioSampleRate info = 0 then d
         else
           let clk = si_AudioSampleRate info;
               rate = uint clk;
               ch = (if 2 \<le> si_AudioChannels info then ChFrontLeftRight else ChMono);
               c = si_AudioCodec info
           in if c = CodecG711U then set_audio (PCMMulawCodecData PCM_MULAW rate ch) clk d
              else if c = CodecG711A then set_audio (PCMAlawCodecData PCM_ALAW rate ch) clk d
              else if c = CodecOpus then set_audio (SdkCodec (ge_NewOpusCodecData env rate ch)) clk d
              else if c = CodecG722 \<or> c = CodecG726 \<or> c = CodecL16 then set_audio (PCMMulawCodecData PCM rate ch) clk d
              else d\<lparr>dm_audioClk := clk\<rparr>)"

definition tryAudioFromFrame :: "('c, 'm) grab_env \<Rightarrow> nat \<Rightarrow> Frame \<Rightarrow> 'c Demuxer \<Rightarrow> 'c Demuxer" where
  "tryAudioFromFrame env k f d =
    (let ch = ChMono; c = fr_CodecType f in
     if c = CodecAAC then
       (case ge_ParseADTSHeader env (fr_Data f) of
          Inl e \<Rightarrow> d
        | Inr (config, hdrLen) \<Rightarrow>
            (case ge_NewCodecDataFromMPEG4AudioConfig env config of
               Inl e \<Rightarrow> d
             | Inr cd \<Rightarrow> set_audio (SdkCodec cd) (ge_SampleRate env config) d))
     else if c = CodecG711U then set_audio (SdkCodec (ge_NewPCMMulawCodecData env)) 8000 d
     else if c = CodecG711A then set_audio (SdkCodec (ge_NewPCMAlawCodecData env)) 8000 d
     else if c = CodecOpus then
       let sr = sample_rate env (dm_session d) k 48000
       in set_audio (SdkCodec (ge_NewOpusCodecData env (uint sr) ch)) sr d
     else if c = CodecG722 \<or> c = CodecG726 \<or> c = CodecL16 then
       let sr = sample_rate env (dm_session d) k 8000
       in set_audio (PCMMulawCodecData PCM (uint sr) ch) sr d
     else d)"

subsection \<open>Packets\<close>

text \<open>Ticks to a duration: the product is a 64-bit product, the quotient truncates.\<close>

definition ticks_duration :: "int \<Rightarrow> 32 word \<Rightarrow> duration" where
  "ticks_duration t clk = wrap64 (t * Second) sdiv uint clk"

text \<open>\<^verbatim>\<open>time.UnixMilli\<close>; the Unix epoch is 62135596800 seconds after the zero time.\<close>

definition UnixMilli :: "int \<Rightarrow> instant" where
  "UnixMilli ms = 62135596800 * Second + ms * Millisecond"

definition basePacket :: "Frame \<Rightarrow> nat \<Rightarrow> 'c Demuxer \<Rightarrow> 'c Packet" where
  "basePacket f idx d =
    (let clk = (if idx = audioStreamIdx then dm_audioClk d else dm_videoClk d);
         dts = (if 0 < clk then ticks_duration (fr_DTSTicks f) clk else 0);
         ptsOffset = (if 0 < clk \<and> fr_PTSTicks f \<noteq> fr_DTSTicks f
           then ticks_duration (wrap64 (fr_PTSTicks f - fr_DTSTicks f)) clk else 0)
     in \<lparr>pk_Idx = idx, pk_CodecType = avCodecType f, pk_IsDiscontinuity = IsDiscontinuity f, pk_DTS = dts,
         pk_PTSOffset = ptsOffset, pk_WallClockTime = UnixMilli (fr_WallClockMS f), pk_FrameID = fr_PTSTicks f,
         pk_KeyFrame = False, pk_Data = [], pk_Duration = 0, pk_NewCodecs = None\<rparr>)"

definition videoDuration :: "duration \<Rightarrow> 'c Demuxer \<Rightarrow> duration \<times> 'c Demuxer" where
  "videoDuration dts d =
    (if dm_hasLastVideoDTS d then
       let delta = wrap64 (dts - dm_lastVideoDTS d); d' = d\<lparr>dm_lastVideoDTS := dts\<rparr>
       in if 0 < delta then (delta, d') else (dm_nominalVideoDur d', d')
     else
       let d' = d\<lparr>dm_hasLastVideoDTS := True, dm_lastVideoDTS := dts\<rparr>
       in (dm_nominalVideoDur d', d'))"

text \<open>What \<^verbatim>\<open>(pkt, skip, err)\<close> says: an error, a frame to skip, or a packet. A slice out of range is a panic.\<close>

definition slice_panic :: go_error where
  "slice_panic = ErrorString ''runtime error: slice bounds out of range''"

definition videoFrameToPacket :: "('c, 'm) grab_env \<Rightarrow> Frame \<Rightarrow> 'c Demuxer \<Rightarrow> 'c Packet option result \<times> 'c Demuxer" where
  "videoFrameToPacket env f d =
    (if fr_FrameType f = FrameTypeParamSet then
       (case applyParamSet env f d of
          (Some e, d') \<Rightarrow> (Inl e, d')
        | (None, d') \<Rightarrow> (Inr None, d'))
     else if fr_FrameType f = FrameTypeKey then
       let pkt = basePacket f videoStreamIdx d;
           (dur, d1) = videoDuration (pk_DTS pkt) d;
           pkt = pkt\<lparr>pk_KeyFrame := True, pk_Data := videoPayloadToAVCC (fr_Data f) (fr_CodecType f), pk_Duration := dur\<rparr>
       in if dm_codecDirty d1 then (Inr (Some (pkt\<lparr>pk_NewCodecs := buildStreams d1\<rparr>)), d1\<lparr>dm_codecDirty := False\<rparr>)
          else (Inr (Some pkt), d1)
     else if fr_FrameType f = FrameTypeDelta then
       let pkt = basePacket f videoStreamIdx d;
           (dur, d1) = videoDuration (pk_DTS pkt) d
       in (Inr (Some (pkt\<lparr>pk_Data := videoPayloadToAVCC (fr_Data f) (fr_CodecType f), pk_Duration := dur\<rparr>)), d1)
     else (Inr None, d))"

definition audioDuration :: "Frame \<Rightarrow> duration \<Rightarrow> 'c Demuxer \<Rightarrow> duration" where
  "audioDuration f dts d =
    (if 0 < dm_audioClk d \<and> 0 < fr_DurationTicks f then ticks_duration (uint (fr_DurationTicks f)) (dm_audioClk d)
     else if dm_hasLastAudioDTS d then max 0 (wrap64 (dts - dm_lastAudioDTS d))
     else 0)"

definition audioFrameToPacket :: "('c, 'm) grab_env \<Rightarrow> nat \<Rightarrow> Frame \<Rightarrow> 'c Demuxer \<Rightarrow> 'c Packet option result \<times> 'c Demuxer" where
  "audioFrameToPacket env k f d =
    (let d = (if dm_audioReady d then d else tryAudioFromFrame env k f d) in
     if \<not> dm_audioReady d then (Inr None, d)
     else
       let pkt = basePacket f audioStreamIdx d;
           data = (if fr_CodecType f = CodecAAC then
                     (case ge_ParseADTSHeader env (fr_Data f) of
                        Inl e \<Rightarrow> Inr None
                      | Inr (config, hdrLen) \<Rightarrow>
                          if hdrLen \<le> length (fr_Data f) then Inr (Some (drop hdrLen (fr_Data f))) else Inl slice_panic)
                   else Inr (Some (fr_Data f)))
       in case data of
            Inl e \<Rightarrow> (Inl e, d)
          | Inr None \<Rightarrow> (Inr None, d)
          | Inr (Some raw) \<Rightarrow>
              (Inr (Some (pkt\<lparr>pk_Data := raw, pk_Duration := audioDuration f (pk_DTS pkt) d\<rparr>)),
               d\<lparr>dm_lastAudioDTS := pk_DTS pkt, dm_hasLastAudioDTS := True\<rparr>))"

definition frameToPacket :: "('c, 'm) grab_env \<Rightarrow> nat \<Rightarrow> Frame \<Rightarrow> 'c Demuxer \<Rightarrow> 'c Packet option result \<times> 'c Demuxer" where
  "frameToPacket env k f d =
    (if fr_MediaType f = MediaVideo then videoFrameToPacket env f d
     else if fr_MediaType f = MediaAudio then audioFrameToPacket env k f d
     else (Inr None, d))"

subsection \<open>The reading loops\<close>

text \<open>
  One iteration of \<^verbatim>\<open>GetCodecs\<close> on a frame that was read: the streams to return, if any, or an error.
  Iteration \<open>k\<close> makes the \<open>k\<close>-th call of the library.
\<close>

definition codecs_step :: "('c, 'm) grab_env \<Rightarrow> nat \<Rightarrow> Frame \<Rightarrow> 'c Demuxer \<Rightarrow> 'c Stream list option result \<times> 'c Demuxer" where
  "codecs_step env k f d =
    (if fr_MediaType f = MediaVideo \<and> fr_FrameType f = FrameTypeParamSet then
       (case applyParamSet env f d of
          (Some e, d1) \<Rightarrow> (Inl e, d1)
        | (None, d1) \<Rightarrow>
            let d2 = (if dm_audioReady d1 then d1 else tryAudioFromStreamInfo env k d1)
            in (Inr (buildStreams d2), d2))
     else if fr_MediaType f = MediaAudio \<and> \<not> dm_audioReady d then (Inr None, tryAudioFromFrame env k f d)
     else (Inr None, d))"

partial_function (option) GetCodecs ::
  "('c, 'm) grab_env \<Rightarrow> 'c Demuxer \<Rightarrow> nat \<Rightarrow> ('c Stream list result \<times> 'c Demuxer \<times> nat) option" where
  "GetCodecs env d k =
    (case ge_ctx_Err env k of
       Some e \<Rightarrow> Some (Inl e, d, k)
     | None \<Rightarrow>
         (case NextFrame (ge_lib env) (dm_session d) frameTimeoutMS k of
            Inl e \<Rightarrow> if IsNotReady e then GetCodecs env d (k + 1) else Some (Inl e, d, k + 1)
          | Inr f \<Rightarrow>
              (case codecs_step env k f d of
                 (Inl e, d') \<Rightarrow> Some (Inl e, d', k + 1)
               | (Inr None, d') \<Rightarrow> GetCodecs env d' (k + 1)
               | (Inr (Some streams), d') \<Rightarrow> Some (Inr streams, d', k + 1))))"

partial_function (option) ReadPacket ::
  "('c, 'm) grab_env \<Rightarrow> 'c Demuxer \<Rightarrow> nat \<Rightarrow> ('c Packet result \<times> 'c Demuxer \<times> nat) option" where
  "ReadPacket env d k =
    (case ge_ctx_Err env k of
       Some e \<Rightarrow> Some (Inl e, d, k)
     | None \<Rightarrow>
         (case NextFrame (ge_lib env) (dm_session d) frameTimeoutMS k of
            Inl e \<Rightarrow> if IsNotReady e then ReadPacket env d (k + 1) else Some (Inl e, d, k + 1)
          | Inr f \<Rightarrow>
              (case frameToPacket env k f d of
                 (Inl e, d') \<Rightarrow> Some (Inl e, d', k + 1)
               | (Inr None, d') \<Rightarrow> ReadPacket env d' (k + 1)
               | (Inr (Some pkt), d') \<Rightarrow> Some (Inr pkt, d', k + 1))))"

definition Pause :: "('c, 'm) grab_env \<Rightarrow> 'c Demuxer \<Rightarrow> go_error option" where
  "Pause env d = Stop_session (ge_lib env) (dm_session d)"

definition Resume :: "('c, 'm) grab_env \<Rightarrow> 'c Demuxer \<Rightarrow> go_error option" where
  "Resume env d = Resume_session (ge_lib env) (dm_session d)"

definition IsPaused :: "'c Demuxer \<Rightarrow> bool" where
  "IsPaused d = False"

definition Close_demuxer :: "('c, 'm) grab_env \<Rightarrow> 'c Demuxer \<Rightarrow> go_error option \<times> 'c Demuxer" where
  "Close_demuxer env d =
    (let (r, s) = Close_session (ge_lib env) (dm_session d) in (r, d\<lparr>dm_session := s\<rparr>))"
subsection \<open>What a parameter-set frame does\<close>

text \<open>The codec a frame announces: none unless it carries a complete set, else what the parser makes of it.\<close>

definition param_codec :: "('c, 'm) grab_env \<Rightarrow> Frame \<Rightarrow> 'c result option" where
  "param_codec env f =
    (let nals = splitAnnexB (fr_Data f) in
     if fr_CodecType f = CodecH264 then
       (case h264_sets nals of
          (Some sps, Some pps) \<Rightarrow> Some (ge_NewCodecDataFromSPSAndPPS env sps pps) | _ \<Rightarrow> None)
     else if fr_CodecType f = CodecH265 then
       (case h265_sets nals of
          (Some vps, Some sps, Some pps) \<Rightarrow> Some (ge_NewCodecDataFromVPSAndSPSAndPPS env vps sps pps) | _ \<Rightarrow> None)
     else None)"

lemma applyParamSet_None: "param_codec env f = None \<Longrightarrow> applyParamSet env f d = (None, d)"
  by (auto simp: applyParamSet_def param_codec_def applyH264ParamSet_def applyH265ParamSet_def Let_def
      split: if_splits option.splits prod.splits)

lemma applyParamSet_Inl: "param_codec env f = Some (Inl e) \<Longrightarrow> applyParamSet env f d = (Some e, d)"
  by (auto simp: applyParamSet_def param_codec_def applyH264ParamSet_def applyH265ParamSet_def Let_def
      split: if_splits option.splits prod.splits)

lemma applyParamSet_Inr:
  assumes "param_codec env f = Some (Inr cd)"
  obtains d' where "applyParamSet env f d = (None, d')" "dm_videoCodec d' = Some (SdkCodec cd)" "dm_codecDirty d'"
    "dm_session d' = dm_session d"
  using assms that
  by (auto simp: applyParamSet_def param_codec_def applyH264ParamSet_def applyH265ParamSet_def set_video_codec_def Let_def
      split: if_splits option.splits prod.splits)

lemma set_audio_simps [simp]:
  "dm_session (set_audio cd clk d) = dm_session d" "dm_videoCodec (set_audio cd clk d) = dm_videoCodec d"
  "dm_codecDirty (set_audio cd clk d) = dm_codecDirty d" "dm_videoClk (set_audio cd clk d) = dm_videoClk d"
  by (simp_all add: set_audio_def)

lemma tryAudioFromStreamInfo_simps [simp]:
  "dm_session (tryAudioFromStreamInfo env k d) = dm_session d"
  "dm_videoCodec (tryAudioFromStreamInfo env k d) = dm_videoCodec d"
  "dm_codecDirty (tryAudioFromStreamInfo env k d) = dm_codecDirty d"
  by (simp_all add: tryAudioFromStreamInfo_def Let_def split: sum.split)

lemma tryAudioFromFrame_simps [simp]:
  "dm_session (tryAudioFromFrame env k f d) = dm_session d"
  "dm_videoCodec (tryAudioFromFrame env k f d) = dm_videoCodec d"
  "dm_codecDirty (tryAudioFromFrame env k f d) = dm_codecDirty d"
  by (simp_all add: tryAudioFromFrame_def Let_def split: sum.split prod.split)

lemma videoDuration_keeps:
  "videoDuration dts d = (dur, d') \<Longrightarrow>
   dm_session d' = dm_session d \<and> dm_videoCodec d' = dm_videoCodec d \<and> dm_codecDirty d' = dm_codecDirty d
     \<and> dm_audioCodec d' = dm_audioCodec d \<and> dm_audioReady d' = dm_audioReady d"
  by (auto simp: videoDuration_def Let_def split: if_splits)

lemma buildStreams_None [simp]: "buildStreams d = None \<longleftrightarrow> dm_videoCodec d = None"
  by (simp add: buildStreams_def split: option.split)

subsection \<open>Loops that poll\<close>

text \<open>
  Both reading loops poll the library. The contract of such a loop: an iteration that satisfies the
  stop condition makes it return there, every other one makes it return or go on with the next
  iteration, in a state with the same stop condition. The position is the next iteration.
\<close>

locale polling_loop =
  fixes loop :: "'d \<Rightarrow> nat \<Rightarrow> 'r option" and position :: "'r \<Rightarrow> nat"
    and stops :: "'d \<Rightarrow> nat \<Rightarrow> bool" and waiting :: "'d \<Rightarrow> bool"
  assumes stop: "waiting d \<Longrightarrow> stops d k \<Longrightarrow> \<exists>y. loop d k = Some y \<and> position y \<le> k + 1"
    and step: "waiting d \<Longrightarrow> \<not> stops d k \<Longrightarrow> (\<exists>y. loop d k = Some y \<and> position y \<le> k + 1)
      \<or> (\<exists>d'. loop d k = loop d' (k + 1) \<and> waiting d' \<and> stops d' = stops d)"
begin

lemma returns_within: "waiting d \<Longrightarrow> stops d (k + n) \<Longrightarrow> \<exists>y. loop d k = Some y \<and> position y \<le> k + n + 1"
proof (induction n arbitrary: d k)
  case 0
  then show ?case using stop [of d k] by simp
next
  case (Suc n)
  show ?case
  proof (cases "stops d k")
    case True
    then show ?thesis using stop [OF Suc.prems(1), of k] by (auto intro: le_trans)
  next
    case False
    from step [OF Suc.prems(1) this] show ?thesis
    proof (elim disjE exE conjE)
      fix d'
      assume "loop d k = loop d' (k + 1)" "waiting d'" "stops d' = stops d"
      then show ?thesis using Suc.IH [of d' "k + 1"] Suc.prems(2) by simp
    qed auto
  qed
qed

lemma returns: "waiting d \<Longrightarrow> k \<le> n \<Longrightarrow> stops d n \<Longrightarrow> \<exists>y. loop d k = Some y \<and> position y \<le> n + 1"
  using returns_within [of d k "n - k"] by simp

end

subsection \<open>When the codecs are known\<close>

definition param_frame :: "Frame \<Rightarrow> bool" where
  "param_frame f \<longleftrightarrow> fr_MediaType f = MediaVideo \<and> fr_FrameType f = FrameTypeParamSet"

text \<open>An iteration that ends the wait for codecs: cancellation, a lasting error, or a complete parameter set.\<close>

definition codecs_end :: "('c, 'm) grab_env \<Rightarrow> Session \<Rightarrow> nat \<Rightarrow> bool" where
  "codecs_end env s k \<longleftrightarrow> ge_ctx_Err env k \<noteq> None \<or>
    (case NextFrame (ge_lib env) s frameTimeoutMS k of
       Inl e \<Rightarrow> \<not> IsNotReady e
     | Inr f \<Rightarrow> param_frame f \<and> param_codec env f \<noteq> None)"

lemma codecs_step_waits:
  assumes "dm_videoCodec d = None" "\<not> (param_frame f \<and> param_codec env f \<noteq> None)"
  shows "\<exists>d'. codecs_step env k f d = (Inr None, d') \<and> dm_videoCodec d' = None \<and> dm_session d' = dm_session d"
proof (cases "param_frame f")
  case True
  then have "applyParamSet env f d = (None, d)" using assms(2) by (simp add: applyParamSet_None)
  then show ?thesis using True assms(1) by (simp add: codecs_step_def param_frame_def Let_def)
next
  case False
  then have "codecs_step env k f d =
      (Inr None, if fr_MediaType f = MediaAudio \<and> \<not> dm_audioReady d then tryAudioFromFrame env k f d else d)"
    by (auto simp: codecs_step_def param_frame_def)
  then show ?thesis using assms(1) by simp
qed

lemma codecs_step_ends:
  assumes "param_frame f" "param_codec env f = Some r"
  shows "\<exists>d'. codecs_step env k f d = (case r of Inl e \<Rightarrow> Inl e | Inr cd \<Rightarrow> Inr (buildStreams d'), d')
    \<and> (\<forall>cd. r = Inr cd \<longrightarrow> dm_videoCodec d' = Some (SdkCodec cd) \<and> dm_codecDirty d')"
proof (cases r)
  case (Inl e)
  then show ?thesis using assms by (simp add: codecs_step_def param_frame_def applyParamSet_Inl)
next
  case (Inr cd)
  then obtain d1 where "applyParamSet env f d = (None, d1)" "dm_videoCodec d1 = Some (SdkCodec cd)" "dm_codecDirty d1"
    using applyParamSet_Inr assms(2) by metis
  then show ?thesis using assms(1) Inr by (simp add: codecs_step_def param_frame_def Let_def)
qed

lemma GetCodecs_ends:
  assumes "codecs_end env (dm_session d) k"
  shows "\<exists>r d' k'. GetCodecs env d k = Some (r, d', k') \<and> k' \<le> k + 1"
proof (cases "ge_ctx_Err env k")
  case None
  show ?thesis
  proof (cases "NextFrame (ge_lib env) (dm_session d) frameTimeoutMS k")
    case (Inl e)
    then show ?thesis using assms None by (subst GetCodecs.simps) (simp add: codecs_end_def)
  next
    case (Inr f)
    then obtain r where r: "param_frame f" "param_codec env f = Some r" using assms None by (auto simp: codecs_end_def)
    obtain d' where d': "codecs_step env k f d = (case r of Inl e \<Rightarrow> Inl e | Inr cd \<Rightarrow> Inr (buildStreams d'), d')"
      "\<forall>cd. r = Inr cd \<longrightarrow> dm_videoCodec d' = Some (SdkCodec cd) \<and> dm_codecDirty d'"
      using codecs_step_ends [OF r, of k d] by blast
    show ?thesis
    proof (cases r)
      case (Inl e)
      then show ?thesis using None Inr d' by (subst GetCodecs.simps) simp
    next
      case r: (Inr cd)
      then obtain streams where "buildStreams d' = Some streams" using d'(2) by (metis buildStreams_None not_Some_eq)
      then show ?thesis using None Inr d' r by (subst GetCodecs.simps) simp
    qed
  qed
qed (subst GetCodecs.simps, simp)

lemma GetCodecs_waits:
  assumes "dm_videoCodec d = None" "\<not> codecs_end env (dm_session d) k"
  obtains d' where "GetCodecs env d k = GetCodecs env d' (k + 1)" "dm_videoCodec d' = None" "dm_session d' = dm_session d"
proof (cases "NextFrame (ge_lib env) (dm_session d) frameTimeoutMS k")
  case (Inl e)
  then have "GetCodecs env d k = GetCodecs env d (k + 1)"
    using assms by (subst GetCodecs.simps) (simp add: codecs_end_def)
  then show ?thesis using assms(1) that by simp
next
  case (Inr f)
  then have "\<not> (param_frame f \<and> param_codec env f \<noteq> None)" "ge_ctx_Err env k = None"
    using assms(2) by (simp_all add: codecs_end_def)
  moreover from this obtain d' where "codecs_step env k f d = (Inr None, d')" "dm_videoCodec d' = None" "dm_session d' = dm_session d"
    using codecs_step_waits [OF assms(1)] by blast
  ultimately show ?thesis using Inr by (intro that [of d']) (simp_all add: GetCodecs.simps [of env d k])
qed

interpretation codecs_loop: polling_loop "GetCodecs env" "\<lambda>(r, d, k). k" "\<lambda>d. codecs_end env (dm_session d)"
  "\<lambda>d. dm_videoCodec d = None" for env
proof
  fix d :: "'a Demuxer" and k
  show "\<exists>y. GetCodecs env d k = Some y \<and> (case y of (r, d, k) \<Rightarrow> k) \<le> k + 1" if "codecs_end env (dm_session d) k"
    using GetCodecs_ends [OF that] by auto
  assume "dm_videoCodec d = None" "\<not> codecs_end env (dm_session d) k"
  from GetCodecs_waits [OF this] show "(\<exists>y. GetCodecs env d k = Some y \<and> (case y of (r, d, k) \<Rightarrow> k) \<le> k + 1)
      \<or> (\<exists>d'. GetCodecs env d k = GetCodecs env d' (k + 1) \<and> dm_videoCodec d' = None
           \<and> codecs_end env (dm_session d') = codecs_end env (dm_session d))" by metis
qed

lemma GetCodecs_needs_end:
  assumes "GetCodecs env d k = Some y" "dm_videoCodec d = None"
  shows "\<exists>n \<ge> k. codecs_end env (dm_session d) n"
  using assms
proof (induction rule: GetCodecs.raw_induct [rotated 1, consumes 1, case_names step])
  case (step G env d k y)
  show ?case
  proof (rule ccontr)
    assume "\<not> ?case"
    then have n: "\<not> codecs_end env (dm_session d) m" if "k \<le> m" for m using that by blast
    have c: "ge_ctx_Err env k = None" using n [of k] by (simp add: codecs_end_def)
    obtain d' where "G env d' (k + 1) = Some y" "dm_videoCodec d' = None" "dm_session d' = dm_session d"
    proof (cases "NextFrame (ge_lib env) (dm_session d) frameTimeoutMS k")
      case (Inl e)
      then have "G env d (k + 1) = Some y" using step(2) c n [of k] by (simp add: codecs_end_def)
      then show ?thesis using step(3) by (intro that [of d]) simp_all
    next
      case (Inr f)
      then have "\<not> (param_frame f \<and> param_codec env f \<noteq> None)" using n [of k] by (simp add: codecs_end_def)
      then obtain d' where "codecs_step env k f d = (Inr None, d')" "dm_videoCodec d' = None" "dm_session d' = dm_session d"
        using codecs_step_waits [OF step(3)] by blast
      then show ?thesis using step(2) c Inr by (intro that [of d']) simp_all
    qed
    then obtain m where "k + 1 \<le> m" "codecs_end env (dm_session d) m" using step(1) by metis
    then show False using n by simp
  qed
qed

text \<open>
  C21: waiting for the codecs ends exactly when the context is cancelled, the library fails with more
  than a timeout, or one video frame carries a complete parameter set (SPS and PPS, for H.265 a VPS
  too) that the parser then accepts or rejects. Parameter sets that are spread over several frames, and
  codecs other than H.264 and H.265, never end it.
\<close>

theorem GetCodecs_returns_iff:
  assumes "dm_videoCodec d = None"
  shows "(\<exists>y. GetCodecs env d k = Some y) \<longleftrightarrow> (\<exists>n \<ge> k. codecs_end env (dm_session d) n)"
  using GetCodecs_needs_end [OF _ assms, of env k] codecs_loop.returns [OF assms, of k _ env] by metis
text \<open>A camera: a timeout, then both parameter sets in one frame, then a key frame, then nothing more.\<close>

definition frame0 :: c_frame where
  "frame0 = \<lparr>c_frame_type = 0, c_media_type = 0, c_frame_size = 100, c_codec_type = CodecH264, c_flags = 0,
     c_wall_clock_ms = 0, c_ntp_ms = 0, c_pts_ticks = 90000, c_dts_ticks = 90000, c_duration_ticks = 0,
     c_data = payload True [(True, [0x67, 1]), (False, [0x68, 1])]\<rparr>"

definition library0 :: c_library where
  "library0 = \<lparr>avgrabber_open = (\<lambda>_. (0, 0)), avgrabber_close = (\<lambda>_. 0), avgrabber_stop = (\<lambda>_. 0), avgrabber_resume = (\<lambda>_. 0),
     avgrabber_next_frame = (\<lambda>_ _ k. if k = 1 then (0, frame0)
       else if k = 2 then (0, frame0\<lparr>c_frame_type := 1, c_data := [0, 0, 1, 0x65, 7]\<rparr>) else (10, frame0)),
     avgrabber_stream_info = (\<lambda>_ _. (10, \<lparr>si_VideoCodec = 0, si_AudioCodec = 0, si_AudioChannels = 0, si_FPS = 0, si_Width = 0,
       si_Height = 0, si_VideoClockRate = 0, si_AudioSampleRate = 0, si_AudioSamplesPerFrame = 0\<rparr>)),
     avgrabber_stats = (\<lambda>_ _. (0, \<lparr>sx_VideoBitrateKbps = 0, sx_VideoFPSMilli = 0, sx_VideoFrameTotal = 0, sx_VideoBytesTotal = 0,
       sx_AudioBitrateKbps = 0, sx_AudioFrameTotal = 0, sx_AudioBytesTotal = 0, sx_ElapsedMS = 0, sx_Discontinuities = 0\<rparr>))\<rparr>"

definition grab_env0 :: "(nat, nat) grab_env" where
  "grab_env0 = \<lparr>ge_ctx_Err = (\<lambda>_. None), ge_lib = library0, ge_NewCodecDataFromSPSAndPPS = (\<lambda>_ _. Inr 7),
     ge_NewCodecDataFromVPSAndSPSAndPPS = (\<lambda>_ _ _. Inr 8), ge_TimeScale = (\<lambda>_. 90000), ge_PacketDuration = (\<lambda>_. 40000000),
     ge_ParseADTSHeader = (\<lambda>_. Inl errUnknown), ge_SampleRate = (\<lambda>_. 0),
     ge_NewCodecDataFromMPEG4AudioConfig = (\<lambda>_. Inl errUnknown), ge_NewPCMMulawCodecData = 1, ge_NewPCMAlawCodecData = 2,
     ge_NewOpusCodecData = (\<lambda>_ _. 3)\<rparr>"

definition session0 :: Session where
  "session0 = \<lparr>ss_ptr = Some 0\<rparr>"

lemma splitAnnexB_frame0: "splitAnnexB (c_data frame0) = [[0x67, 1], [0x68, 1]]"
  using splitAnnexB_payload [of "[(True, [0x67, 1]), (False, [0x68, 1])]" True]
  by (simp add: frame0_def nal_unit_def)

lemma param_codec_frame0: "param_codec grab_env0 (frame_of frame0) = Some (Inr 7)"
proof -
  have "fr_Data (frame_of frame0) = c_data frame0" "fr_CodecType (frame_of frame0) = CodecH264"
    by (simp_all add: frame_of_def frame0_def start_code_def)
  moreover have "h264_sets [[0x67, 1], [0x68, 1]] = (Some [0x67, 1], Some [0x68, 1])" by (simp add: h264_sets_def)
  ultimately show ?thesis by (simp add: param_codec_def splitAnnexB_frame0 grab_env0_def)
qed

lemma codecs_end_frame0: "codecs_end grab_env0 session0 1"
  using param_codec_frame0
  by (simp add: codecs_end_def NextFrame_def library0_def grab_env0_def statusError_def StatusOK_def param_frame_def)
    (simp add: frame_of_def frame0_def frame_kinds)

lemma GetCodecs_returns_iff_witness: "\<exists>y. GetCodecs grab_env0 (new_demuxer session0) 0 = Some y"
  using GetCodecs_returns_iff [of "new_demuxer session0" grab_env0 0] codecs_end_frame0 by (auto simp: new_demuxer_def)

text \<open>
  A frame with a single unit is never a complete set, so a camera whose library delivers SPS and PPS
  in frames of their own keeps the producer waiting.
\<close>

lemma single_unit_incomplete: "length (splitAnnexB (fr_Data f)) \<le> 1 \<Longrightarrow> param_codec env f = None"
  by (cases "splitAnnexB (fr_Data f)")
    (auto simp: param_codec_def h264_sets_def h265_sets_def Let_def split: option.splits if_splits)

subsection \<open>When a packet is delivered\<close>

definition video_frame :: "Frame \<Rightarrow> bool" where
  "video_frame f \<longleftrightarrow> fr_MediaType f = MediaVideo \<and> (fr_FrameType f = FrameTypeKey \<or> fr_FrameType f = FrameTypeDelta)"

definition packet_end :: "('c, 'm) grab_env \<Rightarrow> Session \<Rightarrow> nat \<Rightarrow> bool" where
  "packet_end env s k \<longleftrightarrow> ge_ctx_Err env k \<noteq> None \<or>
    (case NextFrame (ge_lib env) s frameTimeoutMS k of Inl e \<Rightarrow> \<not> IsNotReady e | Inr f \<Rightarrow> video_frame f)"

lemma applyParamSet_keeps:
  "dm_session (snd (applyParamSet env f d)) = dm_session d"
  by (auto simp: applyParamSet_def applyH264ParamSet_def applyH265ParamSet_def set_video_codec_def
      split: option.splits prod.splits sum.splits)

lemma videoFrameToPacket_session: "dm_session (snd (videoFrameToPacket env f d)) = dm_session d"
  using applyParamSet_keeps [of env f d]
  by (auto simp: videoFrameToPacket_def Let_def dest: videoDuration_keeps split: option.splits prod.splits)

lemma audioFrameToPacket_session: "dm_session (snd (audioFrameToPacket env k f d)) = dm_session d"
  by (simp add: audioFrameToPacket_def Let_def split: sum.split prod.split option.split)

lemma frameToPacket_session: "dm_session (snd (frameToPacket env k f d)) = dm_session d"
  by (simp add: frameToPacket_def videoFrameToPacket_session audioFrameToPacket_session)

lemma frameToPacket_video: "video_frame f \<Longrightarrow> \<exists>p. fst (frameToPacket env k f d) = Inr (Some p)"
  by (auto simp: video_frame_def frameToPacket_def videoFrameToPacket_def frame_kinds Let_def split: prod.splits)

lemma ReadPacket_ends:
  assumes "packet_end env (dm_session d) k"
  shows "\<exists>r d' k'. ReadPacket env d k = Some (r, d', k') \<and> k' \<le> k + 1"
proof (cases "ge_ctx_Err env k")
  case None
  show ?thesis
  proof (cases "NextFrame (ge_lib env) (dm_session d) frameTimeoutMS k")
    case (Inl e)
    then show ?thesis using assms None by (subst ReadPacket.simps) (simp add: packet_end_def)
  next
    case (Inr f)
    then have "video_frame f" using assms None by (simp add: packet_end_def)
    then obtain p where "fst (frameToPacket env k f d) = Inr (Some p)" using frameToPacket_video by blast
    then obtain d' where "frameToPacket env k f d = (Inr (Some p), d')" by (metis prod.collapse)
    then show ?thesis using None Inr by (subst ReadPacket.simps) simp
  qed
qed (subst ReadPacket.simps, simp)

lemma ReadPacket_goes_on:
  "(\<exists>r d' k'. ReadPacket env d k = Some (r, d', k') \<and> k' \<le> k + 1)
    \<or> (\<exists>d'. ReadPacket env d k = ReadPacket env d' (k + 1) \<and> dm_session d' = dm_session d)"
proof (cases "ge_ctx_Err env k")
  case None
  show ?thesis
  proof (cases "NextFrame (ge_lib env) (dm_session d) frameTimeoutMS k")
    case (Inl e)
    then show ?thesis using None by (subst (1 2) ReadPacket.simps) auto
  next
    case (Inr f)
    obtain r d' where r: "frameToPacket env k f d = (r, d')" by force
    then have "dm_session d' = dm_session d" using frameToPacket_session [of env k f d] by simp
    then show ?thesis
      using None Inr r by (cases r) (auto simp: ReadPacket.simps [of env d k] split: option.splits)
  qed
qed (subst (1 2) ReadPacket.simps, simp)

interpretation packet_loop: polling_loop "ReadPacket env" "\<lambda>(r, d, k). k" "\<lambda>d. packet_end env (dm_session d)"
  "\<lambda>d. True" for env
proof
  fix d :: "'a Demuxer" and k
  show "\<exists>y. ReadPacket env d k = Some y \<and> (case y of (r, d, k) \<Rightarrow> k) \<le> k + 1" if "packet_end env (dm_session d) k"
    using ReadPacket_ends [OF that] by auto
  show "(\<exists>y. ReadPacket env d k = Some y \<and> (case y of (r, d, k) \<Rightarrow> k) \<le> k + 1)
      \<or> (\<exists>d'. ReadPacket env d k = ReadPacket env d' (k + 1) \<and> True
           \<and> packet_end env (dm_session d') = packet_end env (dm_session d))"
    using ReadPacket_goes_on [of env d k] by (elim disjE exE conjE) force+
qed

text \<open>
  C22: reading a packet returns as soon as the library delivers a key or delta frame of the video,
  reports more than a timeout, or the context is cancelled, whatever state the demuxer is in and
  however many timeouts, parameter sets and unusable audio frames come before.
\<close>

theorem ReadPacket_returns:
  assumes "k \<le> n" "packet_end env (dm_session d) n"
  shows "\<exists>r d' k'. ReadPacket env d k = Some (r, d', k') \<and> k' \<le> n + 1"
  using packet_loop.returns [OF TrueI assms] by auto

lemma ReadPacket_returns_witness: "\<exists>r d' k'. ReadPacket grab_env0 (new_demuxer session0) 0 = Some (r, d', k') \<and> k' \<le> 3"
proof -
  have "packet_end grab_env0 session0 2"
    by (simp add: packet_end_def NextFrame_def library0_def grab_env0_def statusError_def StatusOK_def frame_of_def
        video_frame_def frame0_def frame_kinds)
  then show ?thesis
    using ReadPacket_returns [of 0 2 grab_env0 "new_demuxer session0"] by (simp add: new_demuxer_def)
qed

subsection \<open>Announcing codecs\<close>

text \<open>The state after a sequence of frames, and what the sequence says about the codecs.\<close>

fun feed :: "('c, 'm) grab_env \<Rightarrow> nat \<Rightarrow> Frame list \<Rightarrow> 'c Demuxer \<Rightarrow> 'c Demuxer" where
  "feed env k [] d = d"
| "feed env k (f # fs) d = feed env (k + 1) fs (snd (frameToPacket env k f d))"

definition key_frame :: "Frame \<Rightarrow> bool" where
  "key_frame f \<longleftrightarrow> fr_MediaType f = MediaVideo \<and> fr_FrameType f = FrameTypeKey"

definition new_codec :: "('c, 'm) grab_env \<Rightarrow> Frame \<Rightarrow> 'c option" where
  "new_codec env f = (if param_frame f then (case param_codec env f of Some (Inr cd) \<Rightarrow> Some cd | _ \<Rightarrow> None) else None)"

text \<open>The codec that was announced since the last key frame, and the codec in force.\<close>

fun announced :: "('c, 'm) grab_env \<Rightarrow> Frame list \<Rightarrow> bool \<Rightarrow> bool" where
  "announced env [] b = b"
| "announced env (f # fs) b = announced env fs (new_codec env f \<noteq> None \<or> (b \<and> \<not> key_frame f))"

fun in_force :: "('c, 'm) grab_env \<Rightarrow> Frame list \<Rightarrow> 'c CodecData option \<Rightarrow> 'c CodecData option" where
  "in_force env [] c = c"
| "in_force env (f # fs) c = in_force env fs (case new_codec env f of Some cd \<Rightarrow> Some (SdkCodec cd) | None \<Rightarrow> c)"

lemma applyParamSet_effect:
  assumes "param_frame f" "applyParamSet env f d = (r, d')"
  shows "dm_codecDirty d' \<longleftrightarrow> new_codec env f \<noteq> None \<or> dm_codecDirty d"
    and "dm_videoCodec d' = (case new_codec env f of Some cd \<Rightarrow> Some (SdkCodec cd) | None \<Rightarrow> dm_videoCodec d)"
proof -
  consider "param_codec env f = None" | e where "param_codec env f = Some (Inl e)" | cd where "param_codec env f = Some (Inr cd)"
    by (metis not_None_eq sumE)
  then have "(dm_codecDirty d' \<longleftrightarrow> new_codec env f \<noteq> None \<or> dm_codecDirty d)
    \<and> dm_videoCodec d' = (case new_codec env f of Some cd \<Rightarrow> Some (SdkCodec cd) | None \<Rightarrow> dm_videoCodec d)"
  proof cases
    case 1
    then show ?thesis using assms applyParamSet_None [of env f d] by (simp add: new_codec_def)
  next
    case 2
    then show ?thesis using assms applyParamSet_Inl [of env f e d] by (simp add: new_codec_def)
  next
    case 3
    obtain d1 where "applyParamSet env f d = (None, d1)" "dm_videoCodec d1 = Some (SdkCodec cd)" "dm_codecDirty d1"
      by (rule applyParamSet_Inr [OF 3])
    then show ?thesis using 3 assms by (simp add: new_codec_def)
  qed
  then show "dm_codecDirty d' \<longleftrightarrow> new_codec env f \<noteq> None \<or> dm_codecDirty d"
    and "dm_videoCodec d' = (case new_codec env f of Some cd \<Rightarrow> Some (SdkCodec cd) | None \<Rightarrow> dm_videoCodec d)" by blast+
qed

lemma audioFrameToPacket_video:
  "dm_codecDirty (snd (audioFrameToPacket env k f d)) = dm_codecDirty d"
  "dm_videoCodec (snd (audioFrameToPacket env k f d)) = dm_videoCodec d"
  by (simp_all add: audioFrameToPacket_def Let_def split: sum.split prod.split option.split)

lemma frameToPacket_effect:
  "dm_codecDirty (snd (frameToPacket env k f d)) \<longleftrightarrow> new_codec env f \<noteq> None \<or> (dm_codecDirty d \<and> \<not> key_frame f)"
  "dm_videoCodec (snd (frameToPacket env k f d)) =
     (case new_codec env f of Some cd \<Rightarrow> Some (SdkCodec cd) | None \<Rightarrow> dm_videoCodec d)"
proof -
  obtain r d' where p: "applyParamSet env f d = (r, d')" by force
  obtain dur d1 where v: "videoDuration (pk_DTS (basePacket f videoStreamIdx d)) d = (dur, d1)" by force
  note keeps = videoDuration_keeps [OF v]
  have "(dm_codecDirty (snd (frameToPacket env k f d)) \<longleftrightarrow> new_codec env f \<noteq> None \<or> (dm_codecDirty d \<and> \<not> key_frame f))
    \<and> dm_videoCodec (snd (frameToPacket env k f d)) =
       (case new_codec env f of Some cd \<Rightarrow> Some (SdkCodec cd) | None \<Rightarrow> dm_videoCodec d)"
  proof (cases "param_frame f")
    case True
    then have "snd (frameToPacket env k f d) = d'" "\<not> key_frame f"
      using p by (auto simp: frameToPacket_def videoFrameToPacket_def param_frame_def key_frame_def frame_kinds split: option.split)
    then show ?thesis using applyParamSet_effect [OF True p] by simp
  next
    case False
    then have "new_codec env f = None" by (simp add: new_codec_def)
    moreover have "dm_videoCodec (snd (frameToPacket env k f d)) = dm_videoCodec d
        \<and> (dm_codecDirty (snd (frameToPacket env k f d)) \<longleftrightarrow> dm_codecDirty d \<and> \<not> key_frame f)"
      using False keeps v
      by (auto simp: frameToPacket_def videoFrameToPacket_def param_frame_def key_frame_def frame_kinds Let_def
          audioFrameToPacket_video)
    ultimately show ?thesis by simp
  qed
  then show "dm_codecDirty (snd (frameToPacket env k f d)) \<longleftrightarrow> new_codec env f \<noteq> None \<or> (dm_codecDirty d \<and> \<not> key_frame f)"
    and "dm_videoCodec (snd (frameToPacket env k f d)) =
      (case new_codec env f of Some cd \<Rightarrow> Some (SdkCodec cd) | None \<Rightarrow> dm_videoCodec d)" by blast+
qed

lemma feed_effect:
  "dm_codecDirty (feed env k fs d) = announced env fs (dm_codecDirty d)"
  "dm_videoCodec (feed env k fs d) = in_force env fs (dm_videoCodec d)"
  by (induction fs arbitrary: k d) (simp_all add: frameToPacket_effect)

lemma key_packet:
  assumes "key_frame f"
  obtains p d' where "frameToPacket env k f d = (Inr (Some p), d')" "pk_KeyFrame p"
    "pk_NewCodecs p = (if dm_codecDirty d then buildStreams d else None)"
proof -
  obtain dur d1 where v: "videoDuration (pk_DTS (basePacket f videoStreamIdx d)) d = (dur, d1)" by force
  have "buildStreams d1 = buildStreams d" using videoDuration_keeps [OF v] by (simp add: buildStreams_def cong: option.case_cong)
  moreover have "dm_codecDirty d1 = dm_codecDirty d" using videoDuration_keeps [OF v] by simp
  moreover have "pk_NewCodecs (basePacket f videoStreamIdx d) = None" by (simp add: basePacket_def Let_def)
  ultimately show ?thesis
    using assms v that
    by (cases "dm_codecDirty d") (auto simp: frameToPacket_def videoFrameToPacket_def key_frame_def frame_kinds Let_def)
qed

text \<open>
  C20: codec changes reach the muxer in time. After any sequence of frames, the packet of a key frame
  carries new codecs exactly when a complete and valid parameter set arrived after the last key frame,
  and then its video stream has the codec of the latest such set.
\<close>

theorem key_packet_announces:
  assumes "key_frame f" "dm_codecDirty d \<longrightarrow> dm_videoCodec d \<noteq> None"
  shows "\<exists>p d'. frameToPacket env k' f (feed env k fs d) = (Inr (Some p), d') \<and> pk_KeyFrame p
    \<and> (pk_NewCodecs p = None \<longleftrightarrow> \<not> announced env fs (dm_codecDirty d))
    \<and> (case pk_NewCodecs p of
         None \<Rightarrow> True
       | Some streams \<Rightarrow> streams \<noteq> [] \<and> st_Idx (hd streams) = videoStreamIdx
           \<and> Some (st_Codec (hd streams)) = in_force env fs (dm_videoCodec d))"
proof -
  let ?d = "feed env k fs d"
  obtain p d' where p: "frameToPacket env k' f ?d = (Inr (Some p), d')" "pk_KeyFrame p"
    "pk_NewCodecs p = (if dm_codecDirty ?d then buildStreams ?d else None)"
    by (rule key_packet [OF assms(1)])
  have some: "announced env fs b \<Longrightarrow> (b \<Longrightarrow> c \<noteq> None) \<Longrightarrow> in_force env fs c \<noteq> None" for b c
    by (induction fs arbitrary: b c) (auto split: option.split)
  have "dm_codecDirty ?d \<Longrightarrow> dm_videoCodec ?d \<noteq> None"
    using some [of "dm_codecDirty d" "dm_videoCodec d"] assms(2) by (simp add: feed_effect)
  then show ?thesis using p by (auto simp: buildStreams_def feed_effect)
qed

lemma key_packet_announces_witness:
  "\<exists>p d' streams. frameToPacket grab_env0 3 (frame_of (frame0\<lparr>c_frame_type := 1\<rparr>)) (feed grab_env0 0 [frame_of frame0] (new_demuxer session0))
     = (Inr (Some p), d') \<and> pk_NewCodecs p = Some streams \<and> st_Codec (hd streams) = SdkCodec 7"
proof -
  let ?f = "frame_of (frame0\<lparr>c_frame_type := 1\<rparr>)" and ?d = "new_demuxer session0 :: nat Demuxer"
  have new: "\<not> dm_codecDirty ?d" "dm_videoCodec ?d = None" by (simp_all add: new_demuxer_def)
  have f: "key_frame ?f" "param_frame (frame_of frame0)"
    by (simp_all add: key_frame_def param_frame_def frame_of_def frame0_def frame_kinds)
  have codec: "new_codec grab_env0 (frame_of frame0) = Some 7" using f(2) by (simp add: new_codec_def param_codec_frame0)
  have "dm_codecDirty ?d \<longrightarrow> dm_videoCodec ?d \<noteq> None" using new(1) by blast
  from key_packet_announces [OF f(1) this, of grab_env0 3 0 "[frame_of frame0]"] obtain p d' where
    p: "frameToPacket grab_env0 3 ?f (feed grab_env0 0 [frame_of frame0] ?d) = (Inr (Some p), d')"
      "pk_NewCodecs p = None \<longleftrightarrow> \<not> announced grab_env0 [frame_of frame0] (dm_codecDirty ?d)"
      "case pk_NewCodecs p of None \<Rightarrow> True | Some streams \<Rightarrow> streams \<noteq> [] \<and> st_Idx (hd streams) = videoStreamIdx
         \<and> Some (st_Codec (hd streams)) = in_force grab_env0 [frame_of frame0] (dm_videoCodec ?d)"
    by (elim exE conjE) (rule that)
  then obtain streams where "pk_NewCodecs p = Some streams" "st_Codec (hd streams) = SdkCodec 7"
    using codec by (cases "pk_NewCodecs p") auto
  with p(1) show ?thesis by blast
qed

subsection \<open>Timestamps\<close>

lemma wrap64_above: "2 ^ 63 \<le> x \<Longrightarrow> x < 2 ^ 64 \<Longrightarrow> wrap64 x = x - 2 ^ 64"
proof -
  assume "2 ^ 63 \<le> x" "x < 2 ^ 64"
  then have "(x + 2 ^ 63) mod 2 ^ 64 = x + 2 ^ 63 - 2 ^ 64"
    by (subst mod_pos_geq) (simp_all add: mod_pos_pos_trivial)
  then show ?thesis by (simp add: wrap64_def)
qed

lemma uint_pos: "uint w = 0 \<or> 0 < uint w"
  by (simp add: order.strict_iff_order)

lemma ticks_duration_exact:
  assumes "0 \<le> t" "t \<le> 9223372036"
  shows "ticks_duration t clk = t * Second div uint clk"
proof -
  have "fits64 (t * Second)" using assms by (simp add: fits64_def Second_def)
  moreover have "uint clk = 0 \<or> 0 < uint clk" by (rule uint_pos)
  ultimately show ?thesis
    using assms by (elim disjE) (simp_all add: ticks_duration_def signed_divide_int_def sgn_if Second_def)
qed

lemma ticks_duration_overflow:
  assumes "9223372037 \<le> t" "t \<le> 18446744073" "0 < clk"
  shows "ticks_duration t clk \<le> 0"
proof -
  have "wrap64 (t * Second) < 0" using assms wrap64_above [of "t * Second"] by (simp add: Second_def)
  with uint_pos [of clk] show ?thesis
    by (elim disjE) (simp_all add: ticks_duration_def signed_divide_int_def sgn_if div_int_pos_iff)
qed



end
