(* ===== verification/Collector.thy ===== *)
theory Collector
  imports Http_Api
begin

text \<open>
  The metrics collector, \<^verbatim>\<open>src/pkg/metrics\<close>: the recording methods, each a sample with its metric name
  and labels handed to the store of the SDK, the figures per relay, and the periodic snapshot. The
  store is the list of what was handed to it. Its snapshot is shown to agree with the statistics that
  the HTTP interface computes on its own.
\<close>

subsection \<open>Samples\<close>

definition snapshotInterval :: duration where
  "snapshotInterval = 60 * Second"

record Snapshot =
  sn_Timestamp :: instant
  sn_Goroutines :: int
  sn_HeapAllocMB :: rat
  sn_ActiveRelays :: int
  sn_ActiveViewers :: int
  sn_ActiveSegments :: int
  sn_TotalPackets :: "64 word"
  sn_TotalDropped :: "64 word"
  sn_AvgFPS :: rat
  sn_TotalBitrate :: rat

datatype sample =
    Latency string duration "(string \<times> string) list"
  | Counter string rat "(string \<times> string) list"
  | Snapshot_taken Snapshot

type_synonym metrics_store = "sample list"

subsection \<open>Metric names\<close>

text \<open>\<^verbatim>\<open>src/pkg/metrics/names.go\<close>; the names unfold by simplification.\<close>

definition MetricLiveViewStartupMs :: string where [simp]: "MetricLiveViewStartupMs = ''live_view_startup_ms''"
definition MetricRTSPSessionSetupMs :: string where [simp]: "MetricRTSPSessionSetupMs = ''rtsp_session_setup_ms''"
definition MetricRecordingGapSeconds :: string where [simp]: "MetricRecordingGapSeconds = ''recording_gap_seconds''"
definition MetricAPIResponseMs :: string where [simp]: "MetricAPIResponseMs = ''api_response_ms''"
definition MetricConsumerAddMs :: string where [simp]: "MetricConsumerAddMs = ''consumer_add_ms''"
definition MetricFragmentGapMs :: string where [simp]: "MetricFragmentGapMs = ''fragment_gap_ms''"
definition MetricPlaybackStartupMs :: string where [simp]: "MetricPlaybackStartupMs = ''playback_startup_ms''"
definition MetricTimelineQueryMs :: string where [simp]: "MetricTimelineQueryMs = ''timeline_query_ms''"
definition MetricSegmentOpenMs :: string where [simp]: "MetricSegmentOpenMs = ''segment_open_ms''"
definition MetricRecToLiveTransMs :: string where [simp]: "MetricRecToLiveTransMs = ''rec_to_live_transition_ms''"
definition MetricSeekLatencyMs :: string where [simp]: "MetricSeekLatencyMs = ''seek_latency_ms''"
definition MetricWriteThroughputBps :: string where [simp]: "MetricWriteThroughputBps = ''write_throughput_bps''"
definition MetricConsumerRotationCount :: string where [simp]: "MetricConsumerRotationCount = ''consumer_rotation_count''"
definition MetricConsumerSkipCount :: string where [simp]: "MetricConsumerSkipCount = ''consumer_skip_count''"

subsection \<open>Recording samples\<close>

definition RecordLatency :: "string \<Rightarrow> duration \<Rightarrow> (string \<times> string) list \<Rightarrow> metrics_store \<Rightarrow> metrics_store" where
  "RecordLatency name d labels st = st @ [Latency name d labels]"

definition RecordCounter :: "string \<Rightarrow> rat \<Rightarrow> (string \<times> string) list \<Rightarrow> metrics_store \<Rightarrow> metrics_store" where
  "RecordCounter name v labels st = st @ [Counter name v labels]"

definition RecordLiveViewStartup :: "duration \<Rightarrow> string \<Rightarrow> metrics_store \<Rightarrow> metrics_store" where
  "RecordLiveViewStartup d cameraID = RecordLatency MetricLiveViewStartupMs d [(''camera_id'', cameraID)]"

definition RecordRTSPSessionSetup :: "duration \<Rightarrow> string \<Rightarrow> metrics_store \<Rightarrow> metrics_store" where
  "RecordRTSPSessionSetup d sourceID = RecordLatency MetricRTSPSessionSetupMs d [(''source_id'', sourceID)]"

definition RecordConsumerAdd :: "duration \<Rightarrow> string \<Rightarrow> metrics_store \<Rightarrow> metrics_store" where
  "RecordConsumerAdd d consumerID = RecordLatency MetricConsumerAddMs d [(''consumer_id'', consumerID)]"

definition RecordAPIResponse :: "duration \<Rightarrow> string \<Rightarrow> string \<Rightarrow> int \<Rightarrow> metrics_store \<Rightarrow> metrics_store" where
  "RecordAPIResponse d method path status = RecordLatency MetricAPIResponseMs d [(''method'', method), (''path'', path)]"

definition RecordPlaybackStartup :: "duration \<Rightarrow> string \<Rightarrow> metrics_store \<Rightarrow> metrics_store" where
  "RecordPlaybackStartup d cameraID = RecordLatency MetricPlaybackStartupMs d [(''camera_id'', cameraID)]"

definition RecordTimelineQuery :: "duration \<Rightarrow> string \<Rightarrow> metrics_store \<Rightarrow> metrics_store" where
  "RecordTimelineQuery d cameraID = RecordLatency MetricTimelineQueryMs d [(''camera_id'', cameraID)]"

definition RecordSegmentOpen :: "duration \<Rightarrow> string \<Rightarrow> metrics_store \<Rightarrow> metrics_store" where
  "RecordSegmentOpen d path = RecordLatency MetricSegmentOpenMs d [(''path'', path)]"

definition RecordRecToLiveTransition :: "duration \<Rightarrow> string \<Rightarrow> metrics_store \<Rightarrow> metrics_store" where
  "RecordRecToLiveTransition d cameraID = RecordLatency MetricRecToLiveTransMs d [(''camera_id'', cameraID)]"

definition RecordSeekLatency :: "duration \<Rightarrow> string \<Rightarrow> metrics_store \<Rightarrow> metrics_store" where
  "RecordSeekLatency d cameraID = RecordLatency MetricSeekLatencyMs d [(''camera_id'', cameraID)]"

definition RecordFragmentGap :: "duration \<Rightarrow> string \<Rightarrow> metrics_store \<Rightarrow> metrics_store" where
  "RecordFragmentGap d cameraID = RecordLatency MetricFragmentGapMs d [(''camera_id'', cameraID)]"

definition Seconds :: "duration \<Rightarrow> rat" where
  "Seconds d = of_int d / of_int Second"

definition RecordRecordingGap :: "duration \<Rightarrow> string \<Rightarrow> metrics_store \<Rightarrow> metrics_store" where
  "RecordRecordingGap d channelID = RecordCounter MetricRecordingGapSeconds (Seconds d) [(''channel_id'', channelID)]"

definition RecordWriteThroughput :: "rat \<Rightarrow> string \<Rightarrow> metrics_store \<Rightarrow> metrics_store" where
  "RecordWriteThroughput bps channelID = RecordCounter MetricWriteThroughputBps bps [(''channel_id'', channelID)]"

definition RecordConsumerRotation :: "string \<Rightarrow> metrics_store \<Rightarrow> metrics_store" where
  "RecordConsumerRotation channelID = RecordCounter MetricConsumerRotationCount 1 [(''channel_id'', channelID)]"

definition RecordConsumerSkip :: "string \<Rightarrow> metrics_store \<Rightarrow> metrics_store" where
  "RecordConsumerSkip channelID = RecordCounter MetricConsumerSkipCount 1 [(''channel_id'', channelID)]"

subsection \<open>Figures per relay\<close>

record relay_info = relayStats +
  rl_ConsumerCount :: int
  rl_StartedAt :: instant

record relay_metrics =
  rx_SourceID :: string
  rx_FrameLossRate :: rat
  rx_ActualFPS :: rat
  rx_BitrateBps :: rat
  rx_ConsumerCount :: int
  rx_UptimeSeconds :: rat

definition relay_figures :: "instant \<Rightarrow> relay_info \<Rightarrow> relay_metrics" where
  "relay_figures now rs =
    \<lparr>rx_SourceID = rl_ID rs,
     rx_FrameLossRate = (if 0 < rl_PacketsRead rs
       then rat_of_int (uint (rl_DroppedPackets rs)) / rat_of_int (uint (rl_PacketsRead rs)) else 0),
     rx_ActualFPS = rl_ActualFPS rs, rx_BitrateBps = rl_BitrateBps rs, rx_ConsumerCount = rl_ConsumerCount rs,
     rx_UptimeSeconds = (if rl_StartedAt rs \<noteq> zero_time then Seconds (time_Sub now (rl_StartedAt rs)) else 0)\<rparr>"

definition RelayMetrics :: "instant \<Rightarrow> relay_info list \<Rightarrow> relay_metrics list" where
  "RelayMetrics now stats = map (relay_figures now) stats"

subsection \<open>The snapshot\<close>

record Collector =
  co_store :: metrics_store
  co_recManager :: "int option"
  co_viewSvc :: "int option"
  co_startTime :: instant

definition Uptime :: "instant \<Rightarrow> Collector \<Rightarrow> duration" where
  "Uptime now c = time_Sub now (co_startTime c)"

definition snapshot_totals ::
  "relayStats list \<Rightarrow> 64 word \<times> 64 word \<times> rat \<times> rat" where
  "snapshot_totals relays = fold (\<lambda>rs (packets, dropped, fps, bitrate).
     (packets + rl_PacketsRead rs, dropped + rl_DroppedPackets rs, fps + rl_ActualFPS rs, bitrate + rl_BitrateBps rs))
     relays (0, 0, 0, 0)"

definition takeSnapshot :: "'ix http_env \<Rightarrow> Collector \<Rightarrow> Collector" where
  "takeSnapshot env c =
    (let relays = he_GetRelayStats env;
         (totalPackets, totalDropped, fpsSum, bitrateSum) = snapshot_totals relays;
         avgFPS = (if 0 < length relays then fpsSum / of_nat (length relays) else 0);
         activeSegments = (case co_recManager c of Some n \<Rightarrow> n | None \<Rightarrow> 0);
         activeViewers = (case co_viewSvc c of Some n \<Rightarrow> n | None \<Rightarrow> 0)
     in c\<lparr>co_store := co_store c @ [Snapshot_taken
          \<lparr>sn_Timestamp = he_now env, sn_Goroutines = he_Goroutines env, sn_HeapAllocMB = megabytes (he_Alloc env),
           sn_ActiveRelays = int (length relays), sn_ActiveViewers = activeViewers, sn_ActiveSegments = activeSegments,
           sn_TotalPackets = totalPackets, sn_TotalDropped = totalDropped, sn_AvgFPS = avgFPS,
           sn_TotalBitrate = bitrateSum\<rparr>]\<rparr>)"

lemma fold_snapshot_totals:
  "fold (\<lambda>rs (packets, dropped, fps, bitrate).
     (packets + rl_PacketsRead rs, dropped + rl_DroppedPackets rs, fps + rl_ActualFPS rs, bitrate + rl_BitrateBps rs))
     relays (p, d, f, b) =
   (p + sum_list (map rl_PacketsRead relays), d + sum_list (map rl_DroppedPackets relays),
    f + sum_list (map rl_ActualFPS relays), b + sum_list (map rl_BitrateBps relays))"
  by (induction relays arbitrary: p d f b) (simp_all add: algebra_simps)

lemma snapshot_totals_sums:
  "snapshot_totals relays = (sum_list (map rl_PacketsRead relays), sum_list (map rl_DroppedPackets relays),
     sum_list (map rl_ActualFPS relays), sum_list (map rl_BitrateBps relays))"
  by (simp add: snapshot_totals_def fold_snapshot_totals)

text \<open>
  The periodic snapshot and the system statistics of the HTTP interface, computed by different
  code from the same relays, are the same figures: relays, packets, dropped packets, mean frame rate,
  total bitrate, viewers and segments.
\<close>

theorem snapshot_agrees_with_system_stats:
  assumes "co_viewSvc c = Some (ViewerCount (hh_svc h))" "co_recManager c = hh_segmentCounter h"
  shows "\<exists>sn. co_store (takeSnapshot env c) = co_store c @ [Snapshot_taken sn]
    \<and> sn_ActiveRelays sn = sy_StreamingCameras (humaSystemStats env h)
    \<and> sn_TotalPackets sn = sy_TotalPacketsRead (humaSystemStats env h)
    \<and> sn_TotalDropped sn = sy_TotalDropped (humaSystemStats env h)
    \<and> sn_AvgFPS sn = sy_AvgFPS (humaSystemStats env h)
    \<and> sn_TotalBitrate sn = sy_TotalBitrateBps (humaSystemStats env h)
    \<and> sn_ActiveViewers sn = sy_ActiveViewers (humaSystemStats env h)
    \<and> sn_ActiveSegments sn = sy_ActiveSegments (humaSystemStats env h)"
  using assms
  by (simp add: takeSnapshot_def snapshot_totals_sums humaSystemStats_def fold_add_relay Let_def split: option.split)

definition collector0 :: Collector where
  "collector0 = \<lparr>co_store = [], co_recManager = None, co_viewSvc = Some (ViewerCount (hh_svc handler0)), co_startTime = 0\<rparr>"

lemma snapshot_agrees_with_system_stats_witness:
  "\<exists>sn. co_store (takeSnapshot http_env0 collector0) = [Snapshot_taken sn]
     \<and> sn_ActiveViewers sn = sy_ActiveViewers (humaSystemStats http_env0 (handler0\<lparr>hh_segmentCounter := None\<rparr>))"
  using snapshot_agrees_with_system_stats [of collector0 "handler0\<lparr>hh_segmentCounter := None\<rparr>" http_env0]
  by (auto simp: collector0_def)

end
