(* ===== verification/Edge_App.thy ===== *)
theory Edge_App
  imports Recorder Camera_Api Grabber Collector
begin

text \<open>
  The edge application, \<^verbatim>\<open>src/internal/edge\<close>: the configuration and its defaults, the providers it
  chooses, the factory that opens a camera, and \<^verbatim>\<open>Run\<close>, which builds the recorder, the view service and
  the HTTP handler out of the components, registers the channels as cameras and releases everything
  in reverse order when it returns. A \<^verbatim>\<open>defer\<close> is a resource on a stack; the log of a run lists what was
  opened and closed. What the libraries answer (listener, stream manager, hubs, metrics store) is
  a parameter.
\<close>

subsection \<open>Configuration\<close>

record LiveRecordingConfig =
  lc_SiteID :: int
  lc_MaxChannels :: int
  lc_EnableMinorStreamGrabbing :: bool
  lc_EnableGRPCServer :: bool
  lc_NASPaths :: "string list"
  lc_EdgeEventManagerIP :: string
  lc_IsTestMode :: bool
  lc_PreMotionDurSecs :: int
  lc_PostMotionDurSecs :: int
  lc_ClipDurationMins :: int
  lc_VMSIP :: string
  lc_ChannelFilePath :: string
  lc_ScheduleFilePath :: string
  lc_RecordingIndexPath :: string
  lc_APIListen :: string
  lc_LogLevel :: string
  lc_AuthToken :: string
  lc_AnalyticsDelay :: string
  lc_AnalyticsMaxWait :: string

definition errChannelFilePathRequired :: go_error where
  "errChannelFilePathRequired = ErrorString ''channel_source=file requires channel_file_path''"
definition errScheduleFilePathRequired :: go_error where
  "errScheduleFilePathRequired = ErrorString ''schedule_source=file requires schedule_file_path''"
definition errIndexPathRequired :: go_error where
  "errIndexPathRequired = ErrorString ''edge: recording_index_path is required''"

text \<open>A duration that is not given or does not parse keeps its default.\<close>

definition duration_or :: "duration \<Rightarrow> string \<Rightarrow> duration" where
  "duration_or dflt s = (if s \<noteq> [] then (case ParseDuration s of Some d \<Rightarrow> d | None \<Rightarrow> dflt) else dflt)"

text \<open>\<^verbatim>\<open>filepath.Dir\<close> of a path in shortest form.\<close>

definition path_Dir :: "string \<Rightarrow> string" where
  "path_Dir p = (let d = rev (dropWhile (\<lambda>c. c \<noteq> CHR ''/'') (rev p)) in
     if d = [] then ''.'' else if d = ''/'' then ''/'' else butlast d)"

subsection \<open>Providers\<close>

text \<open>The files on disk: what the channel and the schedule file hold when they are read.\<close>

record app_env =
  ae_chan :: chan_env
  ae_channel_file :: "string \<Rightarrow> file_content"
  ae_schedule_file :: "string \<Rightarrow> schedule_file"
  ae_rec :: "sqliteIndex rec_env"
  ae_tree :: "(string \<times> dir_entry) list option"
  ae_files :: "string set"
  ae_sm_Start :: "go_error option"
  ae_hub_Start :: "go_error option"
  ae_metrics_New :: "go_error option"
  ae_Listen :: "go_error option"
  ae_now :: instant

definition newChannelProvider :: "app_env \<Rightarrow> LiveRecordingConfig \<Rightarrow> channel_provider result" where
  "newChannelProvider env c =
    (if lc_ChannelFilePath c = [] then Inl errChannelFilePathRequired
     else Inr (FileProvider \<lparr>cf_path = lc_ChannelFilePath c, cf_content = ae_channel_file env (lc_ChannelFilePath c)\<rparr>))"

definition newScheduleProvider :: "app_env \<Rightarrow> LiveRecordingConfig \<Rightarrow> schedule_file result" where
  "newScheduleProvider env c =
    (if lc_ScheduleFilePath c = [] then Inl errScheduleFilePathRequired
     else Inr ((ae_schedule_file env (lc_ScheduleFilePath c))\<lparr>sf_path := lc_ScheduleFilePath c\<rparr>))"

text \<open>The adapter that shows the recorder a channel provider.\<close>

definition channelAdapter :: "chan_env \<Rightarrow> channel_provider \<Rightarrow> string list result" where
  "channelAdapter ce p = (case ListChannels ce p of Inl e \<Rightarrow> Inl e | Inr chs \<Rightarrow> Inr (map ch_ID chs))"

text \<open>
  The factory of the stream manager: look the channel up and open its RTSP session. What opens a
  session is an argument, as builds with and without cgo differ in it.
\<close>

definition open_channel :: "(Config \<Rightarrow> 'd result) \<Rightarrow> chan_env \<Rightarrow> channel_provider \<Rightarrow> string \<Rightarrow> 'd result" where
  "open_channel newDemuxer ce p sourceID =
    (case GetChannel ce sourceID p of
       Inl e \<Rightarrow> Inl (WrapError (''edge: channel '' @ quoted sourceID @ '': '') e [])
     | Inr ch \<Rightarrow>
         (case newDemuxer \<lparr>cf_URL = ch_StreamURL ch, cf_Username = ch_Username ch, cf_Password = ch_Password ch,
             cf_Protocol = 0, cf_Multicast = False, cf_Audio = True, cf_ConnectTimeoutMS = 0, cf_FrameQueueDepth = 0\<rparr> of
            Inl e \<Rightarrow> Inl (WrapError (''edge: open stream '' @ quoted (ch_StreamURL ch) @ '': '') e [])
          | Inr d \<Rightarrow> Inr d))"

definition demuxerFactory ::
  "chan_env \<Rightarrow> c_library \<Rightarrow> channel_provider \<Rightarrow> string \<Rightarrow> 'c Demuxer result" where
  "demuxerFactory ce lib p sourceID = open_channel (NewDemuxer lib) ce p sourceID"

subsection \<open>Resources\<close>

datatype resource =
    Context | ChanProvider | SchedProvider | RecIndex | AnalyticsDBM | AnalyticsWriter | StreamManager
  | RecManager | AnalyticsRelayHub | MetricsStore | MetricsCollector

datatype app_event = Opened resource | Closed resource

text \<open>The stack of deferred calls with the log so far; returning runs the deferred calls, last in first out.\<close>

record startup =
  su_defers :: "resource list"
  su_log :: "app_event list"

definition opened :: "resource \<Rightarrow> startup \<Rightarrow> startup" where
  "opened r su = \<lparr>su_defers = r # su_defers su, su_log = su_log su @ [Opened r]\<rparr>"

definition returned :: "startup \<Rightarrow> app_event list" where
  "returned su = su_log su @ map Closed (su_defers su)"

subsection \<open>Run\<close>

record edge_app =
  ea_rm :: "sqliteIndex RecordingManager"
  ea_svc :: "sqliteIndex Service"
  ea_handler :: "sqliteIndex HTTPHandler"
  ea_delay :: duration
  ea_maxWait :: duration
  ea_addr :: string

definition register_channels :: "Channel list \<Rightarrow> sqliteIndex Service \<Rightarrow> sqliteIndex Service" where
  "register_channels = fold (\<lambda>ch. RegisterCamera (active_camera ch))"

text \<open>The recorder and the view service as \<^verbatim>\<open>Run\<close> builds them.\<close>

definition boot_recorder :: "app_env \<Rightarrow> LiveRecordingConfig \<Rightarrow> sqliteIndex RecordingManager" where
  "boot_recorder env c = Start (ae_rec env) (New (NewSQLiteIndex (lc_RecordingIndexPath c) (ae_tree env)) (30 * Second)
     (ae_files env) [WithDefaultRecording (path_Dir (lc_RecordingIndexPath c))])"

definition boot_service ::
  "app_env \<Rightarrow> channel_provider \<Rightarrow> sqliteIndex RecordingManager \<Rightarrow> sqliteIndex Service" where
  "boot_service env chanProvider rm =
    (let viewSvc = NewService (Some (rm_index rm)) True
           [WithChannelWriter, WithRecordingProvider, WithPersistenceReader, WithLiveAnalyticsStore];
         viewSvc = SetAnalyticsRelayHub viewSvc
     in case ListChannels (ae_chan env) chanProvider of
          Inr channels \<Rightarrow> register_channels channels viewSvc | Inl e \<Rightarrow> viewSvc)"

text \<open>The HTTP handler and the listener; with the listener open the application runs until it is told to stop.\<close>

definition serve ::
  "app_env \<Rightarrow> LiveRecordingConfig \<Rightarrow> sqliteIndex RecordingManager \<Rightarrow> sqliteIndex Service \<Rightarrow> bool \<Rightarrow> startup
     \<Rightarrow> go_error option \<times> app_event list \<times> edge_app option" where
  "serve env c rm viewSvc collecting su =
    (let handlerOpts = [WithSegmentCounter (int (ActiveCount rm)), WithAnalyticsHub, WithAnalyticsReader];
         handlerOpts = (if collecting then handlerOpts @ [WithMetricsCollector] else handlerOpts);
         handler = NewHTTPHandler viewSvc (lc_AuthToken c) (ae_now env) handlerOpts
     in case ae_Listen env of
       Some e \<Rightarrow> (Some (WrapError (''edge: listen '' @ lc_APIListen c @ '': '') e []), returned su, None)
     | None \<Rightarrow>
         (None, returned su,
          Some \<lparr>ea_rm = rm, ea_svc = viewSvc, ea_handler = handler,
                ea_delay = duration_or (5 * Second) (lc_AnalyticsDelay c),
                ea_maxWait = duration_or (7 * Second) (lc_AnalyticsMaxWait c), ea_addr = lc_APIListen c\<rparr>))"

text \<open>From the recording index on: the streams, the recorder, the view service, the metrics and the listener.\<close>

definition start_services ::
  "app_env \<Rightarrow> LiveRecordingConfig \<Rightarrow> channel_provider \<Rightarrow> startup \<Rightarrow> go_error option \<times> app_event list \<times> edge_app option" where
  "start_services env c chanProvider su =
    (let su = opened AnalyticsWriter (opened AnalyticsDBM (opened RecIndex su)) in
     case ae_sm_Start env of
       Some e \<Rightarrow> (Some (WrapError ''edge: stream manager start: '' e []), returned su, None)
     | None \<Rightarrow>
     let su = opened StreamManager su;
         rm = boot_recorder env c;
         su = opened RecManager su
     in case ae_hub_Start env of
       Some e \<Rightarrow> (Some (WrapError ''edge: analytics relay hub start: '' e []), returned su, None)
     | None \<Rightarrow>
     let su = opened AnalyticsRelayHub su;
         viewSvc = boot_service env chanProvider rm;
         (rm, su, collecting) = (case ae_metrics_New env of
            Some e \<Rightarrow> (rm, su, False)
          | None \<Rightarrow> (SetMetricsCollector rm, opened MetricsCollector (opened MetricsStore su), True))
     in serve env c rm viewSvc collecting su)"

definition Run ::
  "app_env \<Rightarrow> LiveRecordingConfig \<Rightarrow> go_error option \<times> app_event list \<times> edge_app option" where
  "Run env cfg =
    (let c = (if lc_APIListen cfg = [] then cfg\<lparr>lc_APIListen := '':8080''\<rparr> else cfg);
         su = opened Context \<lparr>su_defers = [], su_log = []\<rparr>
     in
     if lc_RecordingIndexPath c = [] then (Some errIndexPathRequired, returned su, None)
     else case newChannelProvider env c of
       Inl e \<Rightarrow> (Some (WrapError ''edge: channel provider: '' e []), returned su, None)
     | Inr chanProvider \<Rightarrow>
     let su = opened ChanProvider su in
     case newScheduleProvider env c of
       Inl e \<Rightarrow> (Some (WrapError ''edge: schedule provider: '' e []), returned su, None)
     | Inr schedProvider \<Rightarrow> start_services env c chanProvider (opened SchedProvider su))"

text \<open>The sources that the recorder of the application sees at a tick.\<close>

definition app_rec_env :: "app_env \<Rightarrow> channel_provider \<Rightarrow> schedule_file \<Rightarrow> sqliteIndex rec_env \<Rightarrow> sqliteIndex rec_env" where
  "app_rec_env env chans scheds renv =
    renv\<lparr>ev_ListSchedules := file_ListSchedules scheds, ev_ListChannels := channelAdapter (ae_chan env) chans\<rparr>"
subsection \<open>Nothing is left open\<close>

definition boot_order :: "resource list" where
  "boot_order = [Context, ChanProvider, SchedProvider, RecIndex, AnalyticsDBM, AnalyticsWriter, StreamManager,
     RecManager, AnalyticsRelayHub, MetricsStore, MetricsCollector]"

definition balanced :: "resource list \<Rightarrow> startup \<Rightarrow> bool" where
  "balanced rs su \<longleftrightarrow> su_defers su = rev rs \<and> su_log su = map Opened rs"

lemma balanced_opened: "balanced rs su \<Longrightarrow> balanced (rs @ [r]) (opened r su)"
  by (simp add: balanced_def opened_def)

lemma returned_balanced: "balanced rs su \<Longrightarrow> returned su = map Opened rs @ map Closed (rev rs)"
  by (simp add: balanced_def returned_def)

definition clean_log :: "app_event list \<Rightarrow> bool" where
  "clean_log xs \<longleftrightarrow> (\<exists>rs. prefix rs boot_order \<and> xs = map Opened rs @ map Closed (rev rs))"

lemma clean_returned: "balanced rs su \<Longrightarrow> prefix rs boot_order \<Longrightarrow> clean_log (returned su)"
  by (auto simp: clean_log_def returned_balanced)

lemma start_services_clean:
  assumes "balanced [Context, ChanProvider, SchedProvider] su"
  shows "clean_log (fst (snd (start_services env c p su)))"
proof -
  define su1 where "su1 = opened AnalyticsWriter (opened AnalyticsDBM (opened RecIndex su))"
  define su2 where "su2 = opened RecManager (opened StreamManager su1)"
  define su3 where "su3 = opened AnalyticsRelayHub su2"
  define su4 where "su4 = opened MetricsCollector (opened MetricsStore su3)"
  have 1: "balanced (take 6 boot_order) su1"
    using balanced_opened [OF balanced_opened [OF balanced_opened [OF assms]]] by (simp add: su1_def boot_order_def)
  have 2: "balanced (take 8 boot_order) su2"
    using balanced_opened [OF balanced_opened [OF 1]] by (simp add: su2_def boot_order_def)
  have 3: "balanced (take 9 boot_order) su3" using balanced_opened [OF 2] by (simp add: su3_def boot_order_def)
  have 4: "balanced (take 11 boot_order) su4"
    using balanced_opened [OF balanced_opened [OF 3]] by (simp add: su4_def boot_order_def)
  have "clean_log (returned su1)" "clean_log (returned su2)" "clean_log (returned su3)" "clean_log (returned su4)"
    using 1 2 3 4 by (blast intro: clean_returned take_is_prefix)+
  then show ?thesis
    by (cases "ae_sm_Start env"; cases "ae_hub_Start env"; cases "ae_metrics_New env"; cases "ae_Listen env";
      simp add: start_services_def serve_def Let_def flip: su1_def su2_def su3_def su4_def)
qed

text \<open>A run fails before it opens the index, or goes on to start the services.\<close>

definition su_context :: startup where
  "su_context = opened Context \<lparr>su_defers = [], su_log = []\<rparr>"

lemma providers_listen [simp]:
  "newChannelProvider env (cfg\<lparr>lc_APIListen := a\<rparr>) = newChannelProvider env cfg"
  "newScheduleProvider env (cfg\<lparr>lc_APIListen := a\<rparr>) = newScheduleProvider env cfg"
  by (simp_all add: newChannelProvider_def newScheduleProvider_def)

lemma Run_stages:
  "(\<exists>e. Run env cfg = (Some e, returned su_context, None))
    \<or> (\<exists>e. Run env cfg = (Some e, returned (opened ChanProvider su_context), None))
    \<or> (\<exists>c chans. newChannelProvider env cfg = Inr chans \<and>
         Run env cfg = start_services env c chans (opened SchedProvider (opened ChanProvider su_context)))"
proof -
  define c where "c = (if lc_APIListen cfg = [] then cfg\<lparr>lc_APIListen := '':8080''\<rparr> else cfg)"
  have c: "newChannelProvider env c = newChannelProvider env cfg" by (simp add: c_def)
  have run: "Run env cfg =
      (if lc_RecordingIndexPath c = [] then (Some errIndexPathRequired, returned su_context, None)
       else case newChannelProvider env c of
         Inl e \<Rightarrow> (Some (WrapError ''edge: channel provider: '' e []), returned su_context, None)
       | Inr chanProvider \<Rightarrow>
           (case newScheduleProvider env c of
              Inl e \<Rightarrow> (Some (WrapError ''edge: schedule provider: '' e []), returned (opened ChanProvider su_context), None)
            | Inr schedProvider \<Rightarrow> start_services env c chanProvider (opened SchedProvider (opened ChanProvider su_context))))"
    by (simp only: Run_def Let_def c_def su_context_def)
  show ?thesis
  proof (cases "newChannelProvider env c")
    case (Inr chans)
    then show ?thesis using run c by (cases "newScheduleProvider env c") auto
  qed (use run in auto)
qed

lemma Run_clean: "clean_log (fst (snd (Run env cfg)))"
proof -
  have b: "balanced [Context] su_context" "balanced [Context, ChanProvider] (opened ChanProvider su_context)"
    "balanced [Context, ChanProvider, SchedProvider] (opened SchedProvider (opened ChanProvider su_context))"
    by (simp_all add: balanced_def opened_def su_context_def)
  have "clean_log (returned su_context)" "clean_log (returned (opened ChanProvider su_context))"
    using clean_returned [OF b(1)] clean_returned [OF b(2)] by (simp_all add: boot_order_def)
  then show ?thesis using Run_stages [of env cfg] start_services_clean [OF b(3)] by auto
qed

lemma start_services_outcome:
  "fst (start_services env c p su) = None \<longleftrightarrow> snd (snd (start_services env c p su)) \<noteq> None"
  "fst (start_services env c p su) = None \<Longrightarrow> {Opened RecIndex, Opened RecManager} \<subseteq> set (fst (snd (start_services env c p su)))"
  by (cases "ae_sm_Start env"; cases "ae_hub_Start env"; cases "ae_metrics_New env"; cases "ae_Listen env";
      simp add: start_services_def serve_def Let_def returned_def opened_def)+

lemma Run_outcome:
  "fst (Run env cfg) = None \<longleftrightarrow> snd (snd (Run env cfg)) \<noteq> None"
  "fst (Run env cfg) = None \<Longrightarrow> {Opened RecIndex, Opened RecManager} \<subseteq> set (fst (snd (Run env cfg)))"
  using Run_stages [of env cfg] start_services_outcome by auto


subsection \<open>Every channel is recorded\<close>

lemma register_channels_cameras:
  "dom (map_of (sv_cameras (register_channels cs s))) = dom (map_of (sv_cameras s)) \<union> ch_ID ` set cs"
proof (induction cs arbitrary: s)
  case (Cons ch cs)
  have "dom (map_of (sv_cameras (RegisterCamera (active_camera ch) s))) = insert (ch_ID ch) (dom (map_of (sv_cameras s)))"
    by (auto simp: map_of_RegisterCamera active_camera_def dom_def)
  with Cons show ?case by (simp add: register_channels_def)
qed (simp add: register_channels_def)

lemma start_services_app:
  assumes "start_services env c p su = (None, evs, Some app)"
  shows "ea_rm app = boot_recorder env c \<or> ea_rm app = SetMetricsCollector (boot_recorder env c)"
    and "ea_svc app = boot_service env p (boot_recorder env c)"
  using assms
  by (cases "ae_sm_Start env"; cases "ae_hub_Start env"; cases "ae_metrics_New env"; cases "ae_Listen env";
      auto simp: start_services_def serve_def Let_def)+

lemma Run_app:
  assumes "Run env cfg = (None, evs, Some app)" "newChannelProvider env cfg = Inr chans"
  obtains c su where "start_services env c chans su = (None, evs, Some app)"
  using Run_stages [of env cfg] assms that by auto

lemma boot_recorder_simps [simp]:
  "rm_active (boot_recorder env c) = []" "rm_hasChannels (boot_recorder env c)"
  by (simp_all add: boot_recorder_def Start_def New_def)

lemma boot_service_cameras:
  assumes "ListChannels (ae_chan env) chans = Inr cs"
  shows "dom (map_of (sv_cameras (boot_service env chans rm))) = ch_ID ` set cs"
  using assms by (simp add: boot_service_def register_channels_cameras SetAnalyticsRelayHub_def NewService_def)

lemma Run_components:
  assumes "Run env cfg = (None, evs, Some app)" "newChannelProvider env cfg = Inr chans"
    and "ListChannels (ae_chan env) chans = Inr cs"
  shows "rm_active (ea_rm app) = []" "rm_hasChannels (ea_rm app)" "dom (map_of (sv_cameras (ea_svc app))) = ch_ID ` set cs"
proof -
  obtain c su where "start_services env c chans su = (None, evs, Some app)" by (rule Run_app [OF assms(1,2)])
  note app = start_services_app [OF this]
  show "rm_active (ea_rm app) = []" "rm_hasChannels (ea_rm app)"
    using app(1) by (auto simp: SetMetricsCollector_def)
  show "dom (map_of (sv_cameras (ea_svc app))) = ch_ID ` set cs"
    using app(2) boot_service_cameras [OF assms(3)] by simp
qed

lemma started_if_plain:
  assumes "plain s" "\<exists>h. ev_Consume env (sc_ChannelID s) (''recorder-'' @ sc_ID s @ ''-'' @ fmt_compact now) = Inr h"
  shows "\<exists>ar. slot env now s None = Some ar \<and> ar_sched ar = s"
  using assms by (auto simp: slot_def started_def disk_too_low_def plain_def)

lemma tick_starts:
  assumes "ev_ListSchedules env = Inr ss" "rm_active rm = []" "distinct (map sc_ID (appendDefaults env rm ss))"
    and "\<forall>s \<in> set (appendDefaults env rm ss). ev_IsActive env s (ev_now env)"
    and "\<And>ch cid. \<exists>h. ev_Consume env ch cid = Inr h"
    and "s \<in> set (appendDefaults env rm ss)" "plain s"
  shows "sc_ChannelID s \<in> ActiveChannels (tick env rm)"
proof -
  let ?all = "appendDefaults env rm ss"
  have all: "active_schedules env (ev_now env) ?all = ?all" using assms(4) by (simp add: active_schedules_def)
  have "find (\<lambda>t. sc_ID t = sc_ID s) ?all = Some s"
    using assms(3,6) by (rule find_key_unique)
  moreover obtain ar where "slot env (ev_now env) s None = Some ar" "ar_sched ar = s"
    using started_if_plain [OF assms(7)] assms(5) by blast
  ultimately have "map_of (rm_active (tick env rm)) (sc_ID s) = Some ar"
    using tick_active_map [OF assms(1) refl, of rm "sc_ID s"] assms(2,3) by (simp add: all)
  then show ?thesis
    using \<open>ar_sched ar = s\<close> by (force simp: ActiveChannels_def dest: map_of_SomeD)
qed

lemma appendDefaults_has_channel:
  assumes "rm_hasChannels rm" "ev_ListChannels env = Inr chs" "ch \<in> set chs"
  shows "\<exists>s \<in> set (appendDefaults env rm ss). sc_ChannelID s = ch"
proof (cases "ch \<in> sc_ChannelID ` set ss")
  case True
  then show ?thesis using assms by (auto simp: appendDefaults_def Let_def)
next
  case False
  moreover have "sc_ChannelID (default_schedule p ch) = ch" for p by (simp add: default_schedule_def)
  ultimately show ?thesis using assms by (intro bexI [of _ "default_schedule (rm_defaultStoragePath rm) ch"])
    (simp_all add: appendDefaults_def Let_def)
qed


text \<open>An application with one channel and an empty schedule file.\<close>

definition app_env0 :: app_env where
  "app_env0 = \<lparr>ae_chan = chan_env0, ae_channel_file = (\<lambda>_. ChannelList [camera0]),
     ae_schedule_file = (\<lambda>_. \<lparr>sf_path = [], sf_ReadFile = None, sf_Unmarshal = Inr [], sf_parse = (\<lambda>_. Inl (ErrorString []))\<rparr>),
     ae_rec = rec_env0, ae_tree = None, ae_files = {}, ae_sm_Start = None, ae_hub_Start = None, ae_metrics_New = None,
     ae_Listen = None, ae_now = 0\<rparr>"

definition config0 :: LiveRecordingConfig where
  "config0 = \<lparr>lc_SiteID = 0, lc_MaxChannels = 0, lc_EnableMinorStreamGrabbing = False, lc_EnableGRPCServer = False,
     lc_NASPaths = [], lc_EdgeEventManagerIP = [], lc_IsTestMode = False, lc_PreMotionDurSecs = 0, lc_PostMotionDurSecs = 0,
     lc_ClipDurationMins = 0, lc_VMSIP = [], lc_ChannelFilePath = ''c'', lc_ScheduleFilePath = ''s'', lc_RecordingIndexPath = ''/d/rec'', lc_APIListen = [],
     lc_LogLevel = [], lc_AuthToken = [], lc_AnalyticsDelay = [], lc_AnalyticsMaxWait = []\<rparr>"

definition provider0 :: channel_provider where
  "provider0 = FileProvider \<lparr>cf_path = ''c'', cf_content = ChannelList [camera0]\<rparr>"

definition schedules0 :: schedule_file where
  "schedules0 = \<lparr>sf_path = ''s'', sf_ReadFile = None, sf_Unmarshal = Inr [], sf_parse = (\<lambda>_. Inl (ErrorString []))\<rparr>"

lemma provider0_ok: "newChannelProvider app_env0 config0 = Inr provider0" "ListChannels (ae_chan app_env0) provider0 = Inr [camera0]"
  by (simp_all add: newChannelProvider_def app_env0_def config0_def provider0_def file_ListChannels_def load_def chan_env0_def)

lemma run0: "\<exists>evs app. Run app_env0 config0 = (None, evs, Some app)"
  by (simp add: Run_def start_services_def serve_def Let_def newChannelProvider_def newScheduleProvider_def app_env0_def config0_def)



end
