(* ===== verification/Bootstrap.thy ===== *)
theory Bootstrap
  imports Edge_App
begin

text \<open>
  What a command does before the application runs: \<^verbatim>\<open>src/cmd/edge/main.go\<close> and \<^verbatim>\<open>src/cmd/cloud/main.go\<close>
  with the configuration files of \<^verbatim>\<open>src/internal/config\<close>, \<^verbatim>\<open>src/internal/edge/viper.go\<close>,
  \<^verbatim>\<open>src/internal/cloud/viper.go\<close>, the paths of \<^verbatim>\<open>src/pkg/configpath\<close> and the log of \<^verbatim>\<open>src/pkg/logger\<close>.
  The disk is a set of directories and a map from paths to contents. Which calls of the operating
  system fail is a parameter, and so are the encoder and the decoder of viper and the JSON decoders of
  the channel and schedule files. Paths are relative paths in shortest form.
\<close>

subsection \<open>The disk\<close>

record disk =
  dk_dirs :: "string set"
  dk_files :: "string \<rightharpoonup> string"

text \<open>The failures of the operating system; a failed write says what it leaves of the file.\<close>

record os_env =
  oe_MkdirAll :: "string \<Rightarrow> go_error option"
  oe_ReadFile :: "string \<Rightarrow> go_error option"
  oe_Stat :: "string \<Rightarrow> go_error option"
  oe_WriteFile :: "string \<Rightarrow> (go_error \<times> string option) option"

definition path_Join :: "string \<Rightarrow> string \<Rightarrow> string" where
  "path_Join a b = (if a = [] \<or> a = ''.'' then b else if a = ''/'' then ''/'' @ b else a @ ''/'' @ b)"

text \<open>A directory and the directories it lies in.\<close>

definition path_chain :: "string \<Rightarrow> string set" where
  "path_chain p = insert p ((\<lambda>i. take i p) ` {i \<in> {1..<length p}. p ! i = CHR ''/''})"

definition os_MkdirAll :: "os_env \<Rightarrow> string \<Rightarrow> disk \<Rightarrow> go_error option \<times> disk" where
  "os_MkdirAll env p dk =
    (case oe_MkdirAll env p of
       Some e \<Rightarrow> (Some e, dk)
     | None \<Rightarrow> (None, dk\<lparr>dk_dirs := dk_dirs dk \<union> path_chain p\<rparr>))"

definition os_ReadFile :: "os_env \<Rightarrow> string \<Rightarrow> disk \<Rightarrow> string result" where
  "os_ReadFile env p dk =
    (case oe_ReadFile env p of
       Some e \<Rightarrow> Inl e
     | None \<Rightarrow> (case dk_files dk p of None \<Rightarrow> Inl (no_such_file p) | Some s \<Rightarrow> Inr s))"

definition os_Stat :: "os_env \<Rightarrow> string \<Rightarrow> disk \<Rightarrow> go_error option" where
  "os_Stat env p dk =
    (case oe_Stat env p of
       Some e \<Rightarrow> Some e
     | None \<Rightarrow> if dk_files dk p = None then Some (no_such_file p) else None)"

definition os_WriteFile :: "os_env \<Rightarrow> string \<Rightarrow> string \<Rightarrow> disk \<Rightarrow> go_error option \<times> disk" where
  "os_WriteFile env p s dk =
    (case oe_WriteFile env p of
       Some (e, left) \<Rightarrow> (Some e, dk\<lparr>dk_files := (dk_files dk)(p := left)\<rparr>)
     | None \<Rightarrow>
         if path_Dir p \<in> {''.'', ''/''} \<union> dk_dirs dk then (None, dk\<lparr>dk_files := (dk_files dk)(p \<mapsto> s)\<rparr>)
         else (Some (no_such_file p), dk))"

subsection \<open>Paths of the application\<close>

definition GetFolder :: "os_env \<Rightarrow> string \<Rightarrow> disk \<Rightarrow> string \<times> disk" where
  "GetFolder env folder dk = (folder, snd (os_MkdirAll env folder dk))"

definition GetConfigFolder :: "os_env \<Rightarrow> string \<Rightarrow> disk \<Rightarrow> string \<times> disk" where
  "GetConfigFolder env applicationName dk = GetFolder env (path_Join ''config'' applicationName) dk"

definition GetSessionFolder :: "os_env \<Rightarrow> string \<Rightarrow> disk \<Rightarrow> string \<times> disk" where
  "GetSessionFolder env applicationName dk = GetFolder env (path_Join ''session'' applicationName) dk"

definition GetLogFolder :: "os_env \<Rightarrow> string \<Rightarrow> disk \<Rightarrow> string \<times> disk" where
  "GetLogFolder env applicationName dk = GetFolder env (path_Join ''logs'' applicationName) dk"

definition GetYAMLConfigFilePath :: "os_env \<Rightarrow> string \<Rightarrow> disk \<Rightarrow> string \<times> disk" where
  "GetYAMLConfigFilePath env a dk = (let (f, dk) = GetConfigFolder env a dk in (path_Join f (a @ ''.yaml''), dk))"

definition GetJSONConfigFilePath :: "os_env \<Rightarrow> string \<Rightarrow> disk \<Rightarrow> string \<times> disk" where
  "GetJSONConfigFilePath env a dk = (let (f, dk) = GetConfigFolder env a dk in (path_Join f (a @ ''.json''), dk))"

definition GetTOMLConfigFilePath :: "os_env \<Rightarrow> string \<Rightarrow> disk \<Rightarrow> string \<times> disk" where
  "GetTOMLConfigFilePath env a dk = (let (f, dk) = GetConfigFolder env a dk in (path_Join f (a @ ''.toml''), dk))"

definition GetJSONSessionFilePath :: "os_env \<Rightarrow> string \<Rightarrow> disk \<Rightarrow> string \<times> disk" where
  "GetJSONSessionFilePath env a dk = (let (f, dk) = GetSessionFolder env a dk in (path_Join f (a @ ''.json''), dk))"

definition GetLogFilePath :: "os_env \<Rightarrow> string \<Rightarrow> disk \<Rightarrow> string \<times> disk" where
  "GetLogFilePath env a dk = (let (f, dk) = GetLogFolder env a dk in (path_Join f (a @ ''.log''), dk))"

subsection \<open>Configuration files\<close>

text \<open>
  Viper: reading a text in a format gives settings, which are decoded into the configuration together
  with the environment variables; writing encodes the sections that were set. A section that cannot be
  encoded is a failure to write the file.
\<close>

record ('v, 's, 't) viper =
  vp_Parse :: "string \<Rightarrow> string \<Rightarrow> 'v result"
  vp_Unmarshal :: "'v \<Rightarrow> 't result"
  vp_Marshal :: "string \<Rightarrow> (string \<times> 's) list \<Rightarrow> string"

definition loadConfig :: "('v, 's, 't) viper \<Rightarrow> os_env \<Rightarrow> string \<Rightarrow> string \<Rightarrow> disk \<Rightarrow> 't result" where
  "loadConfig vp env cfgFile format dk =
    (case (case os_ReadFile env cfgFile dk of Inl e \<Rightarrow> Inl e | Inr s \<Rightarrow> vp_Parse vp format s) of
       Inl e \<Rightarrow> Inl e
     | Inr v \<Rightarrow> vp_Unmarshal vp v)"

definition saveConfig :: "('v, 's, 't) viper \<Rightarrow> os_env \<Rightarrow> string \<Rightarrow> string \<Rightarrow> (string \<times> 's) list \<Rightarrow> disk \<Rightarrow> go_error option \<times> disk" where
  "saveConfig vp env cfgFile format keys dk = os_WriteFile env cfgFile (vp_Marshal vp format keys) dk"

definition LoadConfigYAML :: "('v, 's, 't) viper \<Rightarrow> os_env \<Rightarrow> string \<Rightarrow> disk \<Rightarrow> 't result" where
  "LoadConfigYAML vp env cfgFile dk = loadConfig vp env cfgFile ''yaml'' dk"

definition LoadConfigJSON :: "('v, 's, 't) viper \<Rightarrow> os_env \<Rightarrow> string \<Rightarrow> disk \<Rightarrow> 't result" where
  "LoadConfigJSON vp env cfgFile dk = loadConfig vp env cfgFile ''json'' dk"

definition SaveConfigYAML :: "('v, 's, 't) viper \<Rightarrow> os_env \<Rightarrow> string \<Rightarrow> (string \<times> 's) list \<Rightarrow> disk \<Rightarrow> go_error option \<times> disk" where
  "SaveConfigYAML vp env cfgFile keys dk = saveConfig vp env cfgFile ''yaml'' keys dk"

definition SaveConfigJSON :: "('v, 's, 't) viper \<Rightarrow> os_env \<Rightarrow> string \<Rightarrow> (string \<times> 's) list \<Rightarrow> disk \<Rightarrow> go_error option \<times> disk" where
  "SaveConfigJSON vp env cfgFile keys dk = saveConfig vp env cfgFile ''json'' keys dk"

subsection \<open>The edge command\<close>

record edge_Config =
  ec_LiveRecordingConfig :: LiveRecordingConfig

type_synonym 'v edge_viper = "('v, LiveRecordingConfig, edge_Config) viper"

definition edge_AppName :: string where "edge_AppName = ''edge''"

definition default_config :: "string \<Rightarrow> LiveRecordingConfig" where
  "default_config cfgDir = \<lparr>lc_SiteID = - 1, lc_MaxChannels = - 1, lc_EnableMinorStreamGrabbing = True,
     lc_EnableGRPCServer = True, lc_NASPaths = [''''], lc_EdgeEventManagerIP = ''127.0.0.1'', lc_IsTestMode = False,
     lc_PreMotionDurSecs = 10, lc_PostMotionDurSecs = 10, lc_ClipDurationMins = 5, lc_VMSIP = ''127.0.0.1'',
     lc_ChannelFilePath = path_Join cfgDir ''channels.json'', lc_ScheduleFilePath = path_Join cfgDir ''schedules.json'',
     lc_RecordingIndexPath = path_Join cfgDir ''recordings'', lc_APIListen = '':8080'', lc_LogLevel = ''debug'',
     lc_AuthToken = [], lc_AnalyticsDelay = [], lc_AnalyticsMaxWait = []\<rparr>"

definition edge_LoadConfig :: "'v edge_viper \<Rightarrow> os_env \<Rightarrow> string \<Rightarrow> disk \<Rightarrow> edge_Config result" where
  "edge_LoadConfig vp env cfgFile dk = LoadConfigJSON vp env cfgFile dk"

definition edge_SaveConfig :: "'v edge_viper \<Rightarrow> os_env \<Rightarrow> string \<Rightarrow> disk \<Rightarrow> go_error option \<times> disk" where
  "edge_SaveConfig vp env cfgFile dk = SaveConfigJSON vp env cfgFile [(''config'', default_config (path_Dir cfgFile))] dk"

definition seed_file :: "os_env \<Rightarrow> string \<Rightarrow> disk \<Rightarrow> disk" where
  "seed_file env p dk =
    (case os_Stat env p dk of None \<Rightarrow> dk | Some e \<Rightarrow> snd (os_WriteFile env p ''[]'' dk))"

definition bootstrapSeedFiles :: "os_env \<Rightarrow> string \<Rightarrow> disk \<Rightarrow> disk" where
  "bootstrapSeedFiles env cfgFile dk =
    fold (\<lambda>name. seed_file env (path_Join (path_Dir cfgFile) name)) [''channels.json'', ''schedules.json''] dk"

definition edge_PersistentPreRunE :: "'v edge_viper \<Rightarrow> os_env \<Rightarrow> disk \<Rightarrow> edge_Config result \<times> disk" where
  "edge_PersistentPreRunE vp env dk =
    (let (cfgFile, dk) = GetJSONConfigFilePath env edge_AppName dk in
     case edge_LoadConfig vp env cfgFile dk of
       Inr cfg \<Rightarrow> (Inr cfg, dk)
     | Inl e \<Rightarrow>
         (case edge_SaveConfig vp env cfgFile dk of
            (Some e, dk) \<Rightarrow> (Inl e, dk)
          | (None, dk) \<Rightarrow> let dk = bootstrapSeedFiles env cfgFile dk in (edge_LoadConfig vp env cfgFile dk, dk)))"

text \<open>
  The logger: the rotating file and the console it writes to, through a buffer that drops messages when
  it is full, and its level; \<^verbatim>\<open>zerolog.ParseLevel\<close> is a parameter.
\<close>

record rotating_log =
  rg_Filename :: string
  rg_MaxSizeMB :: nat
  rg_MaxBackups :: nat
  rg_MaxAgeDays :: nat

definition maxLogBuffer :: nat where "maxLogBuffer = 1000"

datatype log_sink = BufferedFile rotating_log nat | ConsoleOut

record 'l logging =
  lg_sinks :: "log_sink list"
  lg_level :: 'l

definition InitLogger :: "(string \<Rightarrow> 'l result) \<Rightarrow> string \<Rightarrow> string \<Rightarrow> 'l logging \<Rightarrow> go_error option \<times> 'l logging" where
  "InitLogger ParseLevel logFile logLevel lg =
    (let rotatingLogger = \<lparr>rg_Filename = logFile, rg_MaxSizeMB = 10, rg_MaxBackups = 3, rg_MaxAgeDays = 28\<rparr>;
         lg = lg\<lparr>lg_sinks := [BufferedFile rotatingLogger maxLogBuffer, ConsoleOut]\<rparr> in
     case ParseLevel logLevel of
       Inl e \<Rightarrow> (Some (WrapError ''InitLogger error '' e []), lg)
     | Inr level \<Rightarrow> (None, lg\<lparr>lg_level := level\<rparr>))"

text \<open>The files of the application as its providers decode them.\<close>

record json_env =
  je_channels :: "string \<Rightarrow> Channel list result"
  je_schedules :: "string \<Rightarrow> jsonSchedule list result"

definition channel_content :: "json_env \<Rightarrow> disk \<Rightarrow> string \<Rightarrow> file_content" where
  "channel_content js dk p =
    (case dk_files dk p of
       None \<Rightarrow> NoFile
     | Some s \<Rightarrow> (case je_channels js s of Inl e \<Rightarrow> Malformed e | Inr cs \<Rightarrow> ChannelList cs))"

definition schedule_content :: "json_env \<Rightarrow> os_env \<Rightarrow> disk \<Rightarrow> string \<Rightarrow> schedule_file \<Rightarrow> schedule_file" where
  "schedule_content js env dk p sf =
    (case os_ReadFile env p dk of
       Inl e \<Rightarrow> sf\<lparr>sf_ReadFile := Some e\<rparr>
     | Inr s \<Rightarrow> sf\<lparr>sf_ReadFile := None, sf_Unmarshal := je_schedules js s\<rparr>)"

definition disk_app_env :: "json_env \<Rightarrow> os_env \<Rightarrow> disk \<Rightarrow> app_env \<Rightarrow> app_env" where
  "disk_app_env js env dk ae = ae\<lparr>ae_channel_file := channel_content js dk,
     ae_schedule_file := (\<lambda>p. schedule_content js env dk p (ae_schedule_file ae p))\<rparr>"

definition edge_RunE ::
  "(string \<Rightarrow> 'l result) \<Rightarrow> json_env \<Rightarrow> os_env \<Rightarrow> app_env \<Rightarrow> edge_Config \<Rightarrow> disk \<Rightarrow> 'l logging
     \<Rightarrow> (go_error option \<times> app_event list \<times> edge_app option) \<times> disk \<times> 'l logging" where
  "edge_RunE ParseLevel js env ae cfgGlobal dk lg =
    (let logLevel = (if lc_LogLevel (ec_LiveRecordingConfig cfgGlobal) = [] then ''debug''
           else lc_LogLevel (ec_LiveRecordingConfig cfgGlobal));
         (logFile, dk) = GetLogFilePath env edge_AppName dk
     in case InitLogger ParseLevel logFile logLevel lg of
          (Some e, lg) \<Rightarrow> ((Some e, [], None), dk, lg)
        | (None, lg) \<Rightarrow> (Run (disk_app_env js env dk ae) (ec_LiveRecordingConfig cfgGlobal), dk, lg))"

text \<open>The command: preparing, then running.\<close>

definition edge_command ::
  "'v edge_viper \<Rightarrow> (string \<Rightarrow> 'l result) \<Rightarrow> json_env \<Rightarrow> os_env \<Rightarrow> app_env \<Rightarrow> disk \<Rightarrow> 'l logging
     \<Rightarrow> (go_error option \<times> app_event list \<times> edge_app option) \<times> disk \<times> 'l logging" where
  "edge_command vp ParseLevel js env ae dk lg =
    (case edge_PersistentPreRunE vp env dk of
       (Inl e, dk) \<Rightarrow> ((Some e, [], None), dk, lg)
     | (Inr cfg, dk) \<Rightarrow> edge_RunE ParseLevel js env ae cfg dk lg)"

subsection \<open>The cloud command\<close>

record Cloud =
  cl_StreamAddr :: string
  cl_MongoConnStr :: string
  cl_StorageAPIAddr :: string

record API =
  ap_Listen :: int
  ap_StaticDir :: string
  ap_Origins :: "string list"

record cloud_Config =
  cc_Cloud :: Cloud
  cc_API :: API

datatype cloud_section = CloudSection Cloud | APISection API

type_synonym 'v cloud_viper = "('v, cloud_section, cloud_Config) viper"

definition cloud_AppName :: string where "cloud_AppName = ''vrtc3-cloud''"

definition cloud_default :: cloud_Config where
  "cloud_default = \<lparr>
     cc_Cloud = \<lparr>cl_StreamAddr = ''http://127.0.0.1:20003'', cl_MongoConnStr = [], cl_StorageAPIAddr = []\<rparr>,
     cc_API = \<lparr>ap_Listen = 8083, ap_StaticDir = ''ui'', ap_Origins = []\<rparr>\<rparr>"

definition cloud_LoadConfig :: "'v cloud_viper \<Rightarrow> os_env \<Rightarrow> string \<Rightarrow> disk \<Rightarrow> cloud_Config result" where
  "cloud_LoadConfig vp env cfgFile dk = LoadConfigYAML vp env cfgFile dk"

definition cloud_SaveConfig :: "'v cloud_viper \<Rightarrow> os_env \<Rightarrow> string \<Rightarrow> disk \<Rightarrow> go_error option \<times> disk" where
  "cloud_SaveConfig vp env cfgFile dk = SaveConfigYAML vp env cfgFile
     [(''cloud'', CloudSection (cc_Cloud cloud_default)), (''api'', APISection (cc_API cloud_default))] dk"

definition cloud_PersistentPreRunE :: "'v cloud_viper \<Rightarrow> os_env \<Rightarrow> disk \<Rightarrow> cloud_Config result \<times> disk" where
  "cloud_PersistentPreRunE vp env dk =
    (let (cfgFile, dk) = GetYAMLConfigFilePath env cloud_AppName dk in
     case cloud_LoadConfig vp env cfgFile dk of
       Inr cfg \<Rightarrow> (Inr cfg, dk)
     | Inl e \<Rightarrow>
         (case cloud_SaveConfig vp env cfgFile dk of
            (Some e, dk) \<Rightarrow> (Inl e, dk)
          | (None, dk) \<Rightarrow> (cloud_LoadConfig vp env cfgFile dk, dk)))"

subsection \<open>Commands that start from a configuration file\<close>

text \<open>
  The contract of such a command: it makes the folder, loads the file, and when that fails, whatever
  the reason, writes the default, adds seed files and loads again. Loading depends on the
  configuration file only, saving changes only that file, and the seed files are other files.
\<close>

locale config_command =
  fixes start :: "disk \<Rightarrow> 't result \<times> disk" and mkdir :: "disk \<Rightarrow> disk" and load :: "disk \<Rightarrow> 't result"
    and save :: "disk \<Rightarrow> go_error option \<times> disk" and seed :: "disk \<Rightarrow> disk" and cfgfile :: string and seeds :: "string set"
  assumes start_eq: "start dk = (let dk = mkdir dk in
      case load dk of
        Inr cfg \<Rightarrow> (Inr cfg, dk)
      | Inl e \<Rightarrow> (case save dk of (Some e, dk) \<Rightarrow> (Inl e, dk) | (None, dk) \<Rightarrow> (load (seed dk), seed dk)))"
    and mkdir_files: "dk_files (mkdir dk) = dk_files dk"
    and mkdir_again: "dk_dirs dk' = dk_dirs (mkdir dk) \<Longrightarrow> mkdir dk' = dk'"
    and load_local: "dk_files dk' cfgfile = dk_files dk cfgfile \<Longrightarrow> load dk' = load dk"
    and save_local: "save dk = (r, dk') \<Longrightarrow> p \<noteq> cfgfile \<Longrightarrow> dk_files dk' p = dk_files dk p"
    and save_dirs: "save dk = (r, dk') \<Longrightarrow> dk_dirs dk' = dk_dirs dk"
    and seed_dirs: "dk_dirs (seed dk) = dk_dirs dk"
    and seed_local: "p \<notin> seeds \<Longrightarrow> dk_files (seed dk) p = dk_files dk p"
    and file_not_seed: "cfgfile \<notin> seeds"
begin

lemma load_mkdir [simp]: "load (mkdir dk) = load dk"
  by (rule load_local) (simp add: mkdir_files)

lemma load_seed [simp]: "load (seed dk) = load dk"
  by (rule load_local) (simp add: seed_local file_not_seed)

lemma start_loads: "load dk = Inr cfg \<Longrightarrow> start dk = (Inr cfg, mkdir dk)"
  by (simp add: start_eq)

lemma start_default:
  assumes "load dk = Inl e" "save (mkdir dk) = (None, dk')"
  shows "start dk = (load dk', seed dk')"
  using assms by (simp add: start_eq)

lemma start_frame:
  assumes "p \<noteq> cfgfile" "p \<notin> seeds"
  shows "dk_files (snd (start dk)) p = dk_files dk p"
proof (cases "load dk")
  case (Inl e)
  obtain r dk' where s: "save (mkdir dk) = (r, dk')" by force
  from save_local [OF s assms(1)] have "dk_files dk' p = dk_files dk p" by (simp add: mkdir_files)
  then show ?thesis using Inl s assms(2) by (cases r) (simp_all add: start_eq seed_local)
qed (simp add: start_loads mkdir_files)

text \<open>A second start finds what the first one wrote: it loads the same configuration and changes nothing.\<close>

lemma start_again:
  assumes "start dk = (Inr cfg, dk')"
  shows "start dk' = (Inr cfg, dk')"
proof -
  have "load dk' = Inr cfg \<and> dk_dirs dk' = dk_dirs (mkdir dk)"
  proof (cases "load dk")
    case (Inl e)
    obtain r dk1 where s: "save (mkdir dk) = (r, dk1)" by force
    then have "r = None" using Inl assms by (cases r) (simp_all add: start_eq)
    then have "load dk1 = Inr cfg" "dk' = seed dk1" using start_default [OF Inl] s assms by simp_all
    then show ?thesis using save_dirs [OF s] by (simp add: seed_dirs)
  next
    case (Inr c)
    then show ?thesis using assms by (auto simp: start_loads)
  qed
  then show ?thesis by (simp add: start_loads mkdir_again [of dk' dk])
qed

end

definition edge_dir :: string where "edge_dir = ''config/edge''"
definition edge_file :: string where "edge_file = ''config/edge/edge.json''"
definition edge_channels :: string where "edge_channels = ''config/edge/channels.json''"
definition edge_schedules :: string where "edge_schedules = ''config/edge/schedules.json''"
definition cloud_dir :: string where "cloud_dir = ''config/vrtc3-cloud''"
definition cloud_file :: string where "cloud_file = ''config/vrtc3-cloud/vrtc3-cloud.yaml''"

definition mkdir_for :: "os_env \<Rightarrow> string \<Rightarrow> disk \<Rightarrow> disk" where
  "mkdir_for env p dk = snd (os_MkdirAll env p dk)"

lemma edge_paths:
  "path_Dir edge_file = edge_dir" "path_Join edge_dir ''channels.json'' = edge_channels"
  "path_Join edge_dir ''schedules.json'' = edge_schedules" "path_Join edge_dir ''recordings'' = ''config/edge/recordings''"
  "path_Dir edge_channels = edge_dir" "path_Dir edge_schedules = edge_dir"
  "edge_channels \<noteq> edge_file" "edge_schedules \<noteq> edge_file" "edge_schedules \<noteq> edge_channels"
  by (simp_all add: path_Dir_def path_Join_def edge_dir_def edge_file_def edge_channels_def edge_schedules_def Let_def)

lemma edge_config_path: "GetJSONConfigFilePath env edge_AppName dk = (edge_file, mkdir_for env edge_dir dk)"
  by (simp add: GetJSONConfigFilePath_def GetConfigFolder_def GetFolder_def edge_AppName_def path_Join_def mkdir_for_def
      edge_dir_def edge_file_def)

lemma cloud_config_path: "GetYAMLConfigFilePath env cloud_AppName dk = (cloud_file, mkdir_for env cloud_dir dk)"
  by (simp add: GetYAMLConfigFilePath_def GetConfigFolder_def GetFolder_def cloud_AppName_def path_Join_def mkdir_for_def
      cloud_dir_def cloud_file_def)

lemma mkdir_for_files [simp]: "dk_files (mkdir_for env p dk) = dk_files dk"
  by (simp add: mkdir_for_def os_MkdirAll_def split: option.split)

lemma mkdir_for_again: "dk_dirs dk' = dk_dirs (mkdir_for env p dk) \<Longrightarrow> mkdir_for env p dk' = dk'"
  by (cases "oe_MkdirAll env p") (auto simp: mkdir_for_def os_MkdirAll_def)

lemma os_WriteFile_frame:
  assumes "os_WriteFile env f s dk = (r, dk')"
  shows "p \<noteq> f \<Longrightarrow> dk_files dk' p = dk_files dk p" and "dk_dirs dk' = dk_dirs dk"
  using assms by (auto simp: os_WriteFile_def split: option.splits prod.splits if_splits)

lemma loadConfig_local: "dk_files dk' f = dk_files dk f \<Longrightarrow> loadConfig vp env f fmt dk' = loadConfig vp env f fmt dk"
  by (simp add: loadConfig_def os_ReadFile_def cong: option.case_cong)

lemma seed_file_frame: "p \<noteq> f \<Longrightarrow> dk_files (seed_file env f dk) p = dk_files dk p" "dk_dirs (seed_file env f dk) = dk_dirs dk"
  using os_WriteFile_frame [of env f "''[]''" dk] by (auto simp: seed_file_def split: option.split prod.split) (metis prod.collapse)+

lemma bootstrapSeedFiles_edge:
  "bootstrapSeedFiles env edge_file dk = seed_file env edge_schedules (seed_file env edge_channels dk)"
  by (simp add: bootstrapSeedFiles_def edge_paths)

lemmas edge_config_defs = edge_LoadConfig_def LoadConfigJSON_def edge_SaveConfig_def SaveConfigJSON_def saveConfig_def
lemmas cloud_config_defs = cloud_LoadConfig_def LoadConfigYAML_def cloud_SaveConfig_def SaveConfigYAML_def saveConfig_def

interpretation edge_cmd: config_command "edge_PersistentPreRunE vp env" "mkdir_for env edge_dir"
  "edge_LoadConfig vp env edge_file" "edge_SaveConfig vp env edge_file" "bootstrapSeedFiles env edge_file" edge_file
  "{edge_channels, edge_schedules}" for vp env
proof
  show "edge_PersistentPreRunE vp env dk = (let dk = mkdir_for env edge_dir dk in
      case edge_LoadConfig vp env edge_file dk of
        Inr cfg \<Rightarrow> (Inr cfg, dk)
      | Inl e \<Rightarrow> (case edge_SaveConfig vp env edge_file dk of
          (Some e, dk) \<Rightarrow> (Inl e, dk)
        | (None, dk) \<Rightarrow> (edge_LoadConfig vp env edge_file (bootstrapSeedFiles env edge_file dk), bootstrapSeedFiles env edge_file dk)))" for dk
    by (simp only: edge_PersistentPreRunE_def edge_config_path Let_def prod.case)
qed (auto simp: edge_config_defs bootstrapSeedFiles_edge seed_file_frame edge_paths edge_paths(7,8) [symmetric]
      intro: mkdir_for_again loadConfig_local dest: os_WriteFile_frame)

interpretation cloud_cmd: config_command "cloud_PersistentPreRunE vp env" "mkdir_for env cloud_dir"
  "cloud_LoadConfig vp env cloud_file" "cloud_SaveConfig vp env cloud_file" "\<lambda>dk. dk" cloud_file "{}" for vp env
proof
  show "cloud_PersistentPreRunE vp env dk = (let dk = mkdir_for env cloud_dir dk in
      case cloud_LoadConfig vp env cloud_file dk of
        Inr cfg \<Rightarrow> (Inr cfg, dk)
      | Inl e \<Rightarrow> (case cloud_SaveConfig vp env cloud_file dk of
          (Some e, dk) \<Rightarrow> (Inl e, dk) | (None, dk) \<Rightarrow> (cloud_LoadConfig vp env cloud_file dk, dk)))" for dk
    by (simp add: cloud_PersistentPreRunE_def cloud_config_path Let_def)
qed (auto simp: cloud_config_defs intro: mkdir_for_again loadConfig_local dest: os_WriteFile_frame)

subsection \<open>What a start does to the disk\<close>

definition no_os_failures :: "os_env \<Rightarrow> bool" where
  "no_os_failures env \<longleftrightarrow> (\<forall>p. oe_MkdirAll env p = None \<and> oe_ReadFile env p = None \<and> oe_Stat env p = None \<and> oe_WriteFile env p = None)"

definition edge_defaults :: LiveRecordingConfig where
  "edge_defaults = default_config edge_dir"

text \<open>Viper decodes what it encoded, unless a variable of the environment overrides a setting.\<close>

definition viper_round_trip :: "'v edge_viper \<Rightarrow> bool" where
  "viper_round_trip vp \<longleftrightarrow> (\<exists>v. vp_Parse vp ''json'' (vp_Marshal vp ''json'' [(''config'', edge_defaults)]) = Inr v
     \<and> vp_Unmarshal vp v = Inr \<lparr>ec_LiveRecordingConfig = edge_defaults\<rparr>)"

lemma edge_dir_in [simp]: "edge_dir \<in> path_chain edge_dir"
  by (simp add: path_chain_def)

lemma seed_file_calm:
  assumes "no_os_failures env" "path_Dir p \<in> dk_dirs dk"
  shows "seed_file env p dk = (if dk_files dk p = None then dk\<lparr>dk_files := (dk_files dk)(p \<mapsto> ''[]'')\<rparr> else dk)"
  using assms by (simp add: seed_file_def os_Stat_def os_WriteFile_def no_os_failures_def)

text \<open>The contents that a start on a disk without a usable configuration leaves.\<close>

definition seeded :: "string \<Rightarrow> (string \<rightharpoonup> string) \<Rightarrow> string \<rightharpoonup> string" where
  "seeded cfg fs = (\<lambda>p. if p = edge_file then Some cfg
     else if p \<in> {edge_channels, edge_schedules} \<and> fs p = None then Some ''[]'' else fs p)"

lemma seeds_calm:
  assumes "no_os_failures env" "edge_dir \<in> dk_dirs dk" "dk_files dk edge_file = Some s"
  shows "bootstrapSeedFiles env edge_file dk = dk\<lparr>dk_files := seeded s (dk_files dk)\<rparr>"
  using assms by (cases dk) (auto simp: bootstrapSeedFiles_edge seed_file_calm edge_paths seeded_def fun_eq_iff)

lemma edge_SaveConfig_calm:
  assumes "no_os_failures env"
  shows "edge_SaveConfig vp env edge_file (mkdir_for env edge_dir dk) =
    (None, dk\<lparr>dk_dirs := dk_dirs dk \<union> path_chain edge_dir,
       dk_files := (dk_files dk)(edge_file \<mapsto> vp_Marshal vp ''json'' [(''config'', edge_defaults)])\<rparr>)"
  using assms by (simp add: edge_config_defs os_WriteFile_def no_os_failures_def edge_paths edge_defaults_def
      mkdir_for_def os_MkdirAll_def)

lemma edge_start_default:
  assumes "no_os_failures env" "viper_round_trip vp" "edge_LoadConfig vp env edge_file dk = Inl e"
  shows "edge_PersistentPreRunE vp env dk = (Inr \<lparr>ec_LiveRecordingConfig = edge_defaults\<rparr>,
    dk\<lparr>dk_dirs := dk_dirs dk \<union> path_chain edge_dir,
       dk_files := seeded (vp_Marshal vp ''json'' [(''config'', edge_defaults)]) (dk_files dk)\<rparr>)"
proof -
  let ?s = "vp_Marshal vp ''json'' [(''config'', edge_defaults)]"
  let ?dk = "dk\<lparr>dk_dirs := dk_dirs dk \<union> path_chain edge_dir, dk_files := (dk_files dk)(edge_file \<mapsto> ?s)\<rparr>"
  have "edge_LoadConfig vp env edge_file ?dk = Inr \<lparr>ec_LiveRecordingConfig = edge_defaults\<rparr>"
    using assms(1,2) by (auto simp: edge_config_defs loadConfig_def os_ReadFile_def no_os_failures_def viper_round_trip_def)
  moreover have "bootstrapSeedFiles env edge_file ?dk = ?dk\<lparr>dk_files := seeded ?s (dk_files ?dk)\<rparr>"
    by (rule seeds_calm [OF assms(1)]) simp_all
  moreover have "seeded ?s (dk_files ?dk) = seeded ?s (dk_files dk)" by (simp add: seeded_def fun_eq_iff edge_paths)
  ultimately show ?thesis
    using edge_cmd.start_default [OF assms(3) edge_SaveConfig_calm [OF assms(1)]] by simp
qed

text \<open>
  Starting the edge command is idempotent and touches three files only. Whenever a start finds or
  makes a configuration, the next start loads the same one and leaves the disk as it is; and whatever
  fails, no file changes but the configuration file and the two seed files.
\<close>

theorem edge_start_files:
  "(\<forall>cfg dk'. edge_PersistentPreRunE vp env dk = (Inr cfg, dk') \<longrightarrow> edge_PersistentPreRunE vp env dk' = (Inr cfg, dk'))
    \<and> (\<forall>p. p \<notin> {edge_file, edge_channels, edge_schedules} \<longrightarrow>
         dk_files (snd (edge_PersistentPreRunE vp env dk)) p = dk_files dk p)"
  using edge_cmd.start_again [of vp env dk] edge_cmd.start_frame [of _ vp env dk] by blast

text \<open>
  A configuration file that cannot be decoded is lost. Any error of loading counts as a missing
  file: a file that exists but has, say, one comma too many is overwritten with the defaults and the
  node starts with them, while channel and schedule files that exist are kept.
\<close>

theorem malformed_config_lost:
  assumes "no_os_failures env" "viper_round_trip vp"
    and "dk_files dk edge_file = Some s" "vp_Parse vp ''json'' s = Inl e"
  shows "\<exists>dk'. edge_PersistentPreRunE vp env dk = (Inr \<lparr>ec_LiveRecordingConfig = edge_defaults\<rparr>, dk')
    \<and> dk_files dk' edge_file = Some (vp_Marshal vp ''json'' [(''config'', edge_defaults)])
    \<and> (\<forall>p \<in> {edge_channels, edge_schedules}. dk_files dk p \<noteq> None \<longrightarrow> dk_files dk' p = dk_files dk p)"
proof -
  have "edge_LoadConfig vp env edge_file dk = Inl e"
    using assms by (simp add: edge_config_defs loadConfig_def os_ReadFile_def no_os_failures_def)
  from edge_start_default [OF assms(1,2) this] show ?thesis by (simp add: seeded_def edge_paths)
qed

subsection \<open>The first start\<close>

lemma edge_defaults_simps [simp]:
  "lc_ChannelFilePath edge_defaults = edge_channels" "lc_ScheduleFilePath edge_defaults = edge_schedules"
  "lc_RecordingIndexPath edge_defaults = ''config/edge/recordings''" "lc_APIListen edge_defaults = '':8080''"
  "lc_LogLevel edge_defaults = ''debug''"
  by (simp_all add: edge_defaults_def default_config_def edge_paths)

lemma edge_paths_nonempty [simp]: "edge_channels \<noteq> []" "edge_schedules \<noteq> []"
  by (simp_all add: edge_channels_def edge_schedules_def)

text \<open>Empty seed files are an empty channel list and an empty schedule list.\<close>

definition json_reads_empty :: "json_env \<Rightarrow> bool" where
  "json_reads_empty js \<longleftrightarrow> je_channels js ''[]'' = Inr [] \<and> je_schedules js ''[]'' = Inr []"

lemma seeded_providers:
  assumes "no_os_failures env" "json_reads_empty js"
    and "dk_files dk edge_channels = Some ''[]''" "dk_files dk edge_schedules = Some ''[]''"
  shows "newChannelProvider (disk_app_env js env dk ae) edge_defaults =
      Inr (FileProvider \<lparr>cf_path = edge_channels, cf_content = ChannelList []\<rparr>)"
    and "\<exists>sp. newScheduleProvider (disk_app_env js env dk ae) edge_defaults = Inr sp \<and> file_ListSchedules sp = Inr []"
  using assms
  by (simp_all add: newChannelProvider_def newScheduleProvider_def disk_app_env_def channel_content_def schedule_content_def
      json_reads_empty_def os_ReadFile_def no_os_failures_def file_ListSchedules_def)

lemma Run_with_providers:
  assumes "newChannelProvider ae c = Inr chans" "newScheduleProvider ae c = Inr sp"
    and "lc_APIListen c \<noteq> []" "lc_RecordingIndexPath c \<noteq> []"
    and "ae_sm_Start ae = None" "ae_hub_Start ae = None" "ae_Listen ae = None"
  shows "\<exists>evs app. Run ae c = (None, evs, Some app) \<and> ea_addr app = lc_APIListen c"
  using assms by (cases "ae_metrics_New ae") (simp_all add: Run_def start_services_def serve_def Let_def)

lemma first_save:
  assumes "ce_fail env = (\<lambda>_. None)" "ce_WriteFile env = None"
  shows "SaveChannel env ch (FileProvider \<lparr>cf_path = p, cf_content = ChannelList []\<rparr>) =
    (None, FileProvider \<lparr>cf_path = p, cf_content = ChannelList [ch]\<rparr>)"
  using assms by (simp add: file_SaveChannel_def load_def save_def)

text \<open>
  C37: the edge command works out of the box. On a disk with none of its files, with an operating system
  that does not fail, the command writes the default configuration and empty seed files, starts, listens
  on port 8080 and serves no camera; its channel store then lists no channel and accepts the first one,
  which a missing file would not, and its schedule source lists no schedule.
\<close>

theorem first_start_works:
  assumes "no_os_failures env" "viper_round_trip vp" "json_reads_empty js" "ParseLevel ''debug'' = Inr level"
    and "\<forall>p \<in> {edge_file, edge_channels, edge_schedules}. dk_files dk p = None"
    and "ae_sm_Start ae = None" "ae_hub_Start ae = None" "ae_Listen ae = None"
    and "ce_fail (ae_chan ae) = (\<lambda>_. None)" "ce_WriteFile (ae_chan ae) = None"
  shows "\<exists>evs app dk' lg' store sp.
      edge_command vp ParseLevel js env ae dk lg = ((None, evs, Some app), dk', lg')
    \<and> ea_addr app = '':8080'' \<and> map_of (sv_cameras (ea_svc app)) = Map.empty
    \<and> newChannelProvider (disk_app_env js env dk' ae) edge_defaults = Inr store
    \<and> ListChannels (ae_chan ae) store = Inr []
    \<and> fst (SaveChannel (ae_chan ae) ch store) = None
    \<and> ListChannels (ae_chan ae) (snd (SaveChannel (ae_chan ae) ch store)) = Inr [ch]
    \<and> newScheduleProvider (disk_app_env js env dk' ae) edge_defaults = Inr sp \<and> file_ListSchedules sp = Inr []"
proof -
  have "edge_LoadConfig vp env edge_file dk = Inl (no_such_file edge_file)"
    using assms(1,5) by (simp add: edge_config_defs loadConfig_def os_ReadFile_def no_os_failures_def)
  note pre = edge_start_default [OF assms(1,2) this]
  define dk1 where "dk1 = snd (edge_PersistentPreRunE vp env dk)"
  define dk2 where "dk2 = snd (GetLogFilePath env edge_AppName dk1)"
  have "dk_files dk2 = dk_files dk1"
    by (simp add: dk2_def GetLogFilePath_def GetLogFolder_def GetFolder_def os_MkdirAll_def split: option.split)
  then have files: "dk_files dk2 edge_channels = Some ''[]''" "dk_files dk2 edge_schedules = Some ''[]''"
    using assms(5) by (simp_all add: dk1_def pre seeded_def edge_paths)
  let ?ae = "disk_app_env js env dk2 ae" and ?store = "FileProvider \<lparr>cf_path = edge_channels, cf_content = ChannelList []\<rparr>"
  note prov = seeded_providers [OF assms(1,3) files, of ae]
  obtain sp where sp: "newScheduleProvider ?ae edge_defaults = Inr sp" "file_ListSchedules sp = Inr []" using prov(2) by blast
  obtain evs app where run: "Run ?ae edge_defaults = (None, evs, Some app)" "ea_addr app = '':8080''"
    using Run_with_providers [OF prov(1) sp(1)] assms(6-8) by (auto simp: disk_app_env_def)
  have list: "ListChannels (ae_chan ?ae) ?store = Inr []" "ListChannels (ae_chan ae) ?store = Inr []"
    using assms(9) by (simp_all add: disk_app_env_def file_ListChannels_def load_def)
  have "map_of (sv_cameras (ea_svc app)) = Map.empty" using Run_components(3) [OF run(1) prov(1) list(1)] by simp
  moreover have "\<exists>lg'. edge_command vp ParseLevel js env ae dk lg = ((None, evs, Some app), dk2, lg')"
    using run(1) pre assms(4)
    by (simp add: edge_command_def edge_RunE_def InitLogger_def dk2_def dk1_def Let_def split_beta)
  then obtain lg' where "edge_command vp ParseLevel js env ae dk lg = ((None, evs, Some app), dk2, lg')" by blast
  moreover have "fst (SaveChannel (ae_chan ae) ch ?store) = None"
    "ListChannels (ae_chan ae) (snd (SaveChannel (ae_chan ae) ch ?store)) = Inr [ch]"
    by (unfold first_save [OF assms(9,10)]) (use assms(9) in \<open>simp_all add: file_ListChannels_def load_def\<close>)
  ultimately show ?thesis using run(2) prov(1) sp list(2) by blast
qed

text \<open>A viper that knows one text, an operating system that never fails, and an empty disk.\<close>

definition viper0 :: "unit edge_viper" where
  "viper0 = \<lparr>vp_Parse = (\<lambda>_ s. if s = ''D'' then Inr () else Inl (ErrorString ''invalid character'')),
     vp_Unmarshal = (\<lambda>_. Inr \<lparr>ec_LiveRecordingConfig = edge_defaults\<rparr>), vp_Marshal = (\<lambda>_ _. ''D'')\<rparr>"

definition os_env0 :: os_env where
  "os_env0 = \<lparr>oe_MkdirAll = (\<lambda>_. None), oe_ReadFile = (\<lambda>_. None), oe_Stat = (\<lambda>_. None), oe_WriteFile = (\<lambda>_. None)\<rparr>"

definition json_env0 :: json_env where
  "json_env0 = \<lparr>je_channels = (\<lambda>s. if s = ''[]'' then Inr [] else Inl (ErrorString ''unexpected end'')),
     je_schedules = (\<lambda>s. if s = ''[]'' then Inr [] else Inl (ErrorString ''unexpected end''))\<rparr>"

definition disk0 :: disk where
  "disk0 = \<lparr>dk_dirs = {}, dk_files = Map.empty\<rparr>"

lemma boot0: "no_os_failures os_env0" "viper_round_trip viper0" "json_reads_empty json_env0"
  by (simp_all add: no_os_failures_def os_env0_def viper_round_trip_def viper0_def json_reads_empty_def json_env0_def)

lemma edge_start_files_witness:
  "\<exists>cfg dk'. edge_PersistentPreRunE viper0 os_env0 disk0 = (Inr cfg, dk') \<and> edge_PersistentPreRunE viper0 os_env0 dk' = (Inr cfg, dk')
     \<and> dk_files dk' ''etc/passwd'' = None"
proof -
  have "edge_LoadConfig viper0 os_env0 edge_file disk0 = Inl (no_such_file edge_file)"
    by (simp add: edge_config_defs loadConfig_def os_ReadFile_def os_env0_def disk0_def)
  note start0 = edge_start_default [OF boot0(1,2) this]
  have other: "''etc/passwd'' \<notin> {edge_file, edge_channels, edge_schedules}"
    by (simp add: edge_file_def edge_channels_def edge_schedules_def)
  obtain cfg dk' where start: "edge_PersistentPreRunE viper0 os_env0 disk0 = (Inr cfg, dk')" using start0 by blast
  moreover have "edge_PersistentPreRunE viper0 os_env0 dk' = (Inr cfg, dk')"
    using edge_start_files [of viper0 os_env0 disk0] start by blast
  moreover have "dk_files dk' ''etc/passwd'' = dk_files disk0 ''etc/passwd''"
    using edge_start_files [of viper0 os_env0 disk0] start other by (metis snd_conv)
  ultimately show ?thesis by (auto simp: disk0_def)
qed

lemma malformed_config_lost_witness:
  "\<exists>dk'. edge_PersistentPreRunE viper0 os_env0 (disk0\<lparr>dk_files := [edge_file \<mapsto> ''{,}'', edge_channels \<mapsto> ''[1]'']\<rparr>) =
       (Inr \<lparr>ec_LiveRecordingConfig = edge_defaults\<rparr>, dk')
     \<and> dk_files dk' edge_file = Some ''D'' \<and> dk_files dk' edge_channels = Some ''[1]''"
proof -
  let ?dk = "disk0\<lparr>dk_files := [edge_file \<mapsto> ''{,}'', edge_channels \<mapsto> ''[1]'']\<rparr>"
  have dk: "dk_files ?dk edge_file = Some ''{,}''" "dk_files ?dk edge_channels = Some ''[1]''"
    using edge_paths(7) by auto
  have vp: "vp_Parse viper0 ''json'' ''{,}'' = Inl (ErrorString ''invalid character'')" "vp_Marshal viper0 f ks = ''D''" for f ks
    by (simp_all add: viper0_def)
  show ?thesis using malformed_config_lost [OF boot0(1,2) dk(1) vp(1)] dk(2) by (elim exE conjE) (metis insertCI option.simps(3) vp(2))
qed

lemma first_start_works_witness:
  "\<exists>evs app dk' lg'. edge_command viper0 (\<lambda>_. Inr 0) json_env0 os_env0 app_env0 disk0 \<lparr>lg_sinks = [], lg_level = 1\<rparr> =
       ((None, evs, Some app), dk', lg' :: nat logging) \<and> ea_addr app = '':8080''"
proof -
  have "\<forall>p \<in> {edge_file, edge_channels, edge_schedules}. dk_files disk0 p = None" by (simp add: disk0_def)
  moreover have "ae_sm_Start app_env0 = None" "ae_hub_Start app_env0 = None" "ae_Listen app_env0 = None"
    "ce_fail (ae_chan app_env0) = (\<lambda>_. None)" "ce_WriteFile (ae_chan app_env0) = None"
    by (simp_all add: app_env0_def chan_env0_def)
  ultimately show ?thesis
    using first_start_works [OF boot0, of "\<lambda>_. Inr 0" 0 disk0 app_env0 "\<lparr>lg_sinks = [], lg_level = 1\<rparr>" camera0] by metis
qed
end
