(* ===== verification/Service_Loops.thy ===== *)
theory Service_Loops
  imports Bootstrap
begin

text \<open>
  The goroutines around the components. The recorder (\<^verbatim>\<open>loop\<close> in \<^verbatim>\<open>recorder.go\<close>), the metrics collector
  (\<^verbatim>\<open>snapshotLoop\<close> in \<^verbatim>\<open>collector.go\<close>) and the health log (\<^verbatim>\<open>startHealthLogger\<close> in \<^verbatim>\<open>internal/edge/health.go\<close>)
  each select between a ticker and the end of their context; the locale \<open>select_loop\<close> is their common
  contract. The two nodes wait for a signal (\<^verbatim>\<open>lifecycle.go\<close>) and then shut their servers down: the
  cloud node (\<^verbatim>\<open>internal/cloud/app.go\<close>) and the second half of the edge application's \<^verbatim>\<open>Run\<close>
  (\<^verbatim>\<open>internal/edge/app.go\<close>) are step relations whose runs are the interleavings of the main function with
  the server goroutines; \<open>terminating_node\<close> is their contract.
\<close>

subsection \<open>Loops over a ticker\<close>

text \<open>What a select chose: the ticker, with the surroundings at that time, or the end of the context.\<close>

datatype 'e loop_event = TickerC 'e | CtxDone

fun ticks :: "'e loop_event list \<Rightarrow> 'e list" where
  "ticks (TickerC e # es) = e # ticks es"
| "ticks _ = []"

text \<open>Each loop gives the state after the choices so far and whether the goroutine has ended.\<close>

fun snapshotLoop :: "'ix http_env loop_event list \<Rightarrow> Collector \<Rightarrow> Collector \<times> bool" where
  "snapshotLoop [] c = (c, False)"
| "snapshotLoop (CtxDone # es) c = (c, True)"
| "snapshotLoop (TickerC env # es) c = snapshotLoop es (takeSnapshot env c)"

definition NewCollector :: "instant \<Rightarrow> metrics_store \<Rightarrow> int option \<Rightarrow> int option \<Rightarrow> Collector" where
  "NewCollector now store recManager viewSvc =
    \<lparr>co_store = store, co_recManager = recManager, co_viewSvc = viewSvc, co_startTime = now\<rparr>"

text \<open>Stopping cancels the context and waits: \<open>es\<close> is what the loop still chooses; without an end it blocks.\<close>

definition collector_Stop :: "'ix http_env loop_event list \<Rightarrow> Collector \<Rightarrow> Collector option" where
  "collector_Stop es c = (case snapshotLoop es c of (c, True) \<Rightarrow> Some c | (c, False) \<Rightarrow> None)"

fun rec_select :: "'ix rec_env loop_event list \<Rightarrow> 'ix RecordingManager \<Rightarrow> 'ix RecordingManager \<times> bool" where
  "rec_select [] rm = (rm, False)"
| "rec_select (CtxDone # es) rm = (stopAll rm, True)"
| "rec_select (TickerC env # es) rm = rec_select es (tick env rm)"

definition rec_loop :: "'ix rec_env \<Rightarrow> 'ix rec_env loop_event list \<Rightarrow> 'ix RecordingManager \<Rightarrow> 'ix RecordingManager \<times> bool" where
  "rec_loop env es rm = rec_select es (tick env rm)"

text \<open>\<open>stopped\<close> is the state of the \<^verbatim>\<open>sync.Once\<close>.\<close>

definition rec_Stop :: "bool \<Rightarrow> 'ix rec_env loop_event list \<Rightarrow> 'ix RecordingManager \<Rightarrow> ('ix RecordingManager \<times> bool) option" where
  "rec_Stop stopped es rm =
    (if stopped then Some (rm, True)
     else case rec_select es rm of (rm, True) \<Rightarrow> Some (rm, True) | (rm, False) \<Rightarrow> None)"

subsection \<open>The health log of the edge application\<close>

record healthMemory =
  hy_AllocMB :: rat
  hy_SysMB :: rat
  hy_HeapInuse :: rat
  hy_GCRuns :: "32 word"

record healthSnapshot =
  hz_Status :: string
  hz_UptimeSec :: int
  hz_Goroutines :: int
  hz_Memory :: healthMemory
  hz_ActiveProducers :: int
  hz_ActiveSegments :: int
  hz_Timestamp :: instant

definition edge_collectHealth :: "'ix http_env \<Rightarrow> 'ix RecordingManager \<Rightarrow> instant \<Rightarrow> healthSnapshot" where
  "edge_collectHealth env rm startTime =
    \<lparr>hz_Status = ''ok'',
     hz_UptimeSec = int64_of_float (of_int (time_Sub (he_now env) startTime) / of_int Second),
     hz_Goroutines = he_Goroutines env,
     hz_Memory = \<lparr>hy_AllocMB = megabytes (he_Alloc env), hy_SysMB = megabytes (he_Sys env),
                  hy_HeapInuse = megabytes (he_HeapInuse env), hy_GCRuns = he_NumGC env\<rparr>,
     hz_ActiveProducers = he_GetActiveRelayCount env, hz_ActiveSegments = int (ActiveCount rm),
     hz_Timestamp = he_now env\<rparr>"

definition health_interval :: "duration \<Rightarrow> duration" where
  "health_interval interval = (if interval \<le> 0 then 60 * Second else interval)"

text \<open>The log; the recorder it looks at changes, so every tick carries its current state.\<close>

fun startHealthLogger ::
  "instant \<Rightarrow> ('ix http_env \<times> 'ix RecordingManager) loop_event list \<Rightarrow> healthSnapshot list \<Rightarrow> healthSnapshot list \<times> bool" where
  "startHealthLogger startTime [] logged = (logged, False)"
| "startHealthLogger startTime (CtxDone # es) logged = (logged, True)"
| "startHealthLogger startTime (TickerC (env, rm) # es) logged =
    startHealthLogger startTime es (logged @ [edge_collectHealth env rm startTime])"

subsection \<open>The contract of a loop over a ticker\<close>

locale select_loop =
  fixes loop :: "'e loop_event list \<Rightarrow> 's \<Rightarrow> 's \<times> bool"
    and body :: "'e \<Rightarrow> 's \<Rightarrow> 's"
    and finish :: "'s \<Rightarrow> 's"
  assumes loop_Nil: "loop [] s = (s, False)"
    and loop_Done: "loop (CtxDone # es) s = (finish s, True)"
    and loop_Tick: "loop (TickerC e # es) s = loop es (body e s)"
begin

lemma loop_result:
  "loop es s = (if CtxDone \<in> set es then (finish (fold body (ticks es) s), True) else (fold body (ticks es) s, False))"
  by (induction es arbitrary: s rule: ticks.induct) (simp_all add: loop_Nil loop_Done loop_Tick)

lemma ended_is_final: "snd (loop es s) \<Longrightarrow> loop (es @ es') s = loop es s"
  by (induction es arbitrary: s rule: ticks.induct) (simp_all add: loop_Nil loop_Done loop_Tick)

lemma loop_keeps:
  assumes "P s" "\<And>e s. e \<in> set (ticks es) \<Longrightarrow> P s \<Longrightarrow> P (body e s)" "\<And>s. P s \<Longrightarrow> P (finish s)"
  shows "P (fst (loop es s))"
proof -
  have "P (fold body (ticks es) s)"
    using fold_invariant [of "ticks es" "\<lambda>e. e \<in> set (ticks es)" P s body] assms(1,2) by blast
  then show ?thesis using assms(3) by (simp add: loop_result)
qed

end

interpretation snapshots: select_loop snapshotLoop takeSnapshot "\<lambda>c. c"
  by unfold_locales simp_all

interpretation recording: select_loop rec_select tick stopAll
  by unfold_locales simp_all

interpretation health_log: select_loop "startHealthLogger startTime" "\<lambda>(env, rm) logged. logged @ [edge_collectHealth env rm startTime]"
    "\<lambda>l. l" for startTime
  by unfold_locales auto

text \<open>
  C34: stopping the recorder is clean and always ends. However the select statement chooses between
  ticks and the cancelled context, as long as it does see the context in the end, \<^verbatim>\<open>Stop\<close> returns; then
  nothing is being recorded, the handles that were active after the last tick are closed, each
  once, the invariant holds, no later event changes the manager, and stopping again returns at once.
\<close>

theorem rec_Stop_clean:
  assumes "CtxDone \<in> set es" "manager_inv rm"
    and "\<And>env. env \<in> set (ticks es) \<Longrightarrow> \<exists>ie. ev_ops env = sqlite_ops ie"
  shows "\<exists>rm'. rec_Stop False es rm = Some (rm', True) \<and> rm_active rm' = [] \<and> manager_inv rm'
    \<and> rm_closedHandles rm' = rm_closedHandles (fold tick (ticks es) rm)
         @ map (\<lambda>(i, ar). ar_handle ar) (rm_active (fold tick (ticks es) rm))
    \<and> (\<forall>es'. rec_select (es @ es') rm = (rm', True)) \<and> (\<forall>es'. rec_Stop True es' rm' = Some (rm', True))"
proof -
  let ?rm = "stopAll (fold tick (ticks es) rm)"
  have res: "rec_select es rm = (?rm, True)" using assms(1) by (simp add: recording.loop_result)
  have "manager_inv (fst (rec_select es rm))"
  proof (rule recording.loop_keeps [where P = manager_inv, OF assms(2)])
    show "manager_inv (tick env rm)" if "env \<in> set (ticks es)" "manager_inv rm" for env rm
      using assms(3) [OF that(1)] that(2) tick_inv by blast
  qed (simp add: manager_inv_def stopAll_def closeHandle_frames)
  then have inv: "manager_inv ?rm" by (simp add: res)
  have "rec_select (es @ es') rm = (?rm, True)" for es' using recording.ended_is_final [of es rm es'] res by simp
  then show ?thesis using res inv by (intro exI [of _ ?rm]) (simp add: rec_Stop_def stopAll_closes)
qed

lemma manager_inv_manager0: "manager_inv manager0"
  using index_inv_index1 by (simp add: manager_inv_def manager0_def New_def Second_def)

lemma rec_Stop_clean_witness:
  "\<exists>rm'. rec_Stop False [TickerC rec_env0, CtxDone] manager0 = Some (rm', True) \<and> rm_active rm' = [] \<and> manager_inv rm'"
proof -
  have "ev_ops rec_env0 = sqlite_ops env0" by (simp add: rec_env0_def)
  then show ?thesis using rec_Stop_clean [of "[TickerC rec_env0, CtxDone]" manager0] manager_inv_manager0 by auto
qed

subsection \<open>Waiting for the end\<close>

text \<open>\<open>WaitForTerminationRequest\<close> goes on when a signal has arrived or the error channel delivers.\<close>

definition WaitForTerminationRequest :: "bool \<Rightarrow> bool \<Rightarrow> bool" where
  "WaitForTerminationRequest quit errReady \<longleftrightarrow> quit \<or> errReady"

text \<open>A goroutine that serves: running, told to stop, or ended; \<open>Reporting\<close> blocks on the error channel.\<close>

datatype server = Serving | Reporting go_error | Stopping | Ended

subsection \<open>The cloud node\<close>

definition errNotImplemented :: go_error where
  "errNotImplemented = ErrorString ''cloud demuxer: not implemented''"

definition cloud_demuxerFactory :: "string \<Rightarrow> 'd result" where
  "cloud_demuxerFactory sourceID = Inl (WrapError [] errNotImplemented ('': sourceID='' @ sourceID))"

text \<open>Where the main function is; \<open>cn_listener\<close> and \<open>cn_hub\<close> say what is open.\<close>

datatype cloud_pc = CloudWaiting | HubStop | CtxCancel | HttpShutdown | MuxClose | GroupWait | CloudReturned

record cloud_node =
  cn_pc :: cloud_pc
  cn_signal :: bool
  cn_listener :: bool
  cn_hub :: bool
  cn_ctx :: bool
  cn_http :: server
  cn_mux :: server
  cn_handler :: "sqliteIndex HTTPHandler"

record cloud_env =
  ke_Listen :: "go_error option"
  ke_hub_Start :: "go_error option"
  ke_now :: instant

text \<open>The start: an error and whether the listener is left open, or the running node.\<close>

definition cloud_start :: "cloud_env \<Rightarrow> (go_error \<times> bool) + cloud_node" where
  "cloud_start env =
    (case ke_Listen env of
       Some e \<Rightarrow> Inl (e, False)
     | None \<Rightarrow>
         (case ke_hub_Start env of
            Some e \<Rightarrow> Inl (e, True)
          | None \<Rightarrow>
              Inr \<lparr>cn_pc = CloudWaiting, cn_signal = False, cn_listener = True, cn_hub = True, cn_ctx = True,
                   cn_http = Serving, cn_mux = Serving,
                   cn_handler = NewHTTPHandler (NewService None False []) [] (ke_now env) []\<rparr>))"

text \<open>
  The steps of the main function in its order, a signal, and the two server goroutines: each may fail,
  which is only logged, and ends once it was told to. The error channel is never written.
\<close>

inductive cloud_step :: "cloud_node \<Rightarrow> cloud_node \<Rightarrow> bool" where
  signal: "cloud_step n (n\<lparr>cn_signal := True\<rparr>)"
| http_fails: "cn_http n = Serving \<Longrightarrow> cloud_step n (n\<lparr>cn_http := Ended\<rparr>)"
| mux_fails: "cn_mux n = Serving \<Longrightarrow> cloud_step n (n\<lparr>cn_mux := Ended\<rparr>)"
| http_ends: "cn_http n = Stopping \<Longrightarrow> cloud_step n (n\<lparr>cn_http := Ended\<rparr>)"
| mux_ends: "cn_mux n = Stopping \<Longrightarrow> cloud_step n (n\<lparr>cn_mux := Ended\<rparr>)"
| wake: "cn_pc n = CloudWaiting \<Longrightarrow> WaitForTerminationRequest (cn_signal n) False \<Longrightarrow> cloud_step n (n\<lparr>cn_pc := HubStop\<rparr>)"
| hub_stop: "cn_pc n = HubStop \<Longrightarrow> cloud_step n (n\<lparr>cn_hub := False, cn_pc := CtxCancel\<rparr>)"
| ctx_cancel: "cn_pc n = CtxCancel \<Longrightarrow> cloud_step n (n\<lparr>cn_ctx := False, cn_pc := HttpShutdown\<rparr>)"
| http_shutdown: "cn_pc n = HttpShutdown \<Longrightarrow>
    cloud_step n (n\<lparr>cn_listener := False, cn_http := (if cn_http n = Serving then Stopping else cn_http n), cn_pc := MuxClose\<rparr>)"
| mux_close: "cn_pc n = MuxClose \<Longrightarrow>
    cloud_step n (n\<lparr>cn_mux := (if cn_mux n = Serving then Stopping else cn_mux n), cn_pc := GroupWait\<rparr>)"
| group_wait: "cn_pc n = GroupWait \<Longrightarrow> cn_http n = Ended \<Longrightarrow> cn_mux n = Ended \<Longrightarrow> cloud_step n (n\<lparr>cn_pc := CloudReturned\<rparr>)"

inductive_cases cloud_stepE: "cloud_step n n'"

subsection \<open>The servers of the edge application\<close>

text \<open>
  The main function waits, cancels and returns; the HTTP goroutine reports a failure over the
  unbuffered error channel; one goroutine shuts the servers down after the context has ended.
\<close>

datatype edge_pc = EdgeWaiting | EdgeCancel | EdgeReturning | EdgeReturned "go_error option"

datatype shutdown_pc = AwaitCtx | GrpcStop | HttpStop | ShutdownDone

record edge_servers =
  es_pc :: edge_pc
  es_signal :: bool
  es_ctx :: bool
  es_http :: server
  es_grpc :: server
  es_shutdown :: shutdown_pc

definition edge_serving :: edge_servers where
  "edge_serving = \<lparr>es_pc = EdgeWaiting, es_signal = False, es_ctx = True, es_http = Serving, es_grpc = Serving,
     es_shutdown = AwaitCtx\<rparr>"

definition http_reporting :: "edge_servers \<Rightarrow> bool" where
  "http_reporting n \<longleftrightarrow> (case es_http n of Reporting e \<Rightarrow> True | _ \<Rightarrow> False)"

inductive edge_step :: "edge_servers \<Rightarrow> edge_servers \<Rightarrow> bool" where
  edge_signal: "edge_step n (n\<lparr>es_signal := True\<rparr>)"
| grpc_fails: "es_grpc n = Serving \<Longrightarrow> edge_step n (n\<lparr>es_grpc := Ended\<rparr>)"
| http_reports: "es_http n = Serving \<Longrightarrow> edge_step n (n\<lparr>es_http := Reporting (WrapError ''http server: '' e [])\<rparr>)"
| wake_signal: "es_pc n = EdgeWaiting \<Longrightarrow> WaitForTerminationRequest (es_signal n) False \<Longrightarrow> edge_step n (n\<lparr>es_pc := EdgeCancel\<rparr>)"
| wake_error: "es_pc n = EdgeWaiting \<Longrightarrow> WaitForTerminationRequest False (http_reporting n) \<Longrightarrow>
    edge_step n (n\<lparr>es_pc := EdgeCancel, es_http := Ended\<rparr>)"
| cancel: "es_pc n = EdgeCancel \<Longrightarrow> edge_step n (n\<lparr>es_ctx := False, es_pc := EdgeReturning\<rparr>)"
| return: "es_pc n = EdgeReturning \<Longrightarrow> edge_step n (n\<lparr>es_pc := EdgeReturned None\<rparr>)"
| await_ctx: "es_shutdown n = AwaitCtx \<Longrightarrow> \<not> es_ctx n \<Longrightarrow> edge_step n (n\<lparr>es_shutdown := GrpcStop\<rparr>)"
| grpc_stop: "es_shutdown n = GrpcStop \<Longrightarrow> edge_step n (n\<lparr>es_grpc := Ended, es_shutdown := HttpStop\<rparr>)"
| http_stop: "es_shutdown n = HttpStop \<Longrightarrow>
    edge_step n (n\<lparr>es_http := (if es_http n = Serving then Ended else es_http n), es_shutdown := ShutdownDone\<rparr>)"

inductive_cases edge_stepE: "edge_step n n'"

subsection \<open>The contract of a node\<close>

text \<open>
  A node ends only after it was asked to, and once asked it can always end: some step of the program
  lowers the rank until it has returned.
\<close>

locale terminating_node =
  fixes step :: "'s \<Rightarrow> 's \<Rightarrow> bool" and init :: 's
    and requested :: "'s \<Rightarrow> bool" and finished :: "'s \<Rightarrow> bool"
    and node_inv :: "'s \<Rightarrow> bool" and rank :: "'s \<Rightarrow> nat"
  assumes init_inv: "node_inv init"
    and step_inv: "node_inv s \<Longrightarrow> step s s' \<Longrightarrow> node_inv s'"
    and finished_requested: "node_inv s \<Longrightarrow> finished s \<Longrightarrow> requested s"
    and progress: "node_inv s \<Longrightarrow> requested s \<Longrightarrow> \<not> finished s \<Longrightarrow> \<exists>s'. step s s' \<and> requested s' \<and> rank s' < rank s"
begin

lemma reachable_inv: "step\<^sup>*\<^sup>* init s \<Longrightarrow> node_inv s"
  by (induction rule: rtranclp_induct) (auto intro: init_inv step_inv)

lemma ends_on_request: "step\<^sup>*\<^sup>* init s \<Longrightarrow> finished s \<Longrightarrow> requested s"
  using reachable_inv finished_requested by blast

lemma can_end: "node_inv s \<Longrightarrow> requested s \<Longrightarrow> \<exists>s'. step\<^sup>*\<^sup>* s s' \<and> finished s'"
proof (induction "rank s" arbitrary: s rule: less_induct)
  case less
  show ?case
  proof (cases "finished s")
    case False
    then obtain s1 where s1: "step s s1" "requested s1" "rank s1 < rank s" using progress less.prems by blast
    then obtain s2 where "step\<^sup>*\<^sup>* s1 s2" "finished s2" using less.hyps less.prems(1) step_inv by blast
    then show ?thesis using s1(1) by (meson converse_rtranclp_into_rtranclp)
  qed blast
qed

end

subsection \<open>The cloud node meets it\<close>

fun steps_left :: "cloud_pc \<Rightarrow> nat" where
  "steps_left CloudWaiting = 6"
| "steps_left HubStop = 5"
| "steps_left CtxCancel = 4"
| "steps_left HttpShutdown = 3"
| "steps_left MuxClose = 2"
| "steps_left GroupWait = 1"
| "steps_left CloudReturned = 0"

definition cloud_inv :: "cloud_node \<Rightarrow> bool" where
  "cloud_inv n \<longleftrightarrow> (cn_pc n \<noteq> CloudWaiting \<longrightarrow> cn_signal n)
     \<and> (cn_hub n \<longleftrightarrow> steps_left (cn_pc n) \<ge> 5) \<and> (cn_ctx n \<longleftrightarrow> steps_left (cn_pc n) \<ge> 4)
     \<and> (cn_listener n \<longleftrightarrow> steps_left (cn_pc n) \<ge> 3)
     \<and> cn_http n \<in> {Serving, Stopping, Ended} \<and> cn_mux n \<in> {Serving, Stopping, Ended}
     \<and> (steps_left (cn_pc n) \<le> 2 \<longrightarrow> cn_http n \<noteq> Serving) \<and> (steps_left (cn_pc n) \<le> 1 \<longrightarrow> cn_mux n \<noteq> Serving)
     \<and> (cn_pc n = CloudReturned \<longrightarrow> cn_http n = Ended \<and> cn_mux n = Ended)"

definition cloud_rank :: "cloud_node \<Rightarrow> nat" where
  "cloud_rank n = 3 * steps_left (cn_pc n) + (if cn_http n = Ended then 0 else 1) + (if cn_mux n = Ended then 0 else 1)"

lemma cloud_step_inv: "cloud_step n n' \<Longrightarrow> cloud_inv n \<Longrightarrow> cloud_inv n'"
  by (induction rule: cloud_step.induct) (auto simp: cloud_inv_def WaitForTerminationRequest_def)

lemma cloud_progress:
  assumes "cloud_inv n" "cn_signal n" "cn_pc n \<noteq> CloudReturned"
  shows "\<exists>n'. cloud_step n n' \<and> cn_signal n' \<and> cloud_rank n' < cloud_rank n"
proof (cases "cn_pc n")
  case CloudWaiting
  then show ?thesis using assms by (intro exI [of _ "n\<lparr>cn_pc := HubStop\<rparr>"]) (auto intro: wake simp: WaitForTerminationRequest_def cloud_rank_def)
next
  case HubStop
  then show ?thesis using assms hub_stop [OF HubStop] by (intro exI) (auto simp: cloud_rank_def)
next
  case CtxCancel
  then show ?thesis using assms ctx_cancel [OF CtxCancel] by (intro exI) (auto simp: cloud_rank_def)
next
  case HttpShutdown
  then show ?thesis using assms http_shutdown [OF HttpShutdown] by (intro exI) (auto simp: cloud_rank_def)
next
  case MuxClose
  then show ?thesis using assms mux_close [OF MuxClose] by (intro exI) (auto simp: cloud_rank_def)
next
  case GroupWait
  then consider "cn_http n = Stopping" | "cn_mux n = Stopping" "cn_http n = Ended" | "cn_http n = Ended" "cn_mux n = Ended"
    using assms(1) by (auto simp: cloud_inv_def)
  then show ?thesis
  proof cases
    case 1
    then show ?thesis using assms http_ends by (intro exI [of _ "n\<lparr>cn_http := Ended\<rparr>"]) (auto simp: cloud_rank_def)
  next
    case 2
    then show ?thesis using assms mux_ends by (intro exI [of _ "n\<lparr>cn_mux := Ended\<rparr>"]) (auto simp: cloud_rank_def)
  next
    case 3
    then show ?thesis using assms group_wait [OF GroupWait 3] by (intro exI) (auto simp: cloud_rank_def GroupWait)
  qed
qed (use assms in simp)

definition cloud_running :: "instant \<Rightarrow> cloud_node" where
  "cloud_running now = \<lparr>cn_pc = CloudWaiting, cn_signal = False, cn_listener = True, cn_hub = True, cn_ctx = True,
     cn_http = Serving, cn_mux = Serving, cn_handler = NewHTTPHandler (NewService None False []) [] now []\<rparr>"

lemma cloud_start_running: "cloud_start env = Inr n \<Longrightarrow> n = cloud_running (ke_now env)"
  by (auto simp: cloud_start_def cloud_running_def split: option.splits)

lemma cloud_running_inv: "cloud_inv (cloud_running now)"
  by (simp add: cloud_running_def cloud_inv_def)

lemma cloud_finished: "cloud_inv n \<Longrightarrow> cn_pc n = CloudReturned \<Longrightarrow> cn_signal n"
  by (simp add: cloud_inv_def)

interpretation cloud: terminating_node cloud_step "cloud_running now" cn_signal "\<lambda>n. cn_pc n = CloudReturned" cloud_inv cloud_rank for now
  by unfold_locales (rule cloud_running_inv cloud_step_inv cloud_finished cloud_progress; assumption)+


definition cloud_env0 :: cloud_env where
  "cloud_env0 = \<lparr>ke_Listen = None, ke_hub_Start = None, ke_now = 0\<rparr>"


text \<open>When the hub does not start, the cloud node returns and leaves its listener open.\<close>

lemma cloud_start_leaks_listener:
  "cloud_start env = Inl (e, left_open) \<Longrightarrow> left_open \<longleftrightarrow> ke_Listen env = None"
  by (auto simp: cloud_start_def split: option.splits)

subsection \<open>The edge application meets it\<close>

definition edge_requested :: "edge_servers \<Rightarrow> bool" where
  "edge_requested n \<longleftrightarrow> es_signal n \<or> es_http n \<noteq> Serving"

definition edge_inv :: "edge_servers \<Rightarrow> bool" where
  "edge_inv n \<longleftrightarrow> (es_pc n = EdgeWaiting \<longrightarrow> es_http n = Serving \<or> http_reporting n)
     \<and> (es_pc n \<noteq> EdgeWaiting \<longrightarrow> edge_requested n) \<and> (es_ctx n \<longleftrightarrow> es_pc n \<in> {EdgeWaiting, EdgeCancel})
     \<and> es_pc n \<in> {EdgeWaiting, EdgeCancel, EdgeReturning, EdgeReturned None} \<and> (es_ctx n \<longrightarrow> es_shutdown n = AwaitCtx)"

definition edge_rank :: "edge_servers \<Rightarrow> nat" where
  "edge_rank n = (case es_pc n of EdgeWaiting \<Rightarrow> 3 | EdgeCancel \<Rightarrow> 2 | EdgeReturning \<Rightarrow> 1 | EdgeReturned e \<Rightarrow> 0)"

lemmas edge_defs = edge_inv_def edge_requested_def http_reporting_def WaitForTerminationRequest_def edge_rank_def edge_serving_def

lemma edge_step_inv: "edge_step n n' \<Longrightarrow> edge_inv n \<Longrightarrow> edge_inv n'"
  by (induction rule: edge_step.induct) (auto simp: edge_defs split: server.splits)

lemma edge_progress:
  assumes "edge_inv n" "edge_requested n" "\<not> (\<exists>e. es_pc n = EdgeReturned e)"
  shows "\<exists>n'. edge_step n n' \<and> edge_requested n' \<and> edge_rank n' < edge_rank n"
proof -
  consider "es_pc n = EdgeCancel" | "es_pc n = EdgeReturning" | "es_pc n = EdgeWaiting" "es_signal n" | "es_pc n = EdgeWaiting" "http_reporting n"
    using assms by (auto simp: edge_defs)
  then show ?thesis
  proof cases
    case 1
    then show ?thesis using assms(2) cancel [OF 1] by (intro exI) (auto simp: edge_defs)
  next
    case 2
    then show ?thesis using assms(2) return [OF 2] by (intro exI) (auto simp: edge_defs)
  next
    case 3
    then show ?thesis using wake_signal [OF 3(1)] by (intro exI) (auto simp: edge_defs)
  next
    case 4
    then show ?thesis using wake_error [OF 4(1)] by (intro exI) (auto simp: edge_defs)
  qed
qed

lemma edge_serving_inv: "edge_inv edge_serving"
  by (simp add: edge_defs)

lemma edge_finished: "edge_inv n \<Longrightarrow> \<exists>e. es_pc n = EdgeReturned e \<Longrightarrow> edge_requested n"
  by (auto simp: edge_inv_def)

interpretation edge_node: terminating_node edge_step edge_serving edge_requested "\<lambda>n. \<exists>e. es_pc n = EdgeReturned e" edge_inv edge_rank
  by unfold_locales (rule edge_serving_inv edge_step_inv edge_finished edge_progress; assumption)+

text \<open>
  C36: the edge application also ends when its HTTP server fails, but it does not say so and it does not
  wait. In every run it returns without an error, although it may have returned because of one; a signal or
  a failure of the HTTP server was there before, and after either it can return. The goroutine that
  shuts the servers down starts only when the main function has nothing left to do but return, and
  nothing waits for it: there is a run that has returned while both servers are serving.
\<close>

theorem edge_shutdown:
  assumes "edge_step\<^sup>*\<^sup>* edge_serving n"
  shows "(\<forall>e. es_pc n = EdgeReturned e \<longrightarrow> e = None \<and> (es_signal n \<or> es_http n \<noteq> Serving))
    \<and> (es_signal n \<or> es_http n \<noteq> Serving \<longrightarrow> (\<exists>n'. edge_step\<^sup>*\<^sup>* n n' \<and> es_pc n' = EdgeReturned None))
    \<and> (es_shutdown n \<noteq> AwaitCtx \<longrightarrow> es_pc n \<in> {EdgeReturning, EdgeReturned None})
    \<and> (\<exists>n'. edge_step\<^sup>*\<^sup>* edge_serving n' \<and> es_pc n' = EdgeReturned None \<and> es_http n' = Serving \<and> es_grpc n' = Serving)"
proof -
  have inv: "edge_inv n" using assms by (rule edge_node.reachable_inv)
  have none: "es_pc n' = EdgeReturned None" if "edge_step\<^sup>*\<^sup>* n n'" "es_pc n' = EdgeReturned e" for n' e
    using edge_node.reachable_inv [OF rtranclp_trans [OF assms that(1)]] that(2) by (simp add: edge_inv_def)
  have "\<exists>n'. edge_step\<^sup>*\<^sup>* n n' \<and> es_pc n' = EdgeReturned None" if "es_signal n \<or> es_http n \<noteq> Serving"
    using edge_node.can_end [OF inv] that none unfolding edge_requested_def by blast
  moreover
  let ?n1 = "edge_serving\<lparr>es_signal := True\<rparr>"
  have runs: "edge_step edge_serving ?n1" "edge_step ?n1 (?n1\<lparr>es_pc := EdgeCancel\<rparr>)"
    "edge_step (?n1\<lparr>es_pc := EdgeCancel\<rparr>) (?n1\<lparr>es_ctx := False, es_pc := EdgeReturning\<rparr>)"
    "edge_step (?n1\<lparr>es_ctx := False, es_pc := EdgeReturning\<rparr>) (?n1\<lparr>es_ctx := False, es_pc := EdgeReturned None\<rparr>)"
    using edge_signal [of edge_serving] wake_signal [of ?n1] cancel [of "?n1\<lparr>es_pc := EdgeCancel\<rparr>"]
      return [of "?n1\<lparr>es_ctx := False, es_pc := EdgeReturning\<rparr>"] by (simp_all add: edge_defs)
  note r_into_rtranclp [of edge_step, OF runs(1)]
  note rtranclp.rtrancl_into_rtrancl [OF this runs(2)]
  note rtranclp.rtrancl_into_rtrancl [OF rtranclp.rtrancl_into_rtrancl [OF this runs(3)] runs(4)]
  then have "\<exists>n'. edge_step\<^sup>*\<^sup>* edge_serving n' \<and> es_pc n' = EdgeReturned None \<and> es_http n' = Serving \<and> es_grpc n' = Serving"
    by (rule exI [of _ "?n1\<lparr>es_ctx := False, es_pc := EdgeReturned None\<rparr>", OF conjI]) (simp add: edge_serving_def)
  ultimately show ?thesis using inv by (auto simp: edge_inv_def edge_requested_def)
qed

lemma edge_shutdown_witness:
  "edge_step\<^sup>*\<^sup>* edge_serving (edge_serving\<lparr>es_http := Reporting (WrapError ''http server: '' errNotImplemented [])\<rparr>)
     \<and> (\<exists>n'. edge_step\<^sup>*\<^sup>* (edge_serving\<lparr>es_http := Reporting (WrapError ''http server: '' errNotImplemented [])\<rparr>) n'
          \<and> es_pc n' = EdgeReturned None)"
proof -
  have r: "edge_step\<^sup>*\<^sup>* edge_serving (edge_serving\<lparr>es_http := Reporting (WrapError ''http server: '' errNotImplemented [])\<rparr>)"
    using http_reports [of edge_serving] by (simp add: edge_serving_def r_into_rtranclp)
  then show ?thesis using edge_shutdown [OF r] by simp
qed

end
