(* ===== verification/Tool_Lifecycle.thy ===== *)
theory Tool_Lifecycle
  imports Analytics_Tool Service_Loops
begin

text \<open>
  The life of the analytics simulator, \<^verbatim>\<open>src/cmd/analytics-tool/main.go\<close>: its flags, the goroutines that \<^verbatim>\<open>run\<close>
  and \<^verbatim>\<open>runCamera\<close> start for every camera, the mutex around the shared gRPC stream, and the end on a
  signal. What the goroutines do with their data is the theory \<open>Analytics_Tool\<close>; here is the control
  flow of all of them together, as a step relation, and its interpretation as a node that terminates.
  The libraries' calls that block return once the context is cancelled, as they document.
\<close>

subsection \<open>Flags\<close>

record tool_flags =
  tf_EdgeURL :: string
  tf_MinLatency :: duration
  tf_MaxLatency :: duration

definition default_tool_flags :: tool_flags where
  "default_tool_flags = \<lparr>tf_EdgeURL = ''http://localhost:8080'', tf_MinLatency = 100 * Millisecond, tf_MaxLatency = 5 * Second\<rparr>"

subsection \<open>Goroutines\<close>

text \<open>The receiver of a camera: \<^verbatim>\<open>subscribeStream\<close> with \<^verbatim>\<open>connectAndRead\<close>; the worker of a camera; and \<^verbatim>\<open>run\<close> itself.\<close>

datatype recv_pc = RcvCheck | RcvDial | RcvOpen | RcvRetry | RcvDone
datatype worker_pc = WkIdle | WkSim | WkLock | WkSend | WkDone
datatype tool_pc = ToolWaiting | ToolJoining | ToolReturned

record camera_node =
  cx_recv :: recv_pc
  cx_conn_open :: bool
  cx_queued :: nat
  cx_queue_closed :: bool
  cx_worker :: worker_pc

record tool_node =
  tn_pc :: tool_pc
  tn_cancelled :: bool
  tn_sendMu :: "nat option"
  tn_stream_open :: bool
  tn_cameras :: "camera_node list"

definition camera_node0 :: camera_node where
  "camera_node0 = \<lparr>cx_recv = RcvCheck, cx_conn_open = False, cx_queued = 0, cx_queue_closed = False, cx_worker = WkIdle\<rparr>"

text \<open>Without cameras the tool returns at once; otherwise it waits for the end of its context.\<close>

definition tool_start :: "(string \<times> string) list \<Rightarrow> tool_node" where
  "tool_start cameras = \<lparr>tn_pc = (if cameras = [] then ToolReturned else ToolWaiting), tn_cancelled = False, tn_sendMu = None,
     tn_stream_open = True, tn_cameras = map (\<lambda>_. camera_node0) cameras\<rparr>"

definition tool_main :: "tool_flags \<Rightarrow> go_error option \<Rightarrow> go_error option
    \<Rightarrow> go_error + (nat \<times> string \<times> cameraEntry list result) \<Rightarrow> nat + tool_node" where
  "tool_main fs grpc_NewClient IngestAnalytics resp =
    (case run (tf_EdgeURL fs) grpc_NewClient IngestAnalytics resp of
       Inl e \<Rightarrow> Inl 1
     | Inr cameras \<Rightarrow> Inr (tool_start cameras))"

text \<open>
  The steps of one camera, with the state of the context. The receiver checks the context before it
  dials; reading ends with an error only, which closes the connection; when it returns it closes the
  queue. The send step of the worker is apart: it needs the mutex.
\<close>

inductive cam_step :: "bool \<Rightarrow> camera_node \<Rightarrow> camera_node \<Rightarrow> bool" for cancelled where
  check: "cx_recv c = RcvCheck \<Longrightarrow> \<not> cancelled \<Longrightarrow> cam_step cancelled c (c\<lparr>cx_recv := RcvDial\<rparr>)"
| check_cancelled: "cx_recv c = RcvCheck \<Longrightarrow> cancelled \<Longrightarrow>
    cam_step cancelled c (c\<lparr>cx_recv := RcvDone, cx_queue_closed := True\<rparr>)"
| dialled: "cx_recv c = RcvDial \<Longrightarrow> cam_step cancelled c (c\<lparr>cx_recv := RcvOpen, cx_conn_open := True\<rparr>)"
| dial_fails: "cx_recv c = RcvDial \<Longrightarrow> cam_step cancelled c (c\<lparr>cx_recv := RcvRetry\<rparr>)"
| enqueue: "cx_recv c = RcvOpen \<Longrightarrow> cx_queued c < work_capacity \<Longrightarrow> cam_step cancelled c (c\<lparr>cx_queued := cx_queued c + 1\<rparr>)"
| read_fails: "cx_recv c = RcvOpen \<Longrightarrow> cam_step cancelled c (c\<lparr>cx_recv := RcvRetry, cx_conn_open := False\<rparr>)"
| retry: "cx_recv c = RcvRetry \<Longrightarrow> cam_step cancelled c (c\<lparr>cx_recv := RcvCheck\<rparr>)"
| retry_cancelled: "cx_recv c = RcvRetry \<Longrightarrow> cancelled \<Longrightarrow>
    cam_step cancelled c (c\<lparr>cx_recv := RcvDone, cx_queue_closed := True\<rparr>)"
| take_item: "cx_worker c = WkIdle \<Longrightarrow> 0 < cx_queued c \<Longrightarrow> cam_step cancelled c (c\<lparr>cx_worker := WkSim, cx_queued := cx_queued c - 1\<rparr>)"
| idle_cancelled: "cx_worker c = WkIdle \<Longrightarrow> cancelled \<Longrightarrow> cam_step cancelled c (c\<lparr>cx_worker := WkDone\<rparr>)"
| idle_closed: "cx_worker c = WkIdle \<Longrightarrow> cx_queue_closed c \<Longrightarrow> cx_queued c = 0 \<Longrightarrow> cam_step cancelled c (c\<lparr>cx_worker := WkDone\<rparr>)"
| simulated: "cx_worker c = WkSim \<Longrightarrow> cam_step cancelled c (c\<lparr>cx_worker := WkLock\<rparr>)"
| sim_cancelled: "cx_worker c = WkSim \<Longrightarrow> cancelled \<Longrightarrow> cam_step cancelled c (c\<lparr>cx_worker := WkDone\<rparr>)"

definition upd_cam :: "nat \<Rightarrow> camera_node \<Rightarrow> tool_node \<Rightarrow> tool_node" where
  "upd_cam i c n = n\<lparr>tn_cameras := (tn_cameras n)[i := c]\<rparr>"

inductive tool_step :: "tool_node \<Rightarrow> tool_node \<Rightarrow> bool" where
  interrupt: "tool_step n (n\<lparr>tn_cancelled := True\<rparr>)"
| ctx_done: "tn_pc n = ToolWaiting \<Longrightarrow> tn_cancelled n \<Longrightarrow> tool_step n (n\<lparr>tn_pc := ToolJoining, tn_stream_open := False\<rparr>)"
| joined: "tn_pc n = ToolJoining \<Longrightarrow> \<forall>c \<in> set (tn_cameras n). cx_recv c = RcvDone \<and> cx_worker c = WkDone \<Longrightarrow>
    tool_step n (n\<lparr>tn_pc := ToolReturned\<rparr>)"
| camera: "i < length (tn_cameras n) \<Longrightarrow> cam_step (tn_cancelled n) (tn_cameras n ! i) c \<Longrightarrow> tool_step n (upd_cam i c n)"
| lock: "i < length (tn_cameras n) \<Longrightarrow> cx_worker (tn_cameras n ! i) = WkLock \<Longrightarrow> tn_sendMu n = None \<Longrightarrow>
    tool_step n (upd_cam i ((tn_cameras n ! i)\<lparr>cx_worker := WkSend\<rparr>) n\<lparr>tn_sendMu := Some i\<rparr>)"
| sent: "i < length (tn_cameras n) \<Longrightarrow> cx_worker (tn_cameras n ! i) = WkSend \<Longrightarrow> tn_sendMu n = Some i \<Longrightarrow>
    tool_step n (upd_cam i ((tn_cameras n ! i)\<lparr>cx_worker := WkIdle\<rparr>) n\<lparr>tn_sendMu := None\<rparr>)"

subsection \<open>Invariant\<close>

definition cam_inv :: "bool \<Rightarrow> camera_node \<Rightarrow> bool" where
  "cam_inv cancelled c \<longleftrightarrow> (cx_conn_open c \<longleftrightarrow> cx_recv c = RcvOpen) \<and> (cx_queue_closed c \<longleftrightarrow> cx_recv c = RcvDone)
     \<and> (cx_recv c = RcvDone \<longrightarrow> cancelled) \<and> (cx_worker c = WkDone \<longrightarrow> cancelled) \<and> cx_queued c \<le> work_capacity"

definition tool_inv :: "tool_node \<Rightarrow> bool" where
  "tool_inv n \<longleftrightarrow> list_all (cam_inv (tn_cancelled n)) (tn_cameras n)
     \<and> (\<forall>i < length (tn_cameras n). cx_worker (tn_cameras n ! i) = WkSend \<longleftrightarrow> tn_sendMu n = Some i)
     \<and> (\<forall>i. tn_sendMu n = Some i \<longrightarrow> i < length (tn_cameras n))
     \<and> tn_cameras n \<noteq> [] \<and> (tn_pc n \<noteq> ToolWaiting \<longrightarrow> tn_cancelled n) \<and> (tn_stream_open n \<longleftrightarrow> tn_pc n = ToolWaiting)
     \<and> (tn_pc n = ToolReturned \<longrightarrow> (\<forall>c \<in> set (tn_cameras n). cx_recv c = RcvDone \<and> cx_worker c = WkDone))"

lemma cam_step_inv: "cam_step cancelled c c' \<Longrightarrow> cam_inv cancelled c \<Longrightarrow> cam_inv cancelled c'"
  by (induction rule: cam_step.induct) (auto simp: cam_inv_def)

inductive_cases cam_stepE: "cam_step cancelled c c'"

lemma cam_step_worker: "cam_step cancelled c c' \<Longrightarrow> cx_worker c' = WkSend \<longleftrightarrow> cx_worker c = WkSend"
  by (induction rule: cam_step.induct) auto

lemma cam_step_done: "cam_step cancelled c c' \<Longrightarrow> \<not> (cx_recv c = RcvDone \<and> cx_worker c = WkDone)"
  by (induction rule: cam_step.induct) auto

lemma upd_cam_simps [simp]:
  "tn_cameras (upd_cam i c n) = (tn_cameras n)[i := c]" "tn_pc (upd_cam i c n) = tn_pc n" "tn_sendMu (upd_cam i c n) = tn_sendMu n"
  "tn_cancelled (upd_cam i c n) = tn_cancelled n" "tn_stream_open (upd_cam i c n) = tn_stream_open n"
  by (simp_all add: upd_cam_def)

lemma tool_start_inv: "cams \<noteq> [] \<Longrightarrow> tool_inv (tool_start cams)"
  by (auto simp: tool_inv_def tool_start_def cam_inv_def camera_node0_def list_all_iff)

lemma tool_step_inv: "tool_step n n' \<Longrightarrow> tool_inv n \<Longrightarrow> tool_inv n'"
proof (induction rule: tool_step.induct)
  case (interrupt n)
  then show ?case by (auto simp: tool_inv_def cam_inv_def list_all_iff)
next
  case (camera i n c)
  have "tn_pc n \<noteq> ToolReturned" using camera cam_step_done [OF camera(2)] by (auto simp: tool_inv_def)
  moreover have "cam_inv (tn_cancelled n) c" using cam_step_inv [OF camera(2)] camera(1,3) by (simp add: tool_inv_def list_all_length)
  ultimately show ?case using camera cam_step_worker [OF camera(2)]
    by (auto simp: tool_inv_def list_all_length nth_list_update)
next
  case (lock i n)
  then have "tn_pc n \<noteq> ToolReturned" by (auto simp: tool_inv_def)
  then show ?case using lock by (auto simp: tool_inv_def list_all_length nth_list_update cam_inv_def)
next
  case (sent i n)
  then have "tn_pc n \<noteq> ToolReturned" by (auto simp: tool_inv_def)
  then show ?case using sent by (auto simp: tool_inv_def list_all_length nth_list_update cam_inv_def)
qed (auto simp: tool_inv_def)

subsection \<open>Termination\<close>

fun recv_left :: "recv_pc \<Rightarrow> nat" where
  "recv_left RcvDial = 2"
| "recv_left RcvOpen = 2"
| "recv_left RcvCheck = 1"
| "recv_left RcvRetry = 1"
| "recv_left RcvDone = 0"

fun worker_left :: "worker_pc \<Rightarrow> nat" where
  "worker_left WkLock = 3"
| "worker_left WkSend = 2"
| "worker_left WkSim = 1"
| "worker_left WkIdle = 1"
| "worker_left WkDone = 0"

fun pc_left :: "tool_pc \<Rightarrow> nat" where
  "pc_left ToolWaiting = 2"
| "pc_left ToolJoining = 1"
| "pc_left ToolReturned = 0"

definition cam_rank :: "camera_node \<Rightarrow> nat" where
  "cam_rank c = recv_left (cx_recv c) + worker_left (cx_worker c)"

definition tool_rank :: "tool_node \<Rightarrow> nat" where
  "tool_rank n = pc_left (tn_pc n) + sum_list (map cam_rank (tn_cameras n))"

lemma tool_rank_upd:
  assumes "i < length (tn_cameras n)" "cam_rank c < cam_rank (tn_cameras n ! i)"
  shows "tool_rank (upd_cam i c n) < tool_rank n" "tool_rank (upd_cam i c n\<lparr>tn_sendMu := m\<rparr>) < tool_rank n"
proof -
  have "sum_list ((map cam_rank (tn_cameras n))[i := cam_rank c]) < sum_list (map cam_rank (tn_cameras n))"
    using assms elem_le_sum_list [of i "map cam_rank (tn_cameras n)"] by (simp add: sum_list_update)
  then show "tool_rank (upd_cam i c n) < tool_rank n" "tool_rank (upd_cam i c n\<lparr>tn_sendMu := m\<rparr>) < tool_rank n"
    by (simp_all add: tool_rank_def map_update)
qed

lemma cam_smaller: "cam_step True c c' \<Longrightarrow> cam_rank c' < cam_rank c \<Longrightarrow> \<exists>c'. cam_step True c c' \<and> cam_rank c' < cam_rank c"
  by blast

lemma tool_smaller:
  "tool_step n n' \<Longrightarrow> tn_cancelled n' = tn_cancelled n \<Longrightarrow> tool_rank n' < tool_rank n \<Longrightarrow>
     \<exists>n'. tool_step n n' \<and> tn_cancelled n' = tn_cancelled n \<and> tool_rank n' < tool_rank n"
  by blast

text \<open>A camera that has not ended can go on when the context is cancelled, unless its worker needs the mutex.\<close>

lemma cam_progress:
  assumes "cx_recv c \<noteq> RcvDone \<or> cx_worker c \<in> {WkIdle, WkSim}"
  shows "\<exists>c'. cam_step True c c' \<and> cam_rank c' < cam_rank c"
proof (cases "cx_recv c")
  case RcvCheck
  then show ?thesis by (intro cam_smaller [OF check_cancelled [OF RcvCheck TrueI]]) (simp_all add: cam_rank_def)
next
  case RcvDial
  then show ?thesis by (intro cam_smaller [OF dial_fails [OF RcvDial]]) (simp_all add: cam_rank_def)
next
  case RcvOpen
  then show ?thesis by (intro cam_smaller [OF read_fails [OF RcvOpen]]) (simp_all add: cam_rank_def)
next
  case RcvRetry
  then show ?thesis by (intro cam_smaller [OF retry_cancelled [OF RcvRetry TrueI]]) (simp_all add: cam_rank_def)
next
  case RcvDone
  then consider "cx_worker c = WkIdle" | "cx_worker c = WkSim" using assms by auto
  then show ?thesis
  proof cases
    case 1
    then show ?thesis by (intro cam_smaller [OF idle_cancelled [OF 1 TrueI]]) (simp_all add: cam_rank_def)
  next
    case 2
    then show ?thesis by (intro cam_smaller [OF sim_cancelled [OF 2 TrueI]]) (simp_all add: cam_rank_def)
  qed
qed

lemma send_progress:
  assumes "tool_inv n" "i < length (tn_cameras n)" "cx_worker (tn_cameras n ! i) = WkSend"
  shows "\<exists>n'. tool_step n n' \<and> tn_cancelled n' = tn_cancelled n \<and> tool_rank n' < tool_rank n"
proof -
  have m: "tn_sendMu n = Some i" using assms by (simp add: tool_inv_def)
  show ?thesis
    by (rule tool_smaller [OF tool_step.sent [OF assms(2,3) m]]) (simp_all add: tool_rank_upd(2) [OF assms(2)] cam_rank_def assms(3))
qed

lemma lock_progress:
  assumes "tool_inv n" "i < length (tn_cameras n)" "cx_worker (tn_cameras n ! i) \<in> {WkLock, WkSend}"
  shows "\<exists>n'. tool_step n n' \<and> tn_cancelled n' = tn_cancelled n \<and> tool_rank n' < tool_rank n"
proof (cases "tn_sendMu n")
  case None
  then have l: "cx_worker (tn_cameras n ! i) = WkLock" using assms by (auto simp: tool_inv_def)
  show ?thesis
    by (rule tool_smaller [OF tool_step.lock [OF assms(2) l None]]) (simp_all add: tool_rank_upd(2) [OF assms(2)] cam_rank_def l)
next
  case (Some j)
  then have "j < length (tn_cameras n)" "cx_worker (tn_cameras n ! j) = WkSend" using assms(1) by (auto simp: tool_inv_def)
  then show ?thesis by (rule send_progress [OF assms(1)])
qed

lemma cancelled_progress:
  assumes "tool_inv n" "tn_cancelled n" "tn_pc n \<noteq> ToolReturned"
  shows "\<exists>n'. tool_step n n' \<and> tn_cancelled n' = tn_cancelled n \<and> tool_rank n' < tool_rank n"
proof (cases "tn_pc n")
  case ToolWaiting
  then show ?thesis by (intro tool_smaller [OF ctx_done [OF ToolWaiting assms(2)]]) (simp_all add: tool_rank_def)
next
  case ToolJoining
  show ?thesis
  proof (cases "\<forall>c \<in> set (tn_cameras n). cx_recv c = RcvDone \<and> cx_worker c = WkDone")
    case True
    show ?thesis by (rule tool_smaller [OF joined [OF ToolJoining True]]) (simp_all add: tool_rank_def ToolJoining)
  next
    case False
    then obtain i where i: "i < length (tn_cameras n)" "cx_recv (tn_cameras n ! i) \<noteq> RcvDone \<or> cx_worker (tn_cameras n ! i) \<noteq> WkDone"
      by (metis in_set_conv_nth)
    show ?thesis
    proof (cases "cx_recv (tn_cameras n ! i) \<noteq> RcvDone \<or> cx_worker (tn_cameras n ! i) \<in> {WkIdle, WkSim}")
      case True
      then obtain c where c: "cam_step True (tn_cameras n ! i) c" "cam_rank c < cam_rank (tn_cameras n ! i)" using cam_progress by blast
      have "cam_step (tn_cancelled n) (tn_cameras n ! i) c" using c(1) assms(2) by simp
      from tool_step.camera [OF i(1) this] show ?thesis
        by (rule tool_smaller) (simp_all add: tool_rank_upd(1) [OF i(1) c(2)])
    next
      case False
      then have "cx_worker (tn_cameras n ! i) \<in> {WkLock, WkSend}" using i(2) by (cases "cx_worker (tn_cameras n ! i)") auto
      then show ?thesis by (rule lock_progress [OF assms(1) i(1)])
    qed
  qed
qed (use assms in simp)

lemma tool_progress:
  "tool_inv n \<Longrightarrow> tn_cancelled n \<Longrightarrow> tn_pc n \<noteq> ToolReturned \<Longrightarrow> \<exists>n'. tool_step n n' \<and> tn_cancelled n' \<and> tool_rank n' < tool_rank n"
  using cancelled_progress by metis

lemma tool_finished: "tool_inv n \<Longrightarrow> tn_pc n = ToolReturned \<Longrightarrow> tn_cancelled n"
  by (simp add: tool_inv_def)

lemma tool_start_Cons_inv: "tool_inv (tool_start (c # cs))"
  by (rule tool_start_inv) simp

interpretation tool: terminating_node tool_step "tool_start (c # cs)" tn_cancelled "\<lambda>n. tn_pc n = ToolReturned" tool_inv tool_rank for c cs
  by unfold_locales (rule tool_start_Cons_inv tool_step_inv tool_finished tool_progress; assumption)+

text \<open>
  C40: the simulator ends on a signal and leaves nothing behind. With at least one camera it runs until its
  context is cancelled; whatever its connections and workers do, at most one of them sends on the
  shared stream at a time; when \<^verbatim>\<open>run\<close> has returned, both goroutines of every camera have ended, every
  connection and queue and the stream are closed and nobody holds the mutex; and from every state after
  the signal it can return.
\<close>

theorem tool_lifecycle:
  assumes "tool_main fs None None resp = Inr n0" "tn_cameras n0 \<noteq> []" "tool_step\<^sup>*\<^sup>* n0 n"
  shows "(\<forall>i j. i < length (tn_cameras n) \<and> j < length (tn_cameras n) \<and> cx_worker (tn_cameras n ! i) = WkSend
      \<and> cx_worker (tn_cameras n ! j) = WkSend \<longrightarrow> i = j)
    \<and> (tn_pc n = ToolReturned \<longrightarrow> tn_cancelled n \<and> \<not> tn_stream_open n \<and> tn_sendMu n = None
         \<and> (\<forall>c \<in> set (tn_cameras n). cx_recv c = RcvDone \<and> cx_worker c = WkDone \<and> \<not> cx_conn_open c \<and> cx_queue_closed c))
    \<and> (tn_cancelled n \<longrightarrow> (\<exists>n'. tool_step\<^sup>*\<^sup>* n n' \<and> tn_pc n' = ToolReturned))
    \<and> (\<not> tn_cancelled n \<longrightarrow> tn_pc n = ToolWaiting \<and> (\<forall>c \<in> set (tn_cameras n). cx_recv c \<noteq> RcvDone \<and> cx_worker c \<noteq> WkDone))"
proof -
  obtain cams where n0: "n0 = tool_start cams" using assms(1) by (auto simp: tool_main_def split: sum.splits)
  then obtain c cs where "n0 = tool_start (c # cs)" using assms(2) by (cases cams) (auto simp: tool_start_def)
  then have inv: "tool_inv n" using assms(3) tool.reachable_inv by blast
  then have "cam_inv (tn_cancelled n) c" if "c \<in> set (tn_cameras n)" for c using that by (simp add: tool_inv_def list_all_iff)
  moreover have "tn_sendMu n = None" if "tn_pc n = ToolReturned"
  proof (rule ccontr)
    assume "tn_sendMu n \<noteq> None"
    then obtain i where "i < length (tn_cameras n)" "cx_worker (tn_cameras n ! i) = WkSend" using inv by (auto simp: tool_inv_def)
    then show False using inv that nth_mem [of i "tn_cameras n"] by (auto simp: tool_inv_def)
  qed
  moreover have "\<exists>n'. tool_step\<^sup>*\<^sup>* n n' \<and> tn_pc n' = ToolReturned" if "tn_cancelled n" by (rule tool.can_end [OF inv that])
  ultimately show ?thesis using inv by (auto simp: tool_inv_def cam_inv_def)
qed

lemma tool_lifecycle_witness:
  "\<exists>n0. tool_main default_tool_flags None None (Inr (200, ''200 OK'', Inr [\<lparr>cy_CameraID = ''c'', cy_Name = ''C''\<rparr>])) = Inr n0
     \<and> (\<exists>n'. tool_step\<^sup>*\<^sup>* (n0\<lparr>tn_cancelled := True\<rparr>) n' \<and> tn_pc n' = ToolReturned)"
proof -
  let ?resp = "Inr (200, ''200 OK'', Inr [\<lparr>cy_CameraID = ''c'', cy_Name = ''C''\<rparr>]) :: go_error + (nat \<times> string \<times> cameraEntry list result)"
  obtain url where n0: "tool_main default_tool_flags None None ?resp = Inr (tool_start [(''c'', url)])"
    by (simp add: tool_main_def run_def listCameras_def Let_def)
  have "tn_cameras (tool_start [(''c'', url)]) \<noteq> []" by (simp add: tool_start_def)
  moreover have "tool_step\<^sup>*\<^sup>* (tool_start [(''c'', url)]) (tool_start [(''c'', url)]\<lparr>tn_cancelled := True\<rparr>)" using interrupt by blast
  ultimately show ?thesis using tool_lifecycle [OF n0] n0 by auto
qed

end
