(* ===== verification/Go_Format.thy ===== *)
theory Go_Format
  imports Stream_Session
begin

text \<open>
  What the commands of the repository use of Go's \<^verbatim>\<open>fmt\<close> and \<^verbatim>\<open>time\<close> packages to print: rounding and
  printing durations, floating-point values with a fixed number of decimals, and padding to a width that is
  counted in characters of UTF-8. Nothing here models a file of the repository. A floating-point
  operation is the exact result rounded by a function from rationals to rationals, which is a
  parameter; a division by zero gives an infinity or no number.
\<close>

subsection \<open>Durations\<close>

text \<open>\<^verbatim>\<open>Duration.Round\<close>: halves are rounded away from zero, and a result out of range is the bound.\<close>

definition duration_Round :: "duration \<Rightarrow> duration \<Rightarrow> duration" where
  "duration_Round d m =
    (if m \<le> 0 then d
     else let r = d smod m
     in if d < 0 then
          (if - r + - r < m then d - r else let d1 = wrap64 (d - m - r) in if d1 < d then d1 else - (2 ^ 63))
        else
          (if r + r < m then d - r else let d1 = wrap64 (d + m - r) in if d1 > d then d1 else 2 ^ 63 - 1))"

text \<open>
  \<^verbatim>\<open>Duration.String\<close>: hours, minutes and seconds from a second on, else the largest unit below it; the
  fraction is printed without trailing zeros.
\<close>

definition frac_digits :: "nat \<Rightarrow> nat \<Rightarrow> string" where
  "frac_digits prec n = (let s = strip_zeros (pad prec n) in if s = [] then [] else CHR ''.'' # s)"

definition micro :: string where
  "micro = [CHR 0xC2, CHR 0xB5]"

definition duration_abs :: "nat \<Rightarrow> string" where
  "duration_abs u =
    (if u = 0 then ''0s''
     else if u < 1000 then dec u @ ''ns''
     else if u < 1000000 then dec (u div 1000) @ frac_digits 3 (u mod 1000) @ micro @ ''s''
     else if u < 1000000000 then dec (u div 1000000) @ frac_digits 6 (u mod 1000000) @ ''ms''
     else let s = u div 1000000000; m = s div 60; h = m div 60
          in (if h > 0 then dec h @ ''h'' else []) @ (if m > 0 then dec (m mod 60) @ ''m'' else [])
             @ dec (s mod 60) @ frac_digits 9 (u mod 1000000000) @ ''s'')"

definition duration_String :: "duration \<Rightarrow> string" where
  "duration_String d = (if d < 0 then CHR ''-'' # duration_abs (nat (- d)) else duration_abs (nat d))"

subsection \<open>Floating point\<close>

datatype float64 = Finite rat | Infinite bool | NaN

text \<open>Division of two finite values; the flag of an infinity is its sign.\<close>

definition float_div :: "(rat \<Rightarrow> rat) \<Rightarrow> rat \<Rightarrow> rat \<Rightarrow> float64" where
  "float_div fl a b = (if b \<noteq> 0 then Finite (fl (a / b)) else if a = 0 then NaN else Infinite (a < 0))"

text \<open>Division of any value by a finite one other than zero.\<close>

fun float_scale :: "(rat \<Rightarrow> rat) \<Rightarrow> float64 \<Rightarrow> rat \<Rightarrow> float64" where
  "float_scale fl (Finite a) b = Finite (fl (a / b))"
| "float_scale fl (Infinite neg) b = Infinite (neg \<noteq> (b < 0))"
| "float_scale fl NaN b = NaN"

text \<open>\<^verbatim>\<open>Duration.Seconds\<close>.\<close>

definition duration_Seconds :: "(rat \<Rightarrow> rat) \<Rightarrow> duration \<Rightarrow> rat" where
  "duration_Seconds fl d = fl (fl (of_int (d sdiv Second)) + fl (fl (of_int (d smod Second)) / of_int Second))"

text \<open>
  \<^verbatim>\<open>%.kf\<close> prints the decimal number with \<open>k\<close> decimals that is nearest to the value, the even one of two.
\<close>

definition round_even :: "rat \<Rightarrow> nat" where
  "round_even x = (let n = nat \<lfloor>x\<rfloor>; r = x - of_nat n in if r < 1 / 2 \<or> (r = 1 / 2 \<and> even n) then n else n + 1)"

definition fixed_abs :: "nat \<Rightarrow> rat \<Rightarrow> string" where
  "fixed_abs k x = (let n = round_even (x * 10 ^ k) in dec (n div 10 ^ k) @ ''.'' @ pad k (n mod 10 ^ k))"

fun float_fixed :: "nat \<Rightarrow> float64 \<Rightarrow> string" where
  "float_fixed k (Finite x) = (if x < 0 then CHR ''-'' # fixed_abs k (- x) else fixed_abs k x)"
| "float_fixed k (Infinite neg) = (if neg then ''-Inf'' else ''+Inf'')"
| "float_fixed k NaN = ''NaN''"

subsection \<open>Width\<close>

text \<open>
  \<^verbatim>\<open>utf8.RuneCountInString\<close>: the size of the first character of a string. A byte that does not start a
  well-formed sequence counts as one character.
\<close>

definition byte_in :: "nat \<Rightarrow> nat \<Rightarrow> string \<Rightarrow> nat \<Rightarrow> bool" where
  "byte_in lo hi s i \<longleftrightarrow> i < length s \<and> lo \<le> of_char (s ! i) \<and> of_char (s ! i) \<le> hi"

definition tail_bytes :: "nat \<Rightarrow> string \<Rightarrow> bool" where
  "tail_bytes n s \<longleftrightarrow> list_all (byte_in 0x80 0xBF s) [2..<n]"

definition rune_size :: "string \<Rightarrow> nat" where
  "rune_size s =
    (if byte_in 0xC2 0xDF s 0 \<and> byte_in 0x80 0xBF s 1 then 2
     else if byte_in 0xE0 0xE0 s 0 \<and> byte_in 0xA0 0xBF s 1 \<and> tail_bytes 3 s then 3
     else if byte_in 0xED 0xED s 0 \<and> byte_in 0x80 0x9F s 1 \<and> tail_bytes 3 s then 3
     else if byte_in 0xE1 0xEF s 0 \<and> \<not> byte_in 0xED 0xED s 0 \<and> byte_in 0x80 0xBF s 1 \<and> tail_bytes 3 s then 3
     else if byte_in 0xF0 0xF0 s 0 \<and> byte_in 0x90 0xBF s 1 \<and> tail_bytes 4 s then 4
     else if byte_in 0xF1 0xF3 s 0 \<and> byte_in 0x80 0xBF s 1 \<and> tail_bytes 4 s then 4
     else if byte_in 0xF4 0xF4 s 0 \<and> byte_in 0x80 0x8F s 1 \<and> tail_bytes 4 s then 4
     else 1)"

lemma rune_size_pos: "0 < rune_size s"
  by (simp add: rune_size_def)

function rune_count :: "string \<Rightarrow> nat" where
  "rune_count [] = 0"
| "rune_count (c # s) = Suc (rune_count (drop (rune_size (c # s)) (c # s)))"
  by pat_completeness auto
termination by (relation "measure length") (auto simp: rune_size_pos)

text \<open>\<^verbatim>\<open>%-ws\<close> and \<^verbatim>\<open>%ws\<close>.\<close>

definition pad_right :: "nat \<Rightarrow> string \<Rightarrow> string" where
  "pad_right w s = s @ replicate (w - rune_count s) CHR '' ''"

definition pad_left :: "nat \<Rightarrow> string \<Rightarrow> string" where
  "pad_left w s = replicate (w - rune_count s) CHR '' '' @ s"

lemma rune_size_ascii: "of_char c < (128 :: nat) \<Longrightarrow> rune_size (c # s) = 1"
  by (simp add: rune_size_def byte_in_def)

lemma rune_count_le: "rune_count s \<le> length s"
proof (induction s rule: rune_count.induct)
  case (2 c s)
  then show ?case using rune_size_pos [of "c # s"] by simp
qed simp

lemma rune_count_ascii_append: "list_all (\<lambda>c. of_char c < (128 :: nat)) s \<Longrightarrow> rune_count (s @ t) = length s + rune_count t"
  by (induction s) (simp_all add: rune_size_ascii)

abbreviation ascii :: "char \<Rightarrow> bool" where "ascii c \<equiv> of_char c < (128 :: nat)"

lemma byte_in_append:
  assumes "ascii c" "0x80 \<le> lo"
  shows "i < length s \<Longrightarrow> byte_in lo hi (s @ c # t) i = byte_in lo hi s i"
    and "i = length s \<Longrightarrow> \<not> byte_in lo hi (s @ c # t) i"
  using assms by (auto simp: byte_in_def nth_append)

lemma byte_in_length: "byte_in lo hi s i \<Longrightarrow> i < length s"
  by (simp add: byte_in_def)

lemma tail_bytes_34: "tail_bytes 3 s = byte_in 0x80 0xBF s 2" "tail_bytes 4 s = (byte_in 0x80 0xBF s 2 \<and> byte_in 0x80 0xBF s 3)"
  by (simp_all add: tail_bytes_def upt_rec)

text \<open>The size depends on the bytes that continue the first one; an ASCII character ends them.\<close>

definition continues :: "string \<Rightarrow> nat \<Rightarrow> nat \<Rightarrow> nat \<Rightarrow> bool" where
  "continues s lo hi n \<longleftrightarrow> byte_in lo hi s 1 \<and> (2 < n \<longrightarrow> byte_in 0x80 0xBF s 2) \<and> (3 < n \<longrightarrow> byte_in 0x80 0xBF s 3)"

lemma rune_size_continues:
  "rune_size s =
    (if byte_in 0xC2 0xDF s 0 \<and> continues s 0x80 0xBF 2 then 2
     else if byte_in 0xE0 0xE0 s 0 \<and> continues s 0xA0 0xBF 3 then 3
     else if byte_in 0xED 0xED s 0 \<and> continues s 0x80 0x9F 3 then 3
     else if byte_in 0xE1 0xEF s 0 \<and> \<not> byte_in 0xED 0xED s 0 \<and> continues s 0x80 0xBF 3 then 3
     else if byte_in 0xF0 0xF0 s 0 \<and> continues s 0x90 0xBF 4 then 4
     else if byte_in 0xF1 0xF3 s 0 \<and> continues s 0x80 0xBF 4 then 4
     else if byte_in 0xF4 0xF4 s 0 \<and> continues s 0x80 0x8F 4 then 4
     else 1)"
  by (simp add: rune_size_def tail_bytes_34 continues_def)

lemma continues_append:
  assumes "ascii c" "s \<noteq> []" "0x80 \<le> lo"
  shows "continues (s @ c # t) lo hi n = continues s lo hi n"
proof -
  have inside: "i < length s \<Longrightarrow> 0x80 \<le> l \<Longrightarrow> byte_in l h (s @ c # t) i = byte_in l h s i" for i l h
    by (rule byte_in_append(1) [OF assms(1)])
  have border: "length s = i \<Longrightarrow> 0x80 \<le> l \<Longrightarrow> \<not> byte_in l h (s @ c # t) i" for i l h
    using byte_in_append(2) [OF assms(1)] by metis
  have outside: "length s \<le> i \<Longrightarrow> \<not> byte_in l h s i" for i l h by (simp add: byte_in_def)
  have "length s \<noteq> 0" using assms(2) by simp
  then consider "length s = 1" | "length s = 2" | "length s = 3" | "3 < length s" by linarith
  then show ?thesis using assms(3) by cases (auto simp: continues_def inside border outside)
qed

lemma rune_size_append:
  assumes "ascii c" "s \<noteq> []"
  shows "rune_size (s @ c # t) = rune_size s"
proof -
  have "byte_in lo hi (s @ c # t) 0 = byte_in lo hi s 0" for lo hi using assms(2) by (cases s) (simp_all add: byte_in_def)
  then show ?thesis using continues_append [OF assms] by (simp only: rune_size_continues)
qed

lemma continues_length: "continues s lo hi n \<Longrightarrow> n \<le> 4 \<Longrightarrow> 2 \<le> n \<Longrightarrow> n \<le> length s"
  by (cases "n = 2"; cases "n = 3") (auto simp: continues_def dest: byte_in_length)

lemma if_le: "(P \<Longrightarrow> a \<le> n) \<Longrightarrow> b \<le> n \<Longrightarrow> (if P then a else b) \<le> (n :: nat)"
  by simp

lemma rune_size_le: "s \<noteq> [] \<Longrightarrow> rune_size s \<le> length s"
  unfolding rune_size_continues
  by (intro if_le; (elim conjE, erule continues_length; simp)?) (simp add: Suc_le_eq)

lemma rune_count_append: "ascii c \<Longrightarrow> rune_count (s @ c # t) = rune_count s + rune_count (c # t)"
proof (induction s rule: rune_count.induct)
  case (2 b s)
  have "rune_size (b # s @ c # t) = rune_size (b # s)" using rune_size_append [OF 2(2), of "b # s"] by simp
  moreover have "drop (rune_size (b # s)) (b # s @ c # t) = drop (rune_size (b # s)) (b # s) @ c # t"
    using rune_size_le [of "b # s"] drop_append [of "rune_size (b # s)" "b # s" "c # t"] by simp
  ultimately show ?case using 2 by simp
qed simp

lemma rune_count_pad_right: "rune_count s \<le> w \<Longrightarrow> rune_count (pad_right w s) = w"
proof -
  assume w: "rune_count s \<le> w"
  have sp: "rune_count (replicate n (CHR '' '')) = n" for n
    using rune_count_ascii_append [of "replicate n (CHR '' '')" "[]"] by (simp add: list_all_iff)
  show ?thesis
  proof (cases "w - rune_count s")
    case 0
    then show ?thesis using w by (simp add: pad_right_def)
  next
    case (Suc n)
    then have "rune_count (pad_right w s) = rune_count s + rune_count (replicate (Suc n) (CHR '' ''))"
      using rune_count_append [of "CHR '' ''" s "replicate n (CHR '' '')"] by (simp add: pad_right_def)
    then show ?thesis using sp [of "Suc n"] Suc w by simp
  qed
qed

lemma rune_count_pad_left: "rune_count s \<le> w \<Longrightarrow> rune_count (pad_left w s) = w"
  using rune_count_ascii_append [of "replicate (w - rune_count s) (CHR '' '')" s] by (simp add: pad_left_def list_all_iff)

subsection \<open>Rounding\<close>

text \<open>Rounding gives the nearest multiple, away from zero for halves, as long as that fits into 64 bits.\<close>

lemma duration_Round_nonneg:
  assumes "0 < m" "0 \<le> d" "d + m < 2 ^ 63"
  shows "m dvd duration_Round d m \<and> - m < 2 * (duration_Round d m - d) \<and> 2 * (duration_Round d m - d) \<le> m"
proof -
  let ?r = "d mod m"
  have r: "0 \<le> ?r" "?r < m" "d smod m = ?r" using assms(1,2) by (simp_all add: signed_modulo_int_def sgn_if)
  have "fits64 (d + m - ?r)" using r(1,2) assms unfolding fits64_def by linarith
  then have "wrap64 (d + m - ?r) = d + m - ?r" by simp
  then have "duration_Round d m = (if 2 * ?r < m then d - ?r else d + m - ?r)"
    using assms(1,2) r by (simp add: duration_Round_def Let_def)
  moreover have dvd: "m dvd d - ?r" by (simp add: minus_mod_eq_mult_div)
  moreover have "m dvd d + m - ?r" using dvd_add [OF dvd dvd_refl] by (simp add: algebra_simps)
  ultimately show ?thesis using r by simp
qed

lemma duration_Round_neg:
  assumes "0 < m" "d < 0" "- (2 ^ 63) < d - m"
  shows "duration_Round d m = - duration_Round (- d) m"
proof -
  let ?r = "(- d) mod m"
  have r: "0 \<le> ?r" "?r < m" "d smod m = - ?r" "(- d) smod m = ?r" using assms(1,2) by (simp_all add: signed_modulo_int_def sgn_if)
  have "fits64 (d - m + ?r)" "fits64 (- d + m - ?r)" using r(1,2) assms unfolding fits64_def by linarith+
  then have "wrap64 (d - m + ?r) = d - m + ?r" "wrap64 (- d + m - ?r) = - d + m - ?r" by simp_all
  then show ?thesis using assms(1,2) r by (simp add: duration_Round_def Let_def)
qed

subsection \<open>Reading a printed duration\<close>

lemma set_dec: "c \<in> set (dec n) \<Longrightarrow> is_digit c"
proof (induction n rule: dec.induct)
  case (1 n)
  then show ?case by (subst (asm) (2) dec.simps) (auto simp: is_digit_def split: if_splits)
qed

lemma dec_nonempty [simp]: "dec n \<noteq> []"
  by (subst dec.simps) simp

lemma digits_val_dec [simp]: "digits_val 0 (dec n) = Some n"
proof (induction n rule: dec.induct)
  case (1 n)
  then show ?case by (subst dec.simps) (auto simp: digits_val_append)
qed

lemma split_While:
  assumes "\<forall>c \<in> set ds. P c" "r = [] \<or> \<not> P (hd r)"
  shows "takeWhile P (ds @ r) = ds" "dropWhile P (ds @ r) = r"
proof -
  have "takeWhile P r = []" "dropWhile P r = r" using assms(2) by (cases r; auto)+
  then show "takeWhile P (ds @ r) = ds" "dropWhile P (ds @ r) = r" using assms(1) by simp_all
qed

text \<open>A fraction without its trailing zeros has the digits of the number that was printed.\<close>

lemma frac_value:
  assumes "n < 10 ^ p"
  shows "\<exists>v. digits_val 0 (strip_zeros (pad p n)) = Some v \<and> v * 10 ^ p = n * 10 ^ length (strip_zeros (pad p n))"
proof -
  let ?s = "strip_zeros (pad p n)"
  obtain k where k: "pad p n = ?s @ replicate k (CHR ''0'')" using strip_zeros_split by blast
  have full: "digits_val 0 (pad p n) = Some n" using digits_val_pad [OF assms, of 0] by simp
  obtain v where v: "digits_val 0 ?s = Some v" using full k digits_val_prefix by metis
  then have "v * 10 ^ k = n" using full k by (metis digits_val_append digits_val_zeros option.case(2) option.inject)
  moreover have "p = length ?s + k" using k by (metis length_append length_pad length_replicate)
  ultimately have "v * 10 ^ p = n * 10 ^ length ?s" by (metis mult.assoc mult.commute power_add)
  then show ?thesis using v by blast
qed

lemma strip_zeros_is_digit: "c \<in> set (strip_zeros (pad w n)) \<Longrightarrow> is_digit c"
  unfolding is_digit_def by (metis pad_digits Un_iff set_append strip_zeros_split)

lemma frac_digits_0 [simp]: "frac_digits 0 n = []"
  by (simp add: frac_digits_def strip_zeros_def)

definition unit_text :: "string \<Rightarrow> bool" where
  "unit_text u \<longleftrightarrow> u \<noteq> [] \<and> (\<forall>c \<in> set u. c \<noteq> CHR ''.'' \<and> \<not> is_digit c)"

text \<open>One number with its unit.\<close>

lemma duration_loop_part:
  assumes "n < 10 ^ p" "unit_text u" "duration_unit u = Some (int k)" "p = 0 \<or> k = 10 ^ p"
    and "r = [] \<or> is_digit (hd r)" "0 \<le> d" "d + int w * int k + int n \<le> 2 ^ 63" "0 < k"
  shows "duration_loop (Suc fuel) (dec w @ frac_digits p n @ u @ r) d = duration_loop fuel r (d + int w * int k + int n)"
proof -
  let ?fs = "strip_zeros (pad p n)" and ?U = "\<lambda>x. x \<noteq> CHR ''.'' \<and> \<not> is_digit x"
  let ?s = "dec w @ frac_digits p n @ u @ r"
  have u: "u \<noteq> []" "\<forall>c \<in> set u. ?U c" using assms(2) by (auto simp: unit_text_def)
  have point: "\<not> is_digit (CHR ''.'')" by (simp add: is_digit_def digit_val_def)
  have "frac_digits p n @ u @ r \<noteq> []" "\<not> is_digit (hd (frac_digits p n @ u @ r))"
    using u point by (auto simp: frac_digits_def Let_def hd_append)
  then have ds: "takeWhile is_digit ?s = dec w" "dropWhile is_digit ?s = frac_digits p n @ u @ r"
    using split_While [of "dec w" is_digit "frac_digits p n @ u @ r"] set_dec by blast+
  have ur: "takeWhile is_digit (?fs @ u @ r) = ?fs" "dropWhile is_digit (?fs @ u @ r) = u @ r"
    using split_While [of ?fs is_digit "u @ r"] strip_zeros_is_digit u by (auto simp: hd_append)
  have fr: "(case frac_digits p n @ u @ r of CHR ''.'' # r \<Rightarrow> (takeWhile is_digit r, dropWhile is_digit r)
      | _ \<Rightarrow> ([], frac_digits p n @ u @ r)) = (?fs, u @ r)"
  proof (cases "?fs = []")
    case True
    then have "frac_digits p n = []" by (simp add: frac_digits_def)
    moreover obtain c cs where "u = c # cs" "c \<noteq> CHR ''.''" using u by (cases u) auto
    ultimately show ?thesis using True by (auto split: list.split char.split bool.split)
  next
    case False
    then have "frac_digits p n = CHR ''.'' # ?fs" by (simp add: frac_digits_def)
    then show ?thesis using ur by simp
  qed
  have ut: "takeWhile ?U (u @ r) = u" "dropWhile ?U (u @ r) = r"
    using split_While [of u ?U r] u assms(5) by blast+
  obtain v where v: "digits_val 0 ?fs = Some v" "v * 10 ^ p = n * 10 ^ length ?fs" using frac_value [OF assms(1)] by blast
  have frac: "int v * int k div 10 ^ length ?fs = int n"
  proof (cases "p = 0")
    case True
    then have "n = 0" "?fs = []" using assms(1) by (simp_all add: strip_zeros_def)
    then show ?thesis using v by simp
  next
    case False
    then have "int v * int k = int n * 10 ^ length ?fs" using v(2) assms(4) by (metis of_nat_mult of_nat_power of_nat_numeral)
    then show ?thesis by simp
  qed
  have wk: "int w * int k \<le> 2 ^ 63" using assms(6,7) by linarith
  then have big: "\<not> int w > 2 ^ 63 div int k" using assms(8) zdiv_mono1 [OF wk, of "int k"] by simp
  obtain c s where cs: "?s = c # s" by (cases ?s) auto
  show ?thesis
    using assms(3,6,7) big unfolding cs duration_loop.simps(3)
    unfolding cs [symmetric] ds Let_def fr prod.case ut v(1) digits_val_dec option.sel
    by (simp add: frac add.assoc)
qed

lemma duration_units:
  "unit_text ''ns''" "unit_text (micro @ ''s'')" "unit_text ''ms''" "unit_text ''s''" "unit_text ''m''" "unit_text ''h''"
  "duration_unit ''ns'' = Some (int 1)" "duration_unit (micro @ ''s'') = Some (int 1000)" "duration_unit ''ms'' = Some (int 1000000)"
  "duration_unit ''s'' = Some (int 1000000000)" "duration_unit ''m'' = Some (int 60000000000)" "duration_unit ''h'' = Some (int 3600000000000)"
  by (simp_all add: unit_text_def is_digit_def digit_val_def micro_def duration_unit_def Millisecond_def Second_def Minute_def Hour_def)

lemma hd_dec: "is_digit (hd (dec n @ s))"
  using set_dec [of "hd (dec n)" n] by (simp add: hd_append)

text \<open>The three parts of a duration of a second and more.\<close>

lemma duration_loop_hms:
  assumes "n < 1000000000" "int h * 3600000000000 + int m * 60000000000 + int s * 1000000000 + int n \<le> 2 ^ 63"
  shows "duration_loop (Suc (Suc (Suc f))) (dec h @ ''h'' @ dec m @ ''m'' @ dec s @ frac_digits 9 n @ ''s'') 0 =
      Some (int h * 3600000000000 + int m * 60000000000 + int s * 1000000000 + int n)"
    and "h = 0 \<Longrightarrow> duration_loop (Suc (Suc f)) (dec m @ ''m'' @ dec s @ frac_digits 9 n @ ''s'') 0 =
      Some (int m * 60000000000 + int s * 1000000000 + int n)"
    and "h = 0 \<Longrightarrow> m = 0 \<Longrightarrow> duration_loop (Suc f) (dec s @ frac_digits 9 n @ ''s'') 0 = Some (int s * 1000000000 + int n)"
proof -
  have S: "duration_loop (Suc f) (dec s @ frac_digits 9 n @ ''s'') d = Some (d + int s * 1000000000 + int n)"
    if "0 \<le> d" "d + int s * 1000000000 + int n \<le> 2 ^ 63" for d f
    using duration_loop_part [of n 9 "''s''" 1000000000 "[]" d s f] duration_units assms(1) that by simp
  have M: "duration_loop (Suc (Suc f)) (dec m @ ''m'' @ dec s @ frac_digits 9 n @ ''s'') d = Some (d + int m * 60000000000 + int s * 1000000000 + int n)"
    if "0 \<le> d" "d + int m * 60000000000 + int s * 1000000000 + int n \<le> 2 ^ 63" for d f
    using duration_loop_part [of 0 0 "''m''" 60000000000 "dec s @ frac_digits 9 n @ ''s''" d m "Suc f"] duration_units hd_dec
      S [of "d + int m * 60000000000" f] that by simp
  show "duration_loop (Suc (Suc (Suc f))) (dec h @ ''h'' @ dec m @ ''m'' @ dec s @ frac_digits 9 n @ ''s'') 0 =
      Some (int h * 3600000000000 + int m * 60000000000 + int s * 1000000000 + int n)"
    using duration_loop_part [of 0 0 "''h''" 3600000000000 "dec m @ ''m'' @ dec s @ frac_digits 9 n @ ''s''" 0 h "Suc (Suc f)"]
      duration_units hd_dec M [of "int h * 3600000000000" f] assms(2) by simp
  show "h = 0 \<Longrightarrow> duration_loop (Suc (Suc f)) (dec m @ ''m'' @ dec s @ frac_digits 9 n @ ''s'') 0 =
      Some (int m * 60000000000 + int s * 1000000000 + int n)" using M [of 0 f] assms(2) by simp
  show "h = 0 \<Longrightarrow> m = 0 \<Longrightarrow> duration_loop (Suc f) (dec s @ frac_digits 9 n @ ''s'') 0 = Some (int s * 1000000000 + int n)"
    using S [of 0 f] assms(2) by simp
qed

lemma hms_value:
  fixes u :: nat
  defines "s \<equiv> u div 1000000000"
  shows "s div 60 div 60 * 3600000000000 + (s div 60 mod 60) * 60000000000 + (s mod 60) * 1000000000 + u mod 1000000000 = u"
proof -
  have "s = (s div 60) * 60 + s mod 60" "s div 60 = (s div 60 div 60) * 60 + (s div 60) mod 60" by simp_all
  then have "s div 60 div 60 * 3600 + (s div 60 mod 60) * 60 + s mod 60 = s" by linarith
  moreover have "u = s * 1000000000 + u mod 1000000000" by (simp add: s_def)
  ultimately show ?thesis by linarith
qed

lemma duration_loop_long:
  assumes "1000000000 \<le> u" "int u \<le> 2 ^ 63" "length (duration_abs u) \<le> fuel"
  shows "duration_loop fuel (duration_abs u) 0 = Some (int u)"
proof -
  define s where "s = u div 1000000000"
  define m where "m = s div 60"
  define h where "h = m div 60"
  let ?n = "u mod 1000000000"
  have val: "int h * 3600000000000 + int (m mod 60) * 60000000000 + int (s mod 60) * 1000000000 + int ?n = int u"
    using arg_cong [OF hms_value [of u], of int] unfolding h_def m_def s_def by (simp only: of_nat_add of_nat_mult of_nat_numeral)
  have e: "duration_abs u = (if h > 0 then dec h @ ''h'' else []) @ (if m > 0 then dec (m mod 60) @ ''m'' else [])
      @ dec (s mod 60) @ frac_digits 9 ?n @ ''s''"
    using assms(1) by (simp add: duration_abs_def h_def m_def s_def Let_def)
  have len: "0 < length (dec x)" for x by simp
  have hm: "h > 0 \<Longrightarrow> m > 0" by (cases m) (simp_all add: h_def)
  have n: "?n < 1000000000" by simp
  note hms = duration_loop_hms [OF n, of h "m mod 60" "s mod 60", unfolded val, OF assms(2)]
  consider "h > 0" | "h = 0" "m > 0" | "h = 0" "m = 0" by linarith
  then show ?thesis
  proof cases
    case 1
    then have "3 \<le> fuel" using assms(3) hm e len [of h] len [of "m mod 60"] by simp
    then obtain f where "fuel = Suc (Suc (Suc f))" by (metis add_Suc le_Suc_ex numeral_3_eq_3 plus_nat.add_0)
    then show ?thesis using hms(1) [of f] e 1 hm by simp
  next
    case 2
    then have "2 \<le> fuel" using assms(3) e len [of "m mod 60"] len [of "s mod 60"] by simp
    then obtain f where "fuel = Suc (Suc f)" by (metis add_Suc le_Suc_ex numeral_2_eq_2 plus_nat.add_0)
    moreover have "m mod 60 = m" using 2 by (simp add: h_def)
    ultimately show ?thesis using hms(2) [of f] e 2 val by simp
  next
    case 3
    then obtain f where "fuel = Suc f" using assms(3) e by (cases fuel) auto
    then show ?thesis using hms(3) [of f] e 3 val by simp
  qed
qed

lemma duration_loop_abs:
  assumes "0 < u" "int u \<le> 2 ^ 63" "length (duration_abs u) \<le> fuel"
  shows "duration_loop fuel (duration_abs u) 0 = Some (int u)"
proof (cases "u < 1000000000")
  case True
  have sub: "duration_loop fuel (dec w @ frac_digits p n @ un) 0 = Some (int u)"
    if "duration_abs u = dec w @ frac_digits p n @ un" "n < 10 ^ p" "unit_text un" "duration_unit un = Some (int k)"
      "p = 0 \<or> k = 10 ^ p" "0 < k" "u = w * k + n" for w p n k un
  proof -
    have "length (duration_abs u) \<noteq> 0" using that(1) by simp
    then obtain f where "fuel = Suc f" using assms(3) by (cases fuel) auto
    moreover have "int w * int k + int n = int u" using that(7) by simp
    ultimately show ?thesis using duration_loop_part [of n p un k "[]" 0 w f] that assms(2) by simp
  qed
  consider "u < 1000" | "1000 \<le> u" "u < 1000000" | "1000000 \<le> u" using True by linarith
  then show ?thesis
  proof cases
    case 1
    then have e: "duration_abs u = dec u @ frac_digits 0 0 @ ''ns''" using assms(1) by (simp add: duration_abs_def)
    show ?thesis using sub [OF e] duration_units by (simp add: e)
  next
    case 2
    then have e: "duration_abs u = dec (u div 1000) @ frac_digits 3 (u mod 1000) @ micro @ ''s''" by (simp add: duration_abs_def)
    show ?thesis using sub [OF e] duration_units by (simp add: e)
  next
    case 3
    then have e: "duration_abs u = dec (u div 1000000) @ frac_digits 6 (u mod 1000000) @ ''ms''"
      using True by (simp add: duration_abs_def)
    show ?thesis using sub [OF e] duration_units by (simp add: e)
  qed
qed (use assms duration_loop_long in simp)

lemma duration_abs_head: "duration_abs u \<noteq> []" "is_digit (hd (duration_abs u))" "duration_abs u \<noteq> ''0''"
proof -
  let ?s = "u div 1000000000"
  have starts: "\<exists>n s. duration_abs u = dec n @ s \<and> s \<noteq> []" if "duration_abs u = dec n @ s" "s \<noteq> []" for n s
    using that by blast
  have zero: "''0s'' = dec 0 @ ''s''" by code_simp
  consider "u = 0" | "0 < u" "u < 1000" | "1000 \<le> u" "u < 1000000" | "1000000 \<le> u" "u < 1000000000"
    | "1000000000 \<le> u" "?s div 60 div 60 > 0" | "1000000000 \<le> u" "?s div 60 div 60 = 0" "?s div 60 > 0"
    | "1000000000 \<le> u" "?s div 60 = 0" by (metis gr_zeroI not_le)
  then have "\<exists>n s. duration_abs u = dec n @ s \<and> s \<noteq> []"
  proof cases
    case 1
    then show ?thesis by (intro starts [of 0 "''s''"]) (simp_all add: duration_abs_def zero)
  next
    case 2
    then show ?thesis by (intro starts [of u "''ns''"]) (simp_all add: duration_abs_def)
  next
    case 3
    then show ?thesis
      by (intro starts [of "u div 1000" "frac_digits 3 (u mod 1000) @ micro @ ''s''"]) (simp_all add: duration_abs_def)
  next
    case 4
    then show ?thesis
      by (intro starts [of "u div 1000000" "frac_digits 6 (u mod 1000000) @ ''ms''"]) (simp_all add: duration_abs_def)
  next
    case 5
    then have "?s div 60 > 0" by (cases "?s div 60") simp_all
    then show ?thesis using 5
      by (intro starts [of "?s div 60 div 60" "''h'' @ dec (?s div 60 mod 60) @ ''m'' @ dec (?s mod 60) @ frac_digits 9 (u mod 1000000000) @ ''s''"])
        (simp_all add: duration_abs_def Let_def)
  next
    case 6
    then show ?thesis
      by (intro starts [of "?s div 60 mod 60" "''m'' @ dec (?s mod 60) @ frac_digits 9 (u mod 1000000000) @ ''s''"])
        (simp_all add: duration_abs_def Let_def)
  next
    case 7
    then show ?thesis
      by (intro starts [of "?s mod 60" "frac_digits 9 (u mod 1000000000) @ ''s''"]) (simp_all add: duration_abs_def Let_def)
  qed
  then obtain n s where e: "duration_abs u = dec n @ s" "s \<noteq> []" by blast
  then have pos: "0 < length (dec n)" "0 < length s" by simp_all
  show "duration_abs u \<noteq> []" "is_digit (hd (duration_abs u))" unfolding e(1) by (simp, rule hd_dec)
  have "length (duration_abs u) \<noteq> length ''0''" using pos by (simp add: e(1) del: length_greater_0_conv)
  then show "duration_abs u \<noteq> ''0''" by metis
qed

lemma ParseDuration_digit:
  assumes "r \<noteq> []" "is_digit (hd r)" "r \<noteq> ''0''" "duration_loop (length r) r 0 = Some d"
  shows "ParseDuration (CHR ''-'' # r) = Some (- d)" "d < 2 ^ 63 \<Longrightarrow> ParseDuration r = Some d"
proof -
  have "is_digit (CHR ''-'') = False" "is_digit (CHR ''+'') = False" by (simp_all add: is_digit_def digit_val_def)
  then have "(case r of CHR ''-'' # r' \<Rightarrow> (True, r') | CHR ''+'' # r' \<Rightarrow> (False, r') | _ \<Rightarrow> (False, r)) = (False, r)"
    using assms(1,2) by (cases r) (auto split: char.split bool.split)
  then show "ParseDuration (CHR ''-'' # r) = Some (- d)" "d < 2 ^ 63 \<Longrightarrow> ParseDuration r = Some d"
    using assms(1,3,4) by (simp_all add: ParseDuration_def)
qed

text \<open>What is printed for a duration is read back as the same duration.\<close>

lemma ParseDuration_String: "fits64 d \<Longrightarrow> ParseDuration (duration_String d) = Some d"
proof -
  assume "fits64 d"
  then have d: "- (2 ^ 63) \<le> d" "d < 2 ^ 63" by (simp_all add: fits64_def)
  have head: "duration_abs u \<noteq> []" "is_digit (hd (duration_abs u))" "duration_abs u \<noteq> ''0''" for u by (rule duration_abs_head)+
  consider "d < 0" | "d = 0" | "0 < d" by linarith
  then show ?thesis
  proof cases
    case 1
    then have "duration_loop (length (duration_abs (nat (- d)))) (duration_abs (nat (- d))) 0 = Some (- d)"
      using duration_loop_abs [of "nat (- d)"] d by simp
    from ParseDuration_digit(1) [OF head this] show ?thesis using 1 by (simp add: duration_String_def)
  next
    case 2
    have "ParseDuration (duration_String 0) = Some 0" by code_simp
    then show ?thesis using 2 by simp
  next
    case 3
    then have "duration_loop (length (duration_abs (nat d))) (duration_abs (nat d)) 0 = Some d"
      using duration_loop_abs [of "nat d"] d by simp
    from ParseDuration_digit(2) [OF head this] show ?thesis using 3 d by (simp add: duration_String_def)
  qed
qed

end
