(* ===== verification/Web_Endpoints.thy ===== *)
theory Web_Endpoints
  imports Router Bootstrap Go_Format
begin

text \<open>
  The remaining endpoints of \<^verbatim>\<open>pkg/edgeview\<close> and the export of the API document: the analytics WebSocket
  (\<^verbatim>\<open>ws_analytics.go\<close>), the embedded user interface (\<^verbatim>\<open>ui_embed.go\<close>), the health and metrics handlers and the
  writers of \<^verbatim>\<open>http_handler.go\<close> and \<^verbatim>\<open>ws_stream.go\<close>, and \<^verbatim>\<open>ExportOpenAPI\<close> of the handler and of the edge
  application (\<^verbatim>\<open>internal/edge/openapi.go\<close>), which the command \<^verbatim>\<open>cmd/openapi\<close> calls. The document that is
  exported is shown to be the one the running application serves.
\<close>

subsection \<open>The analytics WebSocket\<close>

text \<open>
  What the select statement of the connection sees: a frame of the hub, with what \<^verbatim>\<open>json.Marshal\<close> gives
  for it and whether writing it fails; the end of the hub's channel; the end of the request.
\<close>

datatype analytics_event = HubFrame "string result" "go_error option" | HubClosed | RequestDone

datatype ws_event = WsAccepted | WsSubscribed string | WsText string | WsUnsubscribed string | WsClosed

fun analytics_loop :: "analytics_event list \<Rightarrow> ws_event list \<times> bool" where
  "analytics_loop [] = ([], False)"
| "analytics_loop (RequestDone # es) = ([], True)"
| "analytics_loop (HubClosed # es) = ([], True)"
| "analytics_loop (HubFrame (Inl merr) w # es) = analytics_loop es"
| "analytics_loop (HubFrame (Inr data) (Some werr) # es) = ([], True)"
| "analytics_loop (HubFrame (Inr data) None # es) = (let (sent, ended) = analytics_loop es in (WsText data # sent, ended))"

text \<open>The log of a connection; the deferred calls run when the loop has ended.\<close>

definition wsAnalytics ::
  "'ix HTTPHandler \<Rightarrow> http_request \<Rightarrow> go_error option \<Rightarrow> analytics_event list \<Rightarrow> (ws_event list \<times> bool) reply" where
  "wsAnalytics h r accept es =
    (if \<not> hh_analyticsHub h then Inl (503, ''analytics not enabled'')
     else case parseWSCameraID (rq_Query r ''cameraId'') of
       Inl err \<Rightarrow> writeProblem 400 (error_string err)
     | Inr cameraID \<Rightarrow>
         (case accept of
            Some err \<Rightarrow> Inr ([], True)
          | None \<Rightarrow>
              let (sent, ended) = analytics_loop es
              in Inr ([WsAccepted, WsSubscribed cameraID] @ sent @ (if ended then [WsUnsubscribed cameraID, WsClosed] else []), ended)))"

subsection \<open>The embedded user interface\<close>

text \<open>The files of \<^verbatim>\<open>ui/dist\<close> are given by what \<^verbatim>\<open>fs.Stat\<close> finds; the file server is asked for a path.\<close>

definition uiAvailable :: "(string \<Rightarrow> bool) \<Rightarrow> bool" where
  "uiAvailable uiFS \<longleftrightarrow> uiFS ''index.html''"

definition spaHandler :: "(string \<Rightarrow> bool) \<Rightarrow> string \<Rightarrow> string" where
  "spaHandler uiFS urlPath =
    (let path = (if has_prefix urlPath ''/'' then tl urlPath else urlPath);
         path = (if path = [] then ''index.html'' else path)
     in if uiFS path then urlPath else ''/'')"

subsection \<open>Health and metrics\<close>

definition humaHealth :: "'ix http_env \<Rightarrow> 'ix HTTPHandler \<Rightarrow> HealthSnapshot reply" where
  "humaHealth env h = Inr (collectHealth env h)"

text \<open>The answer of the metrics store is an argument; the handler adds the uptime, in whole seconds, and the relays.\<close>

record 'm MetricsResponse =
  mr_stored :: 'm
  mr_Uptime :: duration
  mr_Relays :: "relay_metrics list"

definition humaMetrics ::
  "(duration \<Rightarrow> 'm result) \<Rightarrow> instant \<Rightarrow> relay_info list \<Rightarrow> Collector \<Rightarrow> string \<Rightarrow> 'm MetricsResponse reply" where
  "humaMetrics query now relays c since =
    (case query (metrics_since since) of
       Inl err \<Rightarrow> Inl (500, error_string err)
     | Inr resp \<Rightarrow> Inr \<lparr>mr_stored = resp, mr_Uptime = duration_Round (Uptime now c) Second, mr_Relays = RelayMetrics now relays\<rparr>)"

subsection \<open>Writers\<close>

text \<open>A writer of the standard library or the SDK is its state with the function that writes to or closes it.\<close>

definition flushWriter_Write ::
  "(string \<Rightarrow> 'w \<Rightarrow> (int \<times> go_error option) \<times> 'w) \<Rightarrow> ('w \<Rightarrow> 'w) option \<Rightarrow> string \<Rightarrow> 'w \<Rightarrow> (int \<times> go_error option) \<times> 'w" where
  "flushWriter_Write write flusher p w =
    (let (res, w) = write p w in (res, case flusher of Some f \<Rightarrow> f w | None \<Rightarrow> w))"

definition notifyMuxer_Close ::
  "('w \<Rightarrow> go_error option \<times> 'w) \<Rightarrow> ('w \<Rightarrow> 'w) option \<Rightarrow> 'w \<Rightarrow> go_error option \<times> 'w" where
  "notifyMuxer_Close close onClose m =
    (let (err, m) = close m in (err, case onClose of Some f \<Rightarrow> f m | None \<Rightarrow> m))"

definition cancelWriter_Close ::
  "('w \<Rightarrow> go_error option \<times> 'w) \<Rightarrow> ('w \<Rightarrow> 'w) \<Rightarrow> 'w \<Rightarrow> go_error option \<times> 'w" where
  "cancelWriter_Close close cancel w = (let (err, w) = close w in (err, cancel w))"

datatype 'w frame_writer = Writer 'w | ErrWriteCloser go_error

definition mustWriter :: "'w result \<Rightarrow> 'w frame_writer" where
  "mustWriter r = (case r of Inl err \<Rightarrow> ErrWriteCloser err | Inr w \<Rightarrow> Writer w)"

definition errWriteCloser_Write :: "go_error \<Rightarrow> string \<Rightarrow> int \<times> go_error option" where
  "errWriteCloser_Write e p = (0, Some e)"

text \<open>An error is sent when the buffered channel has room and dropped otherwise.\<close>

definition trySendErr :: "nat \<Rightarrow> go_error list \<Rightarrow> go_error \<Rightarrow> go_error list" where
  "trySendErr capacity ch err = (if length ch < capacity then ch @ [err] else ch)"

text \<open>
  The status recorder keeps the last status that a handler wrote and passes every one on; the middleware
  adds one sample per request to the metrics store.
\<close>

record statusRecorder =
  sr_code :: int
  sr_written :: "int list"

definition statusRecorder_WriteHeader :: "int \<Rightarrow> statusRecorder \<Rightarrow> statusRecorder" where
  "statusRecorder_WriteHeader code r = r\<lparr>sr_code := code, sr_written := sr_written r @ [code]\<rparr>"

definition recorded_request ::
  "(statusRecorder \<Rightarrow> statusRecorder) \<Rightarrow> duration \<Rightarrow> string \<Rightarrow> string \<Rightarrow> metrics_store \<Rightarrow> statusRecorder \<times> metrics_store" where
  "recorded_request handle took method path st =
    (let rec = handle \<lparr>sr_code = 200, sr_written = []\<rparr>
     in (rec, RecordAPIResponse took method path (sr_code rec) st))"

lemma recorded_request_transparent:
  assumes "handle = fold statusRecorder_WriteHeader codes" "recorded_request handle took method path st = (rec, st')"
  shows "sr_written rec = codes \<and> sr_code rec = (if codes = [] then 200 else last codes)
    \<and> st' = st @ [Latency ''api_response_ms'' took [(''method'', method), (''path'', path)]]"
proof -
  have "sr_written (fold statusRecorder_WriteHeader codes r) = sr_written r @ codes"
    "sr_code (fold statusRecorder_WriteHeader codes r) = (if codes = [] then sr_code r else last codes)" for r
    by (induction codes arbitrary: r) (simp_all add: statusRecorder_WriteHeader_def)
  then show ?thesis using assms by (auto simp: recorded_request_def RecordAPIResponse_def RecordLatency_def Let_def)
qed

subsection \<open>Exporting the API document\<close>

definition errOpenAPIOutputDir :: go_error where
  "errOpenAPIOutputDir = ErrorString ''openapi output directory is required''"

record doc_encoder =
  de_JSON :: "Operation list \<Rightarrow> string result"
  de_YAML :: "Operation list \<Rightarrow> string result"

definition handler_ExportOpenAPI ::
  "doc_encoder \<Rightarrow> os_env \<Rightarrow> route list \<Rightarrow> bool \<Rightarrow> 'ix HTTPHandler \<Rightarrow> string \<Rightarrow> disk \<Rightarrow> go_error option \<times> disk" where
  "handler_ExportOpenAPI enc env builtin ui h outputDir dk =
    (if outputDir = [] then (Some errOpenAPIOutputDir, dk)
     else case os_MkdirAll env outputDir dk of
       (Some err, dk) \<Rightarrow> (Some err, dk)
     | (None, dk) \<Rightarrow>
         (case de_JSON enc (OpenAPI builtin ui h) of
            Inl err \<Rightarrow> (Some err, dk)
          | Inr jsonSpec \<Rightarrow>
              (case de_YAML enc (OpenAPI builtin ui h) of
                 Inl err \<Rightarrow> (Some err, dk)
               | Inr yamlSpec \<Rightarrow>
                   (case os_WriteFile env (path_Join outputDir ''openapi.json'') jsonSpec dk of
                      (Some err, dk) \<Rightarrow> (Some err, dk)
                    | (None, dk) \<Rightarrow> os_WriteFile env (path_Join outputDir ''openapi.yaml'') yamlSpec dk))))"

text \<open>
  The stubs that the export gives the handler: a relay hub without relays that refuses consumers, a
  segment counter at zero, and a channel store that stays empty. The error for a missing channel is the
  SDK's, an argument.
\<close>

record relay_hub_stub =
  oh_GetRelayStats :: "relayStats list"
  oh_GetRelayStatsByID :: "string \<Rightarrow> relayStats option"
  oh_ListRelayIDs :: "string list"
  oh_GetActiveRelayCount :: int
  oh_Consume :: "string \<Rightarrow> go_error option"
  oh_PauseRelay :: "string \<Rightarrow> go_error option"
  oh_ResumeRelay :: "string \<Rightarrow> go_error option"
  oh_Start :: "go_error option"
  oh_SignalStop :: bool
  oh_WaitStop :: "go_error option"
  oh_Stop :: "go_error option"

definition errOpenAPIRelayConsume :: go_error where
  "errOpenAPIRelayConsume = ErrorString ''openapi relay stub does not support consumption''"

definition openAPIRelayHub :: relay_hub_stub where
  "openAPIRelayHub = \<lparr>oh_GetRelayStats = [], oh_GetRelayStatsByID = (\<lambda>_. None), oh_ListRelayIDs = [], oh_GetActiveRelayCount = 0,
     oh_Consume = (\<lambda>_. Some errOpenAPIRelayConsume), oh_PauseRelay = (\<lambda>_. None), oh_ResumeRelay = (\<lambda>_. None), oh_Start = None,
     oh_SignalStop = True, oh_WaitStop = None, oh_Stop = None\<rparr>"

definition openAPISegmentCounter :: int where "openAPISegmentCounter = 0"

definition openAPIChannelWriter :: "go_error \<Rightarrow> unit ChannelWriter" where
  "openAPIChannelWriter notFound = \<lparr>cw_GetChannel = (\<lambda>i p. Inl notFound), cw_ListChannels = (\<lambda>p. Inr []),
     cw_SaveChannel = (\<lambda>ch p. (None, p)), cw_DeleteChannel = (\<lambda>i p. (None, p))\<rparr>"

text \<open>
  The export of the edge application: a handler over stubs, with everything enabled. The stubs answer
  nothing and are never asked; the temporary folder is removed again, so only its creation can matter.
\<close>

definition openapi_handler :: "instant \<Rightarrow> sqliteIndex HTTPHandler" where
  "openapi_handler now =
    (let svc = NewService None False [WithChannelWriter]
     in NewHTTPHandler svc [] now [WithSegmentCounter openAPISegmentCounter, HTTPHandlerOption.WithMetricsCollector, WithAnalyticsHub, WithAnalyticsReader])"

definition edge_ExportOpenAPI ::
  "doc_encoder \<Rightarrow> os_env \<Rightarrow> route list \<Rightarrow> bool \<Rightarrow> go_error option \<Rightarrow> go_error option \<Rightarrow> instant \<Rightarrow> string \<Rightarrow> disk
     \<Rightarrow> go_error option \<times> disk" where
  "edge_ExportOpenAPI enc env builtin ui mkdirTemp metricsNew now outputDir dk =
    (case mkdirTemp of
       Some err \<Rightarrow> (Some err, dk)
     | None \<Rightarrow>
         (case metricsNew of
            Some err \<Rightarrow> (Some err, dk)
          | None \<Rightarrow> handler_ExportOpenAPI enc env builtin ui (openapi_handler now) outputDir dk))"

subsection \<open>What a connection forwards\<close>

text \<open>The events up to the one that ends the connection.\<close>

fun ends :: "analytics_event \<Rightarrow> bool" where
  "ends (HubFrame (Inr data) (Some werr)) \<longleftrightarrow> True"
| "ends (HubFrame _ _) \<longleftrightarrow> False"
| "ends _ \<longleftrightarrow> True"

fun frame_text :: "analytics_event \<Rightarrow> string option" where
  "frame_text (HubFrame (Inr data) _) = Some data"
| "frame_text _ = None"

fun ws_text :: "ws_event \<Rightarrow> string option" where
  "ws_text (WsText d) = Some d"
| "ws_text _ = None"

lemma analytics_loop_spec:
  "analytics_loop es = (map WsText (List.map_filter frame_text (takeWhile (\<lambda>e. \<not> ends e) es)), list_ex ends es)"
  by (induction es rule: analytics_loop.induct) (simp_all add: map_filter_simps)

text \<open>
  C32: the analytics WebSocket forwards what the hub delivers and leaves nothing behind. With a hub and
  a camera, an accepted connection is subscribed to that camera, sends the frames that can be encoded,
  each once and in the order of the hub, up to the first failed write, the end of the hub's channel or the
  end of the request; when it ends it has been unsubscribed and closed exactly once, as the last two
  things it does.
\<close>

theorem wsAnalytics_forwards:
  assumes "hh_analyticsHub h" "rq_Query r ''cameraId'' = cam" "cam \<noteq> []"
  shows "\<exists>log ended. wsAnalytics h r None es = Inr (log, ended)
    \<and> List.map_filter ws_text log = List.map_filter frame_text (takeWhile (\<lambda>e. \<not> ends e) es)
    \<and> take 2 log = [WsAccepted, WsSubscribed cam] \<and> (ended \<longleftrightarrow> (\<exists>e \<in> set es. ends e))
    \<and> count_list log (WsUnsubscribed cam) = (if ended then 1 else 0) \<and> count_list log WsClosed = (if ended then 1 else 0)
    \<and> (ended \<longrightarrow> drop (length log - 2) log = [WsUnsubscribed cam, WsClosed])"
proof -
  define sent where "sent = List.map_filter frame_text (takeWhile (\<lambda>e. \<not> ends e) es)"
  define ended where "ended = list_ex ends es"
  define log where "log = [WsAccepted, WsSubscribed cam] @ map WsText sent @ (if ended then [WsUnsubscribed cam, WsClosed] else [])"
  have run: "wsAnalytics h r None es = Inr (log, ended)"
    using assms by (simp add: wsAnalytics_def parseWSCameraID_def analytics_loop_spec sent_def ended_def log_def)
  have none: "count_list (map WsText xs) (WsUnsubscribed cam) = 0" "count_list (map WsText xs) WsClosed = 0" for xs
    by (induction xs) simp_all
  have texts: "List.map_filter ws_text (map WsText xs @ ys) = xs @ List.map_filter ws_text ys" for xs ys
    by (induction xs) (simp_all add: map_filter_simps)
  have counts: "count_list log (WsUnsubscribed cam) = (if ended then 1 else 0)" "count_list log WsClosed = (if ended then 1 else 0)"
    by (simp_all add: log_def none)
  have "List.map_filter ws_text log = sent" by (simp add: log_def texts map_filter_simps)
  moreover have "ended \<longleftrightarrow> (\<exists>e \<in> set es. ends e)" by (simp add: ended_def list_ex_iff)
  moreover have "take 2 log = [WsAccepted, WsSubscribed cam]" "ended \<longrightarrow> drop (length log - 2) log = [WsUnsubscribed cam, WsClosed]"
    by (simp_all add: log_def)
  ultimately show ?thesis unfolding sent_def [symmetric] using run counts by blast
qed

lemma wsAnalytics_forwards_witness:
  "\<exists>log. wsAnalytics (handler1\<lparr>hh_analyticsHub := True\<rparr>) \<lparr>rq_Path = ''/api/cameras/ws/analytics'', rq_Header = (\<lambda>_. []), rq_Query = (\<lambda>_. ''c'')\<rparr> None
       [HubFrame (Inr ''a'') None, HubFrame (Inl errInvalidTimeRange) None, HubFrame (Inr ''b'') None, HubClosed] = Inr (log, True)
     \<and> List.map_filter ws_text log = [''a'', ''b'']"
  using wsAnalytics_forwards [of "handler1\<lparr>hh_analyticsHub := True\<rparr>"
      "\<lparr>rq_Path = ''/api/cameras/ws/analytics'', rq_Header = (\<lambda>_. []), rq_Query = (\<lambda>_. ''c'')\<rparr>" "''c''"
      "[HubFrame (Inr ''a'') None, HubFrame (Inl errInvalidTimeRange) None, HubFrame (Inr ''b'') None, HubClosed]"]
  by (simp add: map_filter_simps) metis

subsection \<open>The document that is exported\<close>

lemma docs_cong:
  assumes "rt_docs r = rt_docs r'"
  shows "rt_docs (registerCameraViewOps r) = rt_docs (registerCameraViewOps r')"
    "hh_collector h = hh_collector h' \<Longrightarrow> rt_docs (registerStatsOps h r) = rt_docs (registerStatsOps h' r')"
    "rt_docs (registerHealthOps r) = rt_docs (registerHealthOps r')"
    "rt_docs (registerAnalyticsOps r) = rt_docs (registerAnalyticsOps r')"
    "sv_chanW (hh_svc h) = sv_chanW (hh_svc h') \<Longrightarrow> rt_docs (registerCameraOps h r) = rt_docs (registerCameraOps h' r')"
    "sv_chanW (hh_svc h) = sv_chanW (hh_svc h') \<Longrightarrow> rt_docs (registerCameraCSVDocs h r) = rt_docs (registerCameraCSVDocs h' r')"
    "hh_analyticsHub h = hh_analyticsHub h' \<Longrightarrow> rt_docs (registerStreamingDocs h r) = rt_docs (registerStreamingDocs h' r')"
  by (simp_all add: registerCameraViewOps_def registerStatsOps_def registerHealthOps_def registerAnalyticsOps_def
      registerCameraOps_def registerCameraCSVDocs_def registerStreamingDocs_def Let_def assms)

lemma JSON_docs_cong:
  assumes "hh_collector h = hh_collector h'" "hh_analyticsReader h = hh_analyticsReader h'" "rt_docs r = rt_docs r'"
  shows "rt_docs (registerJSONOps h r) = rt_docs (registerJSONOps h' r')"
proof -
  note stats = docs_cong(3) [OF docs_cong(2) [OF docs_cong(1) [OF assms(3)] assms(1)]]
  show ?thesis unfolding registerJSONOps_def Let_def assms(2) if_distrib [of rt_docs] by (rule if_cong [OF refl docs_cong(4) [OF stats] stats])
qed

text \<open>The document depends only on which parts the handler has.\<close>

lemma OpenAPI_cong:
  fixes h h' :: "'ix HTTPHandler"
  assumes "hh_collector h = hh_collector h'" "hh_analyticsReader h = hh_analyticsReader h'"
    "sv_chanW (hh_svc h) = sv_chanW (hh_svc h')" "hh_analyticsHub h = hh_analyticsHub h'"
  shows "OpenAPI builtin ui h = OpenAPI builtin' ui' h'"
proof -
  define base :: "route list \<Rightarrow> bool \<Rightarrow> router" where "base b c =
    (let r = Use AuthMiddleware (Use RealIP (Use Recoverer \<lparr>rt_middleware = [], rt_routes = [], rt_docs = [], rt_spa = False\<rparr>));
         r = (if c then Use ChiMetrics r else r) in r\<lparr>rt_routes := rt_routes r @ b\<rparr>)" for b c
  have upd: "rt_docs (r\<lparr>rt_spa := s\<rparr>) = rt_docs r" "rt_docs (r\<lparr>rt_routes := x\<rparr>) = rt_docs r" for r s x by simp_all
  have base: "rt_docs (base b c) = rt_docs (base b' c')" for b b' c c'
    by (cases c; cases c'; simp only: base_def Let_def if_True if_False upd router_simps)
  have docs: "rt_docs (newRouter b u g) = rt_docs (registerStreamingDocs g (registerCameraCSVDocs g (registerCameraCSVRoutes g
      (registerCameraOps g (registerJSONOps g (base b (hh_collector g)))))))" for b u and g :: "'ix HTTPHandler"
    by (cases u; simp only: newRouter_def base_def Let_def if_True if_False upd router_simps)
  note csv = docs_cong(5) [OF JSON_docs_cong [OF assms(1,2) base] assms(3)]
  show ?thesis unfolding OpenAPI_def docs
    by (rule docs_cong(7) [OF docs_cong(6) [OF _ assms(3)] assms(4)]) (simp only: register_no_routes(3) csv)
qed

lemma fold_chanW: "sv_chanW (register_channels chs s) = sv_chanW s"
  by (induction chs arbitrary: s) (simp_all add: register_channels_def RegisterCamera_def)

lemma boot_service_chanW: "sv_chanW (boot_service env p rm)"
  by (simp add: boot_service_def NewService_def SetAnalyticsRelayHub_def fold_chanW Let_def split: sum.split)

lemma app_handler_parts:
  assumes "Run env cfg = (None, evs, Some app)"
  shows "hh_collector (ea_handler app) \<longleftrightarrow> ae_metrics_New env = None" "hh_analyticsReader (ea_handler app)"
    "hh_analyticsHub (ea_handler app)" "sv_chanW (hh_svc (ea_handler app))"
proof -
  obtain c p su where "start_services env c p su = (None, evs, Some app)" using Run_stages [of env cfg] assms by auto
  then show "hh_collector (ea_handler app) \<longleftrightarrow> ae_metrics_New env = None" "hh_analyticsReader (ea_handler app)"
    "hh_analyticsHub (ea_handler app)" "sv_chanW (hh_svc (ea_handler app))"
    by (cases "ae_sm_Start env"; cases "ae_hub_Start env"; cases "ae_metrics_New env"; cases "ae_Listen env";
        auto simp: start_services_def serve_def NewHTTPHandler_def boot_service_chanW Let_def)+
qed

lemma openapi_handler_parts:
  "hh_collector (openapi_handler now)" "hh_analyticsReader (openapi_handler now)" "hh_analyticsHub (openapi_handler now)"
  "sv_chanW (hh_svc (openapi_handler now))"
  by (simp_all add: openapi_handler_def NewHTTPHandler_def NewService_def)

lemma os_WriteFile_ok: "os_WriteFile env p s dk = (None, dk') \<Longrightarrow> dk_files dk' = (dk_files dk)(p \<mapsto> s)"
  by (auto simp: os_WriteFile_def split: option.splits prod.splits if_splits)

lemma handler_ExportOpenAPI_ok:
  assumes "handler_ExportOpenAPI enc env builtin ui h dir dk = (None, dk')"
  obtains json yaml where "de_JSON enc (OpenAPI builtin ui h) = Inr json" "de_YAML enc (OpenAPI builtin ui h) = Inr yaml"
    "dk_files dk' (path_Join dir ''openapi.json'') = Some json" "dk_files dk' (path_Join dir ''openapi.yaml'') = Some yaml"
proof -
  obtain json yaml dk1 dk2 where "de_JSON enc (OpenAPI builtin ui h) = Inr json" "de_YAML enc (OpenAPI builtin ui h) = Inr yaml"
    and w: "os_WriteFile env (path_Join dir ''openapi.json'') json dk1 = (None, dk2)"
      "os_WriteFile env (path_Join dir ''openapi.yaml'') yaml dk2 = (None, dk')"
    using assms by (auto simp: handler_ExportOpenAPI_def split: if_splits prod.splits option.splits sum.splits)
  moreover have "path_Join dir ''openapi.json'' \<noteq> path_Join dir ''openapi.yaml''" by (simp add: path_Join_def)
  ultimately show thesis using that os_WriteFile_ok [OF w(1)] os_WriteFile_ok [OF w(2)] by simp
qed

text \<open>
  The exported document is the document of the application. When the export succeeds, the two files
  hold the encodings of the document of a handler over stubs. Every application that runs with its metrics
  store serves exactly this document, whatever its configuration, cameras and built-in routes; one
  that runs without the store, which is allowed, serves all of it but the metrics operation.
\<close>

theorem exported_document:
  assumes "edge_ExportOpenAPI enc env builtin ui None None now dir dk = (None, dk')" "Run aenv cfg = (None, evs, Some app)"
  shows "\<exists>doc json yaml. de_JSON enc doc = Inr json \<and> de_YAML enc doc = Inr yaml
    \<and> dk_files dk' (path_Join dir ''openapi.json'') = Some json \<and> dk_files dk' (path_Join dir ''openapi.yaml'') = Some yaml
    \<and> (ae_metrics_New aenv = None \<longrightarrow> OpenAPI builtin' ui' (ea_handler app) = doc)
    \<and> (ae_metrics_New aenv \<noteq> None \<longrightarrow>
         map op_OperationID (OpenAPI builtin' ui' (ea_handler app)) = filter (\<lambda>i. i \<noteq> ''getMetrics'') (map op_OperationID doc))"
proof -
  note app = app_handler_parts [OF assms(2)] and stub = openapi_handler_parts [of now]
  obtain json yaml where files: "de_JSON enc (OpenAPI builtin ui (openapi_handler now)) = Inr json"
    "de_YAML enc (OpenAPI builtin ui (openapi_handler now)) = Inr yaml"
    "dk_files dk' (path_Join dir ''openapi.json'') = Some json" "dk_files dk' (path_Join dir ''openapi.yaml'') = Some yaml"
    using assms(1) by (auto simp: edge_ExportOpenAPI_def elim: handler_ExportOpenAPI_ok)
  have "OpenAPI builtin' ui' (ea_handler app) = OpenAPI builtin ui (openapi_handler now)" if "ae_metrics_New aenv = None"
    by (rule OpenAPI_cong) (use app stub that in simp_all)
  moreover have ids: "map op_OperationID ops = map fst (map doc_key ops)" for ops by (simp add: doc_key_def)
  have "map fst (own_docs False True True True) = filter (\<lambda>i. i \<noteq> ''getMetrics'') (map fst (own_docs True True True True))" by code_simp
  then have "map op_OperationID (OpenAPI builtin' ui' (ea_handler app)) =
      filter (\<lambda>i. i \<noteq> ''getMetrics'') (map op_OperationID (OpenAPI builtin ui (openapi_handler now)))" if "ae_metrics_New aenv \<noteq> None"
    unfolding ids newRouter_docs using app stub that by simp
  ultimately show ?thesis using files by (intro exI [of _ "OpenAPI builtin ui (openapi_handler now)"] exI [of _ json] exI [of _ yaml]) simp
qed

definition encoder0 :: doc_encoder where
  "encoder0 = \<lparr>de_JSON = (\<lambda>_. Inr ''{}''), de_YAML = (\<lambda>_. Inr ''--'')\<rparr>"

lemma exported_document_witness:
  "\<exists>dk' evs app. edge_ExportOpenAPI encoder0 os_env0 [] True None None 0 ''docs'' disk0 = (None, dk')
     \<and> Run app_env0 config0 = (None, evs, Some app) \<and> dk_files dk' ''docs/openapi.json'' = Some ''{}''
     \<and> dk_files dk' ''docs/openapi.yaml'' = Some ''--''"
proof -
  obtain dk' where ex: "edge_ExportOpenAPI encoder0 os_env0 [] True None None 0 ''docs'' disk0 = (None, dk')"
    by (simp add: edge_ExportOpenAPI_def handler_ExportOpenAPI_def encoder0_def os_env0_def os_MkdirAll_def os_WriteFile_def
        path_Join_def path_Dir_def path_chain_def)
  obtain evs app where run: "Run app_env0 config0 = (None, evs, Some app)" using run0 by blast
  show ?thesis using exported_document [OF ex run] ex run by (simp add: encoder0_def path_Join_def)
qed

subsection \<open>The user interface behind the router\<close>

text \<open>
  The file server is only ever asked for a file that exists or for the start page, so a path without a
  route and without a file shows the application, below \<^verbatim>\<open>/api/\<close> too: an unknown API path is answered with the
  start page and not as missing.
\<close>

lemma spaHandler_asks: "spaHandler uiFS p = ''/'' \<or> (spaHandler uiFS p = p \<and> uiFS (if p = ''/'' then ''index.html'' else tl p)) \<or> \<not> has_prefix p ''/''"
  by (cases p) (auto simp: spaHandler_def Let_def has_prefix_def)

lemma unknown_path_shows_ui:
  assumes "chi (rt_routes (newRouter builtin (uiAvailable uiFS) h)) m (rq_Path rq) = None" "uiAvailable uiFS"
    and "\<not> uiFS (tl (rq_Path rq))" "has_prefix (rq_Path rq) ''/api/''"
  shows "route_dispatch chi (newRouter builtin (uiAvailable uiFS) h) m rq = ServedSPA \<and> spaHandler uiFS (rq_Path rq) = ''/''"
proof -
  obtain c p where p: "rq_Path rq = CHR ''/'' # c # p" using assms(4) by (cases "rq_Path rq"; cases "tl (rq_Path rq)") (auto simp: has_prefix_def)
  have "rt_spa (newRouter builtin True h)" by (simp add: newRouter_def Let_def)
  then show ?thesis using assms p by (auto simp: route_dispatch_def spaHandler_def has_prefix_def Let_def)
qed

end
