(* ===== verification/Load_Test.thy ===== *)
theory Load_Test
  imports Http_Api Go_Format "HOL-Library.Multiset"
begin

text \<open>
  The load test tool, \<^verbatim>\<open>src/cmd/loadtest\<close>: the statistics of \<^verbatim>\<open>report.go\<close>, the runs of \<^verbatim>\<open>api.go\<close>,
  \<^verbatim>\<open>timeline.go\<close>, \<^verbatim>\<open>burst.go\<close>, \<^verbatim>\<open>stream.go\<close> and \<^verbatim>\<open>playback.go\<close>, and the gap analysis of \<^verbatim>\<open>recording.go\<close>. The
  network is a parameter, a function from a URL to what the request gives. The clients run concurrently
  and only add to shared counters and a list under a mutex; a run is the list of their requests in an
  order in which they are counted. Floating point is exact arithmetic rounded by a parameter, a
  function from rationals to rationals. An index out of range is a panic, the value \<open>None\<close>.
\<close>

subsection \<open>Statistics\<close>

record LatencyStats =
  ls_P50 :: duration
  ls_P95 :: duration
  ls_P99 :: duration
  ls_Max :: duration
  ls_Avg :: duration

record TestResult =
  tr_TestName :: string
  tr_Duration :: duration
  tr_Clients :: int
  tr_Requests :: int
  tr_Errors :: int
  tr_Latencies :: LatencyStats
  tr_Throughput :: float64

definition index_at :: "'a list \<Rightarrow> int \<Rightarrow> 'a option" where
  "index_at xs i = (if 0 \<le> i \<and> i < int (length xs) then Some (xs ! nat i) else None)"

definition durationPercentile :: "(rat \<Rightarrow> rat) \<Rightarrow> duration list \<Rightarrow> rat \<Rightarrow> duration option" where
  "durationPercentile fl ds p =
    (let idx = fl (fl p * fl (of_int (int (length ds) - 1)));
         lower = \<lfloor>idx\<rfloor>; upper = \<lceil>idx\<rceil>
     in if lower = upper \<or> upper \<ge> int (length ds) then index_at ds lower
        else (case (index_at ds lower, index_at ds upper) of
                (Some a, Some b) \<Rightarrow>
                  let frac = fl (idx - fl (of_int lower))
                  in Some (int64_of_float (fl (fl (fl (of_int a) * fl (1 - frac)) + fl (fl (of_int b) * frac))))
              | _ \<Rightarrow> None))"

definition computeLatencyStats :: "(rat \<Rightarrow> rat) \<Rightarrow> duration list \<Rightarrow> LatencyStats option" where
  "computeLatencyStats fl durations =
    (if durations = [] then Some \<lparr>ls_P50 = 0, ls_P95 = 0, ls_P99 = 0, ls_Max = 0, ls_Avg = 0\<rparr>
     else let durations = sort durations;
              sum = foldl (\<lambda>sum d. wrap64 (sum + d)) 0 durations
          in case (durationPercentile fl durations (1 / 2), durationPercentile fl durations (95 / 100),
                   durationPercentile fl durations (99 / 100)) of
               (Some p50, Some p95, Some p99) \<Rightarrow>
                 Some \<lparr>ls_P50 = p50, ls_P95 = p95, ls_P99 = p99, ls_Max = durations ! (length durations - 1),
                       ls_Avg = sum sdiv int (length durations)\<rparr>
             | _ \<Rightarrow> None)"

text \<open>The error rate that is printed, in per cent.\<close>

definition errorRate :: "(rat \<Rightarrow> rat) \<Rightarrow> TestResult \<Rightarrow> rat" where
  "errorRate fl r =
    (if tr_Requests r > 0 then fl (fl (fl (of_int (tr_Errors r)) / fl (of_int (tr_Requests r))) * 100) else 0)"

subsection \<open>Flags and requests\<close>

record load_flags =
  lf_target :: string
  lf_concurrency :: int
  lf_duration :: duration
  lf_outputJSON :: bool

text \<open>
  A request either fails or answers with a status after some time; the network maps a URL to what a
  request to it gives at that moment.
\<close>

type_synonym response = "go_error + (nat \<times> duration)"
type_synonym network = "string \<Rightarrow> response"

definition fmt_RFC3339 :: "instant \<Rightarrow> string" where
  "fmt_RFC3339 t = fmt_second t @ ''Z''"

definition stream_url :: "load_flags \<Rightarrow> string \<Rightarrow> string" where
  "stream_url fs cameraID = lf_target fs @ ''/api/cameras/'' @ cameraID @ ''/stream''"

definition playback_url :: "load_flags \<Rightarrow> string \<Rightarrow> instant \<Rightarrow> duration \<Rightarrow> string" where
  "playback_url fs cameraID now lookback =
    (let start = now - lookback
     in lf_target fs @ ''/api/cameras/'' @ cameraID @ ''/stream?start='' @ fmt_RFC3339 start @ ''&end='' @ fmt_RFC3339 now)"

definition recordings_url :: "load_flags \<Rightarrow> string \<Rightarrow> instant \<Rightarrow> duration \<Rightarrow> string" where
  "recordings_url fs cameraID now lookback =
    (let start = now - lookback
     in lf_target fs @ ''/api/cameras/'' @ cameraID @ ''/recordings?start='' @ fmt_RFC3339 start @ ''&end='' @ fmt_RFC3339 now)"

subsection \<open>Clients that repeat requests\<close>

text \<open>
  \<^verbatim>\<open>apiOnce\<close> and \<^verbatim>\<open>timelineOnce\<close> are the
  same code; \<^verbatim>\<open>burstOnce\<close> does not look at the status.
\<close>

definition apiOnce :: "response \<Rightarrow> duration \<times> go_error option" where
  "apiOnce resp =
    (case resp of
       Inl e \<Rightarrow> (0, Some e)
     | Inr (status, d) \<Rightarrow> if 400 \<le> status then (d, Some (ErrorString (''status '' @ dec status))) else (d, None))"

definition timelineOnce :: "response \<Rightarrow> duration \<times> go_error option" where
  "timelineOnce resp =
    (case resp of
       Inl e \<Rightarrow> (0, Some e)
     | Inr (status, d) \<Rightarrow> if 400 \<le> status then (d, Some (ErrorString (''status '' @ dec status))) else (d, None))"

definition burstOnce :: "response \<Rightarrow> duration \<times> go_error option" where
  "burstOnce resp = (case resp of Inl e \<Rightarrow> (0, Some e) | Inr (status, ttfb) \<Rightarrow> (ttfb, None))"

record tally =
  ta_latencies :: "duration list"
  ta_errorCount :: "32 word"
  ta_reqCount :: "32 word"

definition tally0 :: tally where
  "tally0 = \<lparr>ta_latencies = [], ta_errorCount = 0, ta_reqCount = 0\<rparr>"

definition count_request :: "duration \<times> go_error option \<Rightarrow> tally \<Rightarrow> tally" where
  "count_request r t =
    (let t = t\<lparr>ta_reqCount := ta_reqCount t + 1\<rparr> in
     case r of
       (d, Some e) \<Rightarrow> t\<lparr>ta_errorCount := ta_errorCount t + 1\<rparr>
     | (d, None) \<Rightarrow> t\<lparr>ta_latencies := ta_latencies t @ [d]\<rparr>)"

definition make_report ::
  "(rat \<Rightarrow> rat) \<Rightarrow> string \<Rightarrow> duration \<Rightarrow> int \<Rightarrow> int \<Rightarrow> int \<Rightarrow> duration list \<Rightarrow> float64 \<Rightarrow> TestResult option" where
  "make_report fl name d clients requests errs latencies throughput =
    (case computeLatencyStats fl latencies of
       None \<Rightarrow> None
     | Some stats \<Rightarrow>
         Some \<lparr>tr_TestName = name, tr_Duration = d, tr_Clients = clients, tr_Requests = requests, tr_Errors = errs,
           tr_Latencies = stats, tr_Throughput = throughput\<rparr>)"

text \<open>The report of a run that lasts for the time of the flag, with a throughput in requests per second.\<close>

definition timed_report :: "(rat \<Rightarrow> rat) \<Rightarrow> load_flags \<Rightarrow> string \<Rightarrow> tally \<Rightarrow> TestResult option" where
  "timed_report fl fs name t =
    make_report fl name (lf_duration fs) (lf_concurrency fs) (sint (ta_reqCount t)) (sint (ta_errorCount t)) (ta_latencies t)
      (float_div fl (fl (of_int (sint (ta_reqCount t)))) (duration_Seconds fl (lf_duration fs)))"

text \<open>A worker asks the endpoints in turn; taking the remainder by zero panics.\<close>

definition api_endpoint :: "string list \<Rightarrow> nat \<Rightarrow> string option" where
  "api_endpoint endpoints epIdx = (if endpoints = [] then None else Some (endpoints ! (epIdx mod length endpoints)))"

definition defaultEndpoints :: "string list" where
  "defaultEndpoints = [''/api/cameras'', ''/api/cameras/stats'', ''/api/cameras/stats/summary'', ''/health'', ''/api/metrics'']"

text \<open>A run of the workers: who asks next and the network at that time; each worker has its own index.\<close>

fun api_responses ::
  "string \<Rightarrow> string list \<Rightarrow> (nat \<Rightarrow> nat) \<Rightarrow> (nat \<times> network) list \<Rightarrow> response list option" where
  "api_responses target endpoints epIdx [] = Some []"
| "api_responses target endpoints epIdx ((w, net) # es) =
    (case api_endpoint endpoints (epIdx w) of
       None \<Rightarrow> None
     | Some ep \<Rightarrow>
       (case api_responses target endpoints (epIdx(w := epIdx w + 1)) es of
          None \<Rightarrow> None
        | Some rs \<Rightarrow> Some (net (target @ ep) # rs)))"

definition runAPITest :: "(rat \<Rightarrow> rat) \<Rightarrow> load_flags \<Rightarrow> string list \<Rightarrow> (nat \<times> network) list \<Rightarrow> TestResult option" where
  "runAPITest fl fs endpoints es =
    (case api_responses (lf_target fs) endpoints (\<lambda>w. 0) es of
       None \<Rightarrow> None
     | Some resps \<Rightarrow>
         timed_report fl fs (''API: '' @ dec (length endpoints) @ '' endpoints ('' @ itoa (lf_concurrency fs) @ '' clients)'')
           (foldl (\<lambda>t resp. count_request (apiOnce resp) t) tally0 resps))"

definition runTimelineTest ::
  "(rat \<Rightarrow> rat) \<Rightarrow> load_flags \<Rightarrow> instant \<Rightarrow> string \<Rightarrow> duration \<Rightarrow> network list \<Rightarrow> TestResult option" where
  "runTimelineTest fl fs now cameraID lookback es =
    (let url = recordings_url fs cameraID now lookback
     in timed_report fl fs (''Timeline: '' @ cameraID @ '' ('' @ itoa (lf_concurrency fs) @ '' clients)'')
          (foldl (\<lambda>t net. count_request (timelineOnce (net url)) t) tally0 es))"

text \<open>
  \<^verbatim>\<open>runBurstTest\<close> lets every client make the given number of cycles, and takes their product for the number
  of requests; the request counter of the tally is not used. The order of the cycles is the one of
  clients that run one after another: the report does not depend on it.
\<close>

definition runBurstTest ::
  "(rat \<Rightarrow> rat) \<Rightarrow> load_flags \<Rightarrow> string \<Rightarrow> int \<Rightarrow> duration \<Rightarrow> (nat \<Rightarrow> nat \<Rightarrow> network) \<Rightarrow> TestResult option" where
  "runBurstTest fl fs cameraID ncycles elapsed net =
    (let url = stream_url fs cameraID;
         resps = concat (map (\<lambda>i. map (\<lambda>j. net i j url) [0..<nat ncycles]) [0..<nat (lf_concurrency fs)]);
         t = foldl (\<lambda>t resp. count_request (burstOnce resp) t) tally0 resps;
         totalCycles = wrap64 (lf_concurrency fs * ncycles)
     in make_report fl
          (''Burst: '' @ cameraID @ '' ('' @ itoa (lf_concurrency fs) @ '' clients x '' @ itoa ncycles @ '' cycles)'')
          elapsed (lf_concurrency fs) totalCycles (sint (ta_errorCount t)) (ta_latencies t)
          (float_div fl (fl (of_int totalCycles)) (duration_Seconds fl elapsed)))"

subsection \<open>Clients that hold a stream\<close>

text \<open>A client: no answer, or the time to the first byte, the status, and the bytes of each read.\<close>

datatype stream_outcome = NoResponse go_error | Response duration nat "int list"

record stream_tally =
  sa_latencies :: "duration list"
  sa_totalBytes :: int
  sa_errorCount :: "32 word"

definition count_client :: "stream_outcome \<Rightarrow> stream_tally \<Rightarrow> stream_tally" where
  "count_client o' t =
    (case o' of
       NoResponse e \<Rightarrow> t\<lparr>sa_errorCount := sa_errorCount t + 1\<rparr>
     | Response ttfb status reads \<Rightarrow>
         let t = t\<lparr>sa_latencies := sa_latencies t @ [ttfb]\<rparr> in
         if status \<noteq> 200 then t\<lparr>sa_errorCount := sa_errorCount t + 1\<rparr>
         else t\<lparr>sa_totalBytes := foldl (\<lambda>b n. wrap64 (b + n)) (sa_totalBytes t) reads\<rparr>)"

definition stream_totals :: "stream_outcome list \<Rightarrow> stream_tally" where
  "stream_totals outs = fold count_client outs \<lparr>sa_latencies = [], sa_totalBytes = 0, sa_errorCount = 0\<rparr>"

text \<open>The outcomes of the clients are counted in some order; the throughput is in kilobytes per second.\<close>

definition clients_report ::
  "(rat \<Rightarrow> rat) \<Rightarrow> load_flags \<Rightarrow> string \<Rightarrow> (nat \<Rightarrow> stream_outcome) \<Rightarrow> TestResult option" where
  "clients_report fl fs name client =
    (let t = stream_totals (map client [0..<nat (lf_concurrency fs)])
     in make_report fl name (lf_duration fs) (lf_concurrency fs) (int (length (sa_latencies t))) (sint (sa_errorCount t))
          (sa_latencies t)
          (float_scale fl (float_div fl (fl (of_int (sa_totalBytes t))) (duration_Seconds fl (lf_duration fs))) 1024))"

definition runStreamTest ::
  "(rat \<Rightarrow> rat) \<Rightarrow> load_flags \<Rightarrow> string \<Rightarrow> (nat \<Rightarrow> string \<Rightarrow> stream_outcome) \<Rightarrow> TestResult option" where
  "runStreamTest fl fs cameraID net =
    clients_report fl fs (''Stream: '' @ cameraID @ '' ('' @ itoa (lf_concurrency fs) @ '' clients)'')
      (\<lambda>i. net i (stream_url fs cameraID))"

definition runPlaybackTest ::
  "(rat \<Rightarrow> rat) \<Rightarrow> load_flags \<Rightarrow> instant \<Rightarrow> string \<Rightarrow> duration \<Rightarrow> (nat \<Rightarrow> string \<Rightarrow> stream_outcome) \<Rightarrow> TestResult option" where
  "runPlaybackTest fl fs now cameraID lookback net =
    clients_report fl fs
      (''Playback: '' @ cameraID @ '' ('' @ itoa (lf_concurrency fs) @ '' clients, '' @ duration_String lookback @ '' lookback)'')
      (\<lambda>i. net i (playback_url fs cameraID now lookback))"

subsection \<open>Recording continuity\<close>

record timelineEntry =
  le_Start :: instant
  le_End :: instant
  le_DurationMs :: int

record gap_report =
  gr_segments :: nat
  gr_gapCount :: nat
  gr_maxGap :: duration
  gr_totalGap :: duration
  gr_recordedTime :: duration
  gr_uptimeRatio :: rat

text \<open>The loop over neighbouring entries.\<close>

fun gap_loop :: "timelineEntry list \<Rightarrow> nat \<times> duration \<times> duration \<Rightarrow> nat \<times> duration \<times> duration" where
  "gap_loop (e # e' # es) (gapCount, maxGap, totalGap) =
    (let gap = time_Sub (le_Start e') (le_End e) in
     gap_loop (e' # es)
       (if gap > 2 * Second then (gapCount + 1, if gap > maxGap then gap else maxGap, wrap64 (totalGap + gap))
        else (gapCount, maxGap, totalGap)))"
| "gap_loop es acc = acc"

definition analyze :: "(rat \<Rightarrow> rat) \<Rightarrow> timelineEntry list \<Rightarrow> duration \<Rightarrow> gap_report" where
  "analyze fl entries lookback =
    (let (gapCount, maxGap, totalGap) = gap_loop entries (0, 0, 0);
         recordedTime = foldl (\<lambda>r e. wrap64 (r + wrap64 (le_DurationMs e * Millisecond))) 0 entries
     in \<lparr>gr_segments = length entries, gr_gapCount = gapCount, gr_maxGap = maxGap, gr_totalGap = totalGap,
         gr_recordedTime = recordedTime,
         gr_uptimeRatio =
           (if lookback > 0 then fl (fl (fl (of_int recordedTime) / fl (of_int lookback)) * 100) else 0)\<rparr>)"

definition kpi_pass :: "(rat \<Rightarrow> rat) \<Rightarrow> gap_report \<Rightarrow> bool" where
  "kpi_pass fl g \<longleftrightarrow> gr_uptimeRatio g \<ge> fl (999 / 10)"

text \<open>
  The request: no answer, a body that cannot be read and a body that does not decode are errors; the
  status is not looked at, and a body without items has no entries.
\<close>

definition runRecordingTest ::
  "(rat \<Rightarrow> rat) \<Rightarrow> load_flags \<Rightarrow> instant \<Rightarrow> string \<Rightarrow> duration
     \<Rightarrow> (string \<Rightarrow> go_error + (nat \<times> timelineEntry list result result)) \<Rightarrow> gap_report result" where
  "runRecordingTest fl fs now cameraID lookback net =
    (case net (recordings_url fs cameraID now lookback) of
       Inl e \<Rightarrow> Inl (WrapError ''request failed: '' e [])
     | Inr (status, body) \<Rightarrow>
         (case body of
            Inl e \<Rightarrow> Inl (WrapError ''read body: '' e [])
          | Inr (Inl e) \<Rightarrow> Inl (WrapError ''parse response: '' e [])
          | Inr (Inr entries) \<Rightarrow> Inr (analyze fl entries lookback)))"

subsection \<open>Floating point\<close>

text \<open>
  What IEEE 754 double precision gives without overflow: rounding is monotone, keeps integers up to
  \<open>2 ^ 53\<close>, and has a relative error of \<open>2 ^ - 53\<close> or, near zero, an absolute one of \<open>2 ^ - 1074\<close>.
\<close>

definition float64_ok :: "(rat \<Rightarrow> rat) \<Rightarrow> bool" where
  "float64_ok fl \<longleftrightarrow> (\<forall>x y. x \<le> y \<longrightarrow> fl x \<le> fl y) \<and> (\<forall>i :: int. \<bar>i\<bar> \<le> 2 ^ 53 \<longrightarrow> fl (of_int i) = of_int i)
     \<and> (\<forall>x. \<bar>x\<bar> \<le> 2 ^ 1000 \<longrightarrow> \<bar>fl x - x\<bar> \<le> \<bar>x\<bar> / 2 ^ 53 + 1 / 2 ^ 1074)"

lemma float64_id: "float64_ok (\<lambda>x. x)"
  by (simp add: float64_ok_def)

lemma fl_int: "float64_ok fl \<Longrightarrow> \<bar>i\<bar> \<le> 2 ^ 53 \<Longrightarrow> fl (of_int i) = of_int i"
  by (simp add: float64_ok_def)

lemma fl_between:
  assumes "float64_ok fl" "of_int a \<le> x" "x \<le> of_int b" "\<bar>a\<bar> \<le> 2 ^ 53" "\<bar>b\<bar> \<le> 2 ^ 53"
  shows "of_int a \<le> fl x" "fl x \<le> of_int b"
  using assms fl_int [of fl a] fl_int [of fl b] unfolding float64_ok_def by metis+

text \<open>The two error terms, named so that arithmetic stays small.\<close>

definition ulp :: rat where "ulp = 1 / 2 ^ 53"
definition tiny :: rat where "tiny = 1 / 2 ^ 1074"

lemma tiny_bounds: "0 < tiny" "tiny \<le> ulp" "tiny \<le> 1 / 100"
proof -
  have "(2 :: rat) ^ 53 \<le> 2 ^ 1074" "(100 :: rat) \<le> 2 ^ 1074"
    using power_increasing [of 53 1074 "2 :: rat"] power_increasing [of 7 1074 "2 :: rat"] by simp_all
  then show "0 < tiny" "tiny \<le> ulp" "tiny \<le> 1 / 100" unfolding tiny_def ulp_def by (simp_all add: frac_le del: power_numeral)
qed

lemma fl_error:
  assumes "float64_ok fl" "\<bar>x\<bar> \<le> 2 ^ 52"
  shows "\<bar>fl x - x\<bar> \<le> \<bar>x\<bar> * ulp + tiny"
proof -
  have "\<bar>x\<bar> \<le> 2 ^ 1000" using assms(2) power_increasing [of 52 1000 "2 :: rat"] by simp
  then have "\<bar>fl x - x\<bar> \<le> \<bar>x\<bar> / 2 ^ 53 + 1 / 2 ^ 1074" using assms(1) by (simp only: float64_ok_def)
  then show ?thesis by (simp only: ulp_def tiny_def times_divide_eq_right mult_1_right)
qed

lemma ulp_bounds: "0 < ulp" "x \<le> 2 ^ 50 \<Longrightarrow> x * ulp \<le> 1 / 8" "x \<le> 2 ^ 51 \<Longrightarrow> x * ulp \<le> 1 / 4"
  by (simp_all add: ulp_def field_simps)

text \<open>An interpolation between two durations rounds to a duration between them, up to one nanosecond below.\<close>

lemma interpolation:
  assumes "float64_ok fl" "0 \<le> a" "a \<le> b" "b \<le> 2 ^ 50" "0 \<le> f" "f \<le> 1"
  defines "s \<equiv> fl (fl (of_int a * fl (1 - f)) + fl (of_int b * f))"
  shows "of_int a - 1 < s \<and> s < of_int b + 1"
proof -
  define g where "g = fl (1 - f)"
  define u where "u = fl (of_int a * g)"
  define v where "v = fl (of_int b * f)"
  let ?a = "of_int a :: rat" and ?b = "of_int b :: rat"
  have ab: "0 \<le> ?a" "?a \<le> ?b" "?b \<le> 2 ^ 50" "?a \<le> 2 ^ 50" "0 \<le> ?b"
    using assms(2-4) order.trans [OF assms(3,4)] order.trans [OF assms(2,3)] by simp_all
  have g: "0 \<le> g" "g \<le> 1" using fl_between [OF assms(1), of 0 "1 - f" 1] assms(5,6) by (simp_all add: g_def)
  have ag: "0 \<le> ?a * g" "?a * g \<le> ?a" using ab g by (simp_all add: mult_left_le)
  have bf: "0 \<le> ?b * f" "?b * f \<le> ?b" using ab assms(5,6) by (simp_all add: mult_left_le)
  have u: "0 \<le> u" "u \<le> ?a" using fl_between [OF assms(1), of 0 "?a * g" a] ag assms(2-4) by (simp_all add: u_def)
  have v: "0 \<le> v" "v \<le> ?b" using fl_between [OF assms(1), of 0 "?b * f" b] bf assms(2-4) by (simp_all add: v_def)
  have "\<bar>g - (1 - f)\<bar> \<le> \<bar>1 - f\<bar> * ulp + tiny" using fl_error [OF assms(1), of "1 - f"] assms(5,6) by (simp add: g_def)
  moreover have "\<bar>1 - f\<bar> * ulp \<le> ulp" using assms(5,6) ulp_bounds(1) by (simp add: mult_left_le_one_le)
  ultimately have "\<bar>g - (1 - f)\<bar> \<le> 2 * ulp" using tiny_bounds(2) by linarith
  then have "?a * \<bar>g - (1 - f)\<bar> \<le> ?a * (2 * ulp)" using ab(1) by (rule mult_left_mono)
  moreover have "?a * (2 * ulp) \<le> 1 / 4" using ulp_bounds(3) [of "2 * ?a"] ab(4) by simp
  ultimately have eg: "\<bar>?a * g - ?a * (1 - f)\<bar> \<le> 1 / 4"
    using ab(1) by (metis abs_mult abs_of_nonneg order.trans right_diff_distrib)
  have eu: "\<bar>u - ?a * g\<bar> \<le> 1 / 8 + 1 / 100"
    using fl_error [OF assms(1), of "?a * g"] ulp_bounds(2) [of "?a * g"] ag ab tiny_bounds(3) by (simp add: u_def)
  have ev: "\<bar>v - ?b * f\<bar> \<le> 1 / 8 + 1 / 100"
    using fl_error [OF assms(1), of "?b * f"] ulp_bounds(2) [of "?b * f"] bf ab tiny_bounds(3) by (simp add: v_def)
  have es: "\<bar>s - (u + v)\<bar> \<le> 1 / 4 + 1 / 100"
    using fl_error [OF assms(1), of "u + v"] ulp_bounds(3) [of "u + v"] u v ab tiny_bounds(3)
    by (simp add: s_def u_def v_def g_def)
  have "?a \<le> ?a * (1 - f) + ?b * f" "?a * (1 - f) + ?b * f \<le> ?b"
    using ab assms(5,6) mult_right_mono [OF ab(2) assms(5)] mult_right_mono [of ?a ?b "1 - f"] by (simp_all add: algebra_simps)
  then show ?thesis using eg eu ev es by linarith
qed

lemma int64_between:
  assumes "of_int a - 1 < s" "s < of_int b + 1" "0 \<le> a" "a \<le> b" "b \<le> 2 ^ 50"
  shows "a - 1 \<le> int64_of_float s \<and> int64_of_float s \<le> b"
proof -
  have "a - 1 \<le> trunc s \<and> trunc s \<le> b"
  proof (cases "0 \<le> s")
    case True
    then show ?thesis using assms(1,2) by (simp add: trunc_def) linarith
  next
    case False
    then have "a - 1 \<le> \<lceil>s\<rceil>" "\<lceil>s\<rceil> \<le> 0" using assms(1,2,3) by linarith+
    then have "a - 1 \<le> \<lceil>s\<rceil> \<and> \<lceil>s\<rceil> \<le> b" using assms(3,4) by linarith
    then show ?thesis using False by (simp only: trunc_def if_False)
  qed
  moreover from this have "fits64 (trunc s)" using assms(3,5) by (simp add: fits64_def)
  ultimately show ?thesis by (simp add: int64_of_float_def)
qed

lemma index_in_range: "0 \<le> i \<Longrightarrow> i < int (length xs) \<Longrightarrow> index_at xs i = Some (xs ! nat i)"
  by (simp add: index_at_def)

lemma durationPercentile_bounds:
  assumes "float64_ok fl" "xs \<noteq> []" "length xs \<le> 2 ^ 50" "sorted xs" "\<forall>x \<in> set xs. 0 \<le> x \<and> x \<le> 2 ^ 50" "0 \<le> p" "p \<le> 1"
  shows "\<exists>d. durationPercentile fl xs p = Some d \<and> hd xs - 1 \<le> d \<and> d \<le> last xs"
proof -
  let ?n = "int (length xs)"
  define idx where "idx = fl (fl p * fl (of_int (?n - 1)))"
  have n: "1 \<le> ?n" "?n - 1 \<le> 2 ^ 53" using assms(2,3) by (simp_all add: Suc_le_eq)
  have p: "0 \<le> fl p" "fl p \<le> 1" using fl_between [OF assms(1), of 0 p 1] assms(6,7) by simp_all
  have "fl (of_int (?n - 1)) = of_int (?n - 1)" by (rule fl_int [OF assms(1)]) (use n in simp)
  then have "idx = fl (fl p * of_int (?n - 1))" by (simp only: idx_def)
  moreover have n1: "(0 :: rat) \<le> of_int (?n - 1)" unfolding of_int_0_le_iff using n(1) by linarith
  have "of_int 0 \<le> fl p * of_int (?n - 1)" "fl p * of_int (?n - 1) \<le> of_int (?n - 1)"
    using mult_nonneg_nonneg [OF p(1) n1] mult_left_le_one_le [OF n1 p] by (simp_all only: of_int_0)
  ultimately have idx: "0 \<le> idx" "idx \<le> of_int (?n - 1)"
    using fl_between [OF assms(1), of 0 "fl p * of_int (?n - 1)" "?n - 1"] n by simp_all
  have lo: "0 \<le> \<lfloor>idx\<rfloor>" "\<lfloor>idx\<rfloor> < ?n" and hi: "\<lceil>idx\<rceil> < ?n" "\<lfloor>idx\<rfloor> \<le> \<lceil>idx\<rceil>"
    using idx by (simp_all add: floor_less_iff ceiling_less_iff)
  have elem: "hd xs \<le> xs ! nat i" "xs ! nat i \<le> last xs" if "0 \<le> i" "i < ?n" for i
    using that assms(2,4) sorted_nth_mono [OF assms(4), of 0 "nat i"] sorted_nth_mono [OF assms(4), of "nat i" "length xs - 1"]
    by (simp_all add: hd_conv_nth last_conv_nth nat_less_iff)
  have P: "durationPercentile fl xs p =
      (if \<lfloor>idx\<rfloor> = \<lceil>idx\<rceil> \<or> \<lceil>idx\<rceil> \<ge> ?n then index_at xs \<lfloor>idx\<rfloor>
       else (case (index_at xs \<lfloor>idx\<rfloor>, index_at xs \<lceil>idx\<rceil>) of
          (Some a, Some b) \<Rightarrow> Some (int64_of_float (fl (fl (fl (of_int a) * fl (1 - fl (idx - fl (of_int \<lfloor>idx\<rfloor>))))
             + fl (fl (of_int b) * fl (idx - fl (of_int \<lfloor>idx\<rfloor>))))))
        | _ \<Rightarrow> None))"
    by (simp only: durationPercentile_def idx_def Let_def)
  show ?thesis
  proof (cases "\<lfloor>idx\<rfloor> = \<lceil>idx\<rceil>")
    case True
    then have "durationPercentile fl xs p = Some (xs ! nat \<lfloor>idx\<rfloor>)"
      unfolding P index_in_range [OF lo] by simp
    then show ?thesis using elem [OF lo] by simp
  next
    case False
    let ?a = "xs ! nat \<lfloor>idx\<rfloor>" and ?b = "xs ! nat \<lceil>idx\<rceil>"
    define f where "f = fl (idx - fl (of_int \<lfloor>idx\<rfloor>))"
    have up: "0 \<le> \<lceil>idx\<rceil>" using lo hi by linarith
    have "fl (of_int \<lfloor>idx\<rfloor>) = of_int \<lfloor>idx\<rfloor>" by (rule fl_int [OF assms(1)]) (use lo n in linarith)
    then have f: "0 \<le> f" "f \<le> 1"
      using fl_between [OF assms(1), of 0 "idx - of_int \<lfloor>idx\<rfloor>" 1] by (simp_all add: f_def) linarith+
    have mem: "nat \<lfloor>idx\<rfloor> \<le> nat \<lceil>idx\<rceil>" "nat \<lceil>idx\<rceil> < length xs" "?a \<in> set xs" "?b \<in> set xs"
      using lo hi up by (auto simp only: nat_less_iff intro!: nat_mono nth_mem)
    have ab: "0 \<le> ?a" "?a \<le> ?b" "?b \<le> 2 ^ 50" using assms(5) mem sorted_nth_mono [OF assms(4) mem(1,2)] by blast+
    have "fl (of_int ?a) = of_int ?a" "fl (of_int ?b) = of_int ?b" using ab by (simp_all add: fl_int [OF assms(1)])
    then have "durationPercentile fl xs p = Some (int64_of_float (fl (fl (of_int ?a * fl (1 - f)) + fl (of_int ?b * f))))"
      unfolding P index_in_range [OF lo] index_in_range [OF up hi(1)] f_def using False hi(1) by simp
    moreover have "?a - 1 \<le> int64_of_float (fl (fl (of_int ?a * fl (1 - f)) + fl (of_int ?b * f)))
        \<and> int64_of_float (fl (fl (of_int ?a * fl (1 - f)) + fl (of_int ?b * f))) \<le> ?b"
      using int64_between interpolation [OF assms(1) ab f] ab by blast
    ultimately show ?thesis using elem(1) [OF lo] elem(2) [OF up hi(1)] by force
  qed
qed

subsection \<open>The statistics of a run\<close>

lemma foldl_wrap_sum:
  assumes "\<forall>x \<in> set xs. 0 \<le> x" "0 \<le> s" "s + sum_list xs < 2 ^ 63"
  shows "foldl (\<lambda>s d. wrap64 (s + d)) s xs = s + sum_list xs"
  using assms
proof (induction xs arbitrary: s)
  case (Cons x xs)
  have "0 \<le> sum_list xs" using Cons.prems(1) by (simp add: sum_list_nonneg)
  then have "wrap64 (s + x) = s + x" using Cons.prems by (intro wrap64_id) (simp add: fits64_def)
  then show ?case using Cons.IH [of "s + x"] Cons.prems by simp
qed simp

lemma sorted_ends:
  assumes "sorted xs" "xs \<noteq> []"
  shows "hd xs = Min (set xs)" "last xs = Max (set xs :: int set)"
proof -
  show "hd xs = Min (set xs)" using assms by (cases xs) (auto intro!: Min_eqI [symmetric])
  show "last xs = Max (set xs)" using assms by (cases xs rule: rev_cases) (auto intro!: Max_eqI [symmetric] simp: sorted_append)
qed

lemma average_bounds:
  assumes "xs \<noteq> []" "\<forall>x \<in> set xs. lo \<le> x \<and> x \<le> hi" "0 \<le> lo"
  shows "lo \<le> sum_list xs sdiv int (length xs) \<and> sum_list xs sdiv int (length xs) \<le> hi"
proof -
  have n: "0 < int (length xs)" using assms(1) by simp
  have "lo * int (length xs) \<le> sum_list xs \<and> sum_list xs \<le> hi * int (length xs)"
    using assms(2) by (induction xs) (auto simp: algebra_simps)
  then have "lo * int (length xs) div int (length xs) \<le> sum_list xs div int (length xs)"
    "sum_list xs div int (length xs) \<le> hi * int (length xs) div int (length xs)"
    using n zdiv_mono1 by blast+
  then have "lo \<le> sum_list xs div int (length xs)" "sum_list xs div int (length xs) \<le> hi" using n by simp_all
  moreover have "0 \<le> sum_list xs" using assms(2,3) by (intro sum_list_nonneg) force
  then have "sum_list xs sdiv int (length xs) = sum_list xs div int (length xs)"
    using n by (simp add: signed_divide_int_def sgn_if)
  ultimately show ?thesis by simp
qed

text \<open>
  The statistics are sound in spite of rounding. For durations of at most 13 days whose sum fits
  into 64 bits, and with any rounding that meets the guarantees of double precision, computing them
  never indexes out of range; the maximum is the greatest duration, the average lies between the
  least and the greatest, and so does each percentile, except that it may be one nanosecond below the
  least.
\<close>

theorem latency_stats_sound:
  assumes "float64_ok fl" "ds \<noteq> []" "length ds \<le> 2 ^ 50" "\<forall>d \<in> set ds. 0 \<le> d \<and> d \<le> 2 ^ 50" "sum_list ds < 2 ^ 63"
  shows "\<exists>st. computeLatencyStats fl ds = Some st \<and> ls_Max st = Max (set ds)
    \<and> Min (set ds) \<le> ls_Avg st \<and> ls_Avg st \<le> Max (set ds)
    \<and> (\<forall>p \<in> {ls_P50 st, ls_P95 st, ls_P99 st}. Min (set ds) - 1 \<le> p \<and> p \<le> Max (set ds))"
proof -
  let ?s = "sort ds"
  have s: "?s \<noteq> []" "length ?s \<le> 2 ^ 50" "sorted ?s" "\<forall>x \<in> set ?s. 0 \<le> x \<and> x \<le> 2 ^ 50"
    using assms(2-4) by (auto simp del: length_sort simp: length_sort) (metis length_0_conv length_sort)
  have ends: "hd ?s = Min (set ds)" "last ?s = Max (set ds)"
    using sorted_ends [OF s(3,1)] by simp_all
  note pct = durationPercentile_bounds [OF assms(1) s, unfolded ends]
  obtain p50 p95 p99 where p: "durationPercentile fl ?s (1 / 2) = Some p50" "durationPercentile fl ?s (95 / 100) = Some p95"
    "durationPercentile fl ?s (99 / 100) = Some p99"
    "\<forall>p \<in> {p50, p95, p99}. Min (set ds) - 1 \<le> p \<and> p \<le> Max (set ds)"
    using pct [of "1 / 2"] pct [of "95 / 100"] pct [of "99 / 100"] by auto
  have "sum_list ?s = sum_list ds" by (metis mset_sort sum_mset_sum_list)
  then have sum: "foldl (\<lambda>s d. wrap64 (s + d)) 0 ?s = sum_list ds"
    using foldl_wrap_sum [of ?s 0] assms(4,5) by simp
  have avg: "Min (set ds) \<le> sum_list ds sdiv int (length ds) \<and> sum_list ds sdiv int (length ds) \<le> Max (set ds)"
    using assms(2,4) by (intro average_bounds) auto
  have "?s ! (length ds - 1) = Max (set ds)" using ends(2) s(1) by (metis last_conv_nth length_sort)
  then have "computeLatencyStats fl ds = Some \<lparr>ls_P50 = p50, ls_P95 = p95, ls_P99 = p99, ls_Max = Max (set ds),
      ls_Avg = sum_list ds sdiv int (length ds)\<rparr>"
    using assms(2) p(1-3) sum by (simp add: computeLatencyStats_def Let_def)
  then show ?thesis using p(4) avg by simp
qed

lemma latency_stats_sound_witness:
  "\<exists>st. computeLatencyStats (\<lambda>x. x) [10, 40, 20, 30] = Some st \<and> ls_Max st = 40 \<and> 9 \<le> ls_P50 st \<and> ls_P50 st \<le> 40"
proof -
  let ?ds = "[10, 40, 20, 30 :: int]"
  have "?ds \<noteq> []" "length ?ds \<le> 2 ^ 50" "\<forall>d \<in> set ?ds. 0 \<le> d \<and> d \<le> 2 ^ 50" "sum_list ?ds < 2 ^ 63" by simp_all
  note sound = latency_stats_sound [OF float64_id this]
  have "Min (set ?ds) = 10" "Max (set ?ds) = 40" by simp_all
  then show ?thesis using sound by (simp only:) (auto simp del: set_simps)
qed

subsection \<open>Accounting\<close>

definition failed :: "go_error + (nat \<times> duration) \<Rightarrow> bool" where
  "failed resp \<longleftrightarrow> snd (apiOnce resp) \<noteq> None"

lemma count_api:
  "count_request (apiOnce r) t = (if failed r then t\<lparr>ta_reqCount := ta_reqCount t + 1, ta_errorCount := ta_errorCount t + 1\<rparr>
     else t\<lparr>ta_reqCount := ta_reqCount t + 1, ta_latencies := ta_latencies t @ [fst (apiOnce r)]\<rparr>)"
  by (cases "apiOnce r"; cases "snd (apiOnce r)") (auto simp: count_request_def failed_def)

lemma api_tally:
  "foldl (\<lambda>t resp. count_request (apiOnce resp) t) t resps =
     \<lparr>ta_latencies = ta_latencies t @ map (fst \<circ> apiOnce) (filter (\<lambda>r. \<not> failed r) resps),
      ta_errorCount = ta_errorCount t + of_nat (length (filter failed resps)), ta_reqCount = ta_reqCount t + of_nat (length resps)\<rparr>"
  by (induction resps arbitrary: t) (simp_all add: count_api)

lemma computeLatencyStats_mset: "mset xs = mset ys \<Longrightarrow> computeLatencyStats fl xs = computeLatencyStats fl ys"
proof -
  assume eq: "mset xs = mset ys"
  then have "sort xs = sort ys" by (intro properties_for_sort) simp_all
  moreover have "xs = [] \<longleftrightarrow> ys = []" using eq by (metis mset_zero_iff)
  ultimately show ?thesis by (simp only: computeLatencyStats_def)
qed

lemma sint_of_nat: "n < 2 ^ 31 \<Longrightarrow> sint (of_nat n :: 32 word) = int n"
proof -
  assume n: "n < 2 ^ 31"
  then have "uint (of_nat n :: 32 word) = int n" by (simp add: unsigned_of_nat take_bit_nat_eq_self)
  then show ?thesis using n by (simp add: sint_uint signed_take_bit_int_eq_self)
qed

lemma length_api_responses: "api_responses target eps idx es = Some rs \<Longrightarrow> length rs = length es"
  by (induction es arbitrary: idx rs) (auto split: option.splits)

text \<open>A worker that has made \<open>k\<close> requests asks the endpoint at \<open>k\<close> modulo their number next.\<close>

lemma api_responses_nth:
  assumes "api_responses target eps idx es = Some rs" "i < length es"
  shows "rs ! i = snd (es ! i) (target @ eps ! ((idx (fst (es ! i)) + length (filter (\<lambda>e. fst e = fst (es ! i)) (take i es))) mod length eps))"
  using assms
proof (induction es arbitrary: idx rs i)
  case (Cons e es)
  obtain w net where e: "e = (w, net)" by (cases e)
  obtain ep rs' where r: "api_endpoint eps (idx w) = Some ep" "api_responses target eps (idx(w := idx w + 1)) es = Some rs'"
    "rs = net (target @ ep) # rs'" using Cons.prems(1) by (auto simp: e split: option.splits)
  show ?case
  proof (cases i)
    case 0
    then show ?thesis using r by (auto simp: e api_endpoint_def split: if_splits)
  next
    case (Suc j)
    then show ?thesis using Cons.IH [OF r(2), of j] Cons.prems(2) by (auto simp: e r(3))
  qed
qed simp

lemma api_responses_total: "eps \<noteq> [] \<Longrightarrow> \<exists>rs. api_responses target eps idx es = Some rs"
proof (induction es arbitrary: idx)
  case (Cons e es)
  obtain rs where "api_responses target eps (idx(fst e := idx (fst e) + 1)) es = Some rs" using Cons by blast
  then show ?case using Cons.prems by (cases e) (simp add: api_endpoint_def)
qed simp

lemma fl_percent:
  assumes "float64_ok fl" "0 \<le> a" "a \<le> b" "0 < b" "b \<le> 2 ^ 53"
  shows "0 \<le> fl (fl (fl (of_int a) / fl (of_int b)) * 100) \<and> fl (fl (fl (of_int a) / fl (of_int b)) * 100) \<le> 100"
proof -
  have "fl (of_int a) = of_int a" "fl (of_int b) = of_int b" using assms by (simp_all add: fl_int)
  moreover have "of_int 0 \<le> (of_int a :: rat) / of_int b" "(of_int a :: rat) / of_int b \<le> of_int 1" using assms(2-4) by (simp_all add: divide_simps)
  ultimately have "0 \<le> fl (fl (of_int a) / fl (of_int b))" "fl (fl (of_int a) / fl (of_int b)) \<le> 1"
    using fl_between [OF assms(1), of 0 _ 1] by simp_all
  then show ?thesis using fl_between [OF assms(1), of 0 "fl (fl (of_int a) / fl (of_int b)) * 100" 100] by simp
qed

lemma timed_report_order:
  assumes "mset resps' = mset resps"
  shows "timed_report fl fs name (foldl (\<lambda>t resp. count_request (apiOnce resp) t) tally0 resps') =
    timed_report fl fs name (foldl (\<lambda>t resp. count_request (apiOnce resp) t) tally0 resps)"
proof -
  have same: "mset (map (fst \<circ> apiOnce) (filter (\<lambda>r. \<not> failed r) resps')) = mset (map (fst \<circ> apiOnce) (filter (\<lambda>r. \<not> failed r) resps))"
    "length (filter failed resps') = length (filter failed resps)" "length resps' = length resps"
    using assms by (simp_all, metis mset_filter size_mset, metis size_mset)
  show ?thesis using same(2,3) computeLatencyStats_mset [OF same(1), of fl]
    by (simp add: timed_report_def make_report_def api_tally tally0_def)
qed

text \<open>
  The report of the request tests counts every request once and does not depend on the order in
  which the clients' answers arrive. Below two billion requests it shows their exact number and the
  exact number that failed or had a status of 400 or more, and an error rate between 0 and 100 per
  cent. Each worker asks the endpoints in turn.
\<close>

theorem api_accounting:
  assumes "runAPITest fl fs eps es = Some r" "length es < 2 ^ 31" "float64_ok fl"
  shows "\<exists>resps. length resps = length es
    \<and> (\<forall>i < length es. resps ! i = snd (es ! i) (lf_target fs @ eps ! (length (filter (\<lambda>e. fst e = fst (es ! i)) (take i es)) mod length eps)))
    \<and> tr_Requests r = int (length resps) \<and> tr_Errors r = int (length (filter failed resps))
    \<and> 0 \<le> errorRate fl r \<and> errorRate fl r \<le> 100
    \<and> (\<forall>resps'. mset resps' = mset resps \<longrightarrow>
         timed_report fl fs (tr_TestName r) (foldl (\<lambda>t resp. count_request (apiOnce resp) t) tally0 resps') = Some r)"
proof -
  obtain resps where resps: "api_responses (lf_target fs) eps (\<lambda>w. 0) es = Some resps"
    using assms(1) by (auto simp: runAPITest_def split: option.splits)
  note len = length_api_responses [OF resps]
  have f: "length (filter failed resps) \<le> length resps" by simp
  have n: "length resps < 2 ^ 31" using assms(2) len by simp
  then have "sint (of_nat (length resps) :: 32 word) = int (length resps)"
    "sint (of_nat (length (filter failed resps)) :: 32 word) = int (length (filter failed resps))"
    using order.strict_trans1 [OF f n] by (rule_tac sint_of_nat; simp)+
  then have r: "tr_Requests r = int (length resps)" "tr_Errors r = int (length (filter failed resps))"
    "timed_report fl fs (tr_TestName r) (foldl (\<lambda>t resp. count_request (apiOnce resp) t) tally0 resps) = Some r"
    using assms(1) resps by (auto simp: runAPITest_def timed_report_def make_report_def api_tally tally0_def split: option.splits)
  have rate: "0 \<le> errorRate fl r \<and> errorRate fl r \<le> 100"
    using fl_percent [OF assms(3), of "tr_Errors r" "tr_Requests r"] f n by (simp add: errorRate_def r)
  have turns: "\<forall>i < length es. resps ! i =
      snd (es ! i) (lf_target fs @ eps ! (length (filter (\<lambda>e. fst e = fst (es ! i)) (take i es)) mod length eps))"
    using api_responses_nth [OF resps] by simp
  have order: "\<forall>resps'. mset resps' = mset resps \<longrightarrow>
      timed_report fl fs (tr_TestName r) (foldl (\<lambda>t resp. count_request (apiOnce resp) t) tally0 resps') = Some r"
    using timed_report_order [of _ resps fl fs "tr_TestName r"] r(3) by (simp only:) blast
  show ?thesis by (intro exI [of _ resps] conjI len turns r(1,2) order conjunct1 [OF rate] conjunct2 [OF rate])
qed

definition flags0 :: load_flags where
  "flags0 = \<lparr>lf_target = ''http://localhost:8080'', lf_concurrency = 2, lf_duration = Second, lf_outputJSON = False\<rparr>"

lemma api_accounting_witness:
  "\<exists>r. runAPITest (\<lambda>x. x) flags0 [''/health''] [(0, \<lambda>url. Inr (200, 5)), (1, \<lambda>url. Inr (500, 7))] = Some r \<and> errorRate (\<lambda>x. x) r \<le> 100"
proof -
  let ?es = "[(0, \<lambda>url. Inr (200, 5)), (1, \<lambda>url. Inr (500, 7))] :: (nat \<times> network) list"
  obtain st where "computeLatencyStats (\<lambda>x. x) [5] = Some st"
    by (simp add: computeLatencyStats_def durationPercentile_def index_at_def Let_def)
  then obtain r where r: "runAPITest (\<lambda>x. x) flags0 [''/health''] ?es = Some r"
    by (simp add: runAPITest_def api_endpoint_def timed_report_def make_report_def api_tally tally0_def failed_def apiOnce_def
        count_request_def Let_def)
  then show ?thesis using api_accounting [OF r _ float64_id] by auto
qed

definition answered :: "stream_outcome \<Rightarrow> bool" where
  "answered o' \<longleftrightarrow> (case o' of NoResponse e \<Rightarrow> False | Response ttfb status reads \<Rightarrow> True)"

definition refused :: "stream_outcome \<Rightarrow> bool" where
  "refused o' \<longleftrightarrow> (case o' of NoResponse e \<Rightarrow> True | Response ttfb status reads \<Rightarrow> status \<noteq> 200)"

lemma stream_tally_counts:
  "length (sa_latencies (fold count_client outs t)) = length (sa_latencies t) + length (filter answered outs)"
  "sa_errorCount (fold count_client outs t) = sa_errorCount t + of_nat (length (filter refused outs))"
  by (induction outs arbitrary: t) (simp_all add: count_client_def answered_def refused_def Let_def split: stream_outcome.split)

text \<open>
  The error rate of the stream tests says nothing about clients that could not connect. The
  number of requests in the report is the number of clients that got an answer, the errors also
  count those that got none; so when no client gets through the report shows as many errors as
  clients, no request, and an error rate of 0 per cent.
\<close>

theorem stream_error_rate:
  assumes "runStreamTest fl fs cam net = Some r" "lf_concurrency fs < 2 ^ 31"
    and "outs = map (\<lambda>i. net i (stream_url fs cam)) [0..<nat (lf_concurrency fs)]"
  shows "tr_Requests r = int (length (filter answered outs)) \<and> tr_Errors r = int (length (filter refused outs))
    \<and> ((\<forall>o' \<in> set outs. \<not> answered o') \<longrightarrow> tr_Errors r = int (length outs) \<and> errorRate fl r = 0)"
proof -
  have "length (filter refused outs) \<le> length outs" by simp
  moreover have "length outs < 2 ^ 31" using assms(2,3) by (simp add: nat_less_iff)
  ultimately have "sint (of_nat (length (filter refused outs)) :: 32 word) = int (length (filter refused outs))"
    by (intro sint_of_nat) linarith
  then have r: "tr_Requests r = int (length (filter answered outs))" "tr_Errors r = int (length (filter refused outs))"
    using assms(1) by (auto simp: runStreamTest_def clients_report_def make_report_def assms(3) [symmetric] stream_totals_def
        stream_tally_counts Let_def split: option.splits)
  have "filter refused outs = outs \<and> filter answered outs = []" if "\<forall>o' \<in> set outs. \<not> answered o'"
    using that by (auto simp: filter_id_conv filter_empty_conv answered_def refused_def split: stream_outcome.splits)
  then show ?thesis using r by (auto simp: errorRate_def)
qed

lemma stream_error_rate_witness:
  "\<exists>r. runStreamTest (\<lambda>x. x) flags0 ''c'' (\<lambda>i url. NoResponse errInvalidTimeRange) = Some r
     \<and> tr_Errors r = 2 \<and> errorRate (\<lambda>x. x) r = 0"
proof -
  have c: "[0..<nat (lf_concurrency flags0)] = [0, 1]" by (simp add: flags0_def upt_rec)
  obtain r where r: "runStreamTest (\<lambda>x. x) flags0 ''c'' (\<lambda>i url. NoResponse errInvalidTimeRange) = Some r"
    by (simp add: runStreamTest_def clients_report_def make_report_def c stream_totals_def count_client_def computeLatencyStats_def)
  then show ?thesis using stream_error_rate [OF r _ refl] unfolding c by (simp add: answered_def flags0_def)
qed

subsection \<open>Gaps\<close>

text \<open>The gaps between neighbouring entries that the analysis counts.\<close>

fun neighbour_gaps :: "timelineEntry list \<Rightarrow> int list" where
  "neighbour_gaps (e # e' # es) = (le_Start e' - le_End e) # neighbour_gaps (e' # es)"
| "neighbour_gaps es = []"

definition counted :: "timelineEntry list \<Rightarrow> int list" where
  "counted es = filter (\<lambda>g. g > 2 * Second) (neighbour_gaps es)"

text \<open>Entries in order, without overlap, within a span that fits a duration.\<close>

fun in_order :: "timelineEntry list \<Rightarrow> bool" where
  "in_order [] \<longleftrightarrow> True"
| "in_order [e] \<longleftrightarrow> le_Start e \<le> le_End e"
| "in_order (e # e' # es) \<longleftrightarrow> le_Start e \<le> le_End e \<and> le_End e \<le> le_Start e' \<and> in_order (e' # es)"

lemma in_order_span: "in_order (e # es) \<Longrightarrow> le_Start e \<le> le_End (last (e # es))"
  by (induction es arbitrary: e) force+

lemma in_order_nonneg: "in_order es \<Longrightarrow> \<forall>e \<in> set es. le_Start e \<le> le_End e"
  by (induction es rule: in_order.induct) auto

lemma neighbour_gaps_sum:
  "in_order (e # es) \<Longrightarrow> sum_list (neighbour_gaps (e # es)) + (\<Sum>x\<leftarrow>e # es. le_End x - le_Start x) = le_End (last (e # es)) - le_Start e"
  by (induction es arbitrary: e) auto

lemma neighbour_gaps_nonneg: "in_order es \<Longrightarrow> \<forall>g \<in> set (neighbour_gaps es). 0 \<le> g"
  by (induction es rule: in_order.induct) auto

lemma counted_Cons:
  "counted (e # e' # es) = (if le_Start e' - le_End e > 2 * Second then [le_Start e' - le_End e] else []) @ counted (e' # es)"
  by (simp add: counted_def)

lemma gap_loop_spec:
  assumes "in_order (e # es)" "0 \<le> tg" "0 \<le> mg" "tg + (le_End (last (e # es)) - le_Start e) < 2 ^ 63"
  shows "gap_loop (e # es) (n, mg, tg) =
    (n + length (counted (e # es)), foldl max mg (counted (e # es)), tg + sum_list (counted (e # es)))"
  using assms
proof (induction es arbitrary: e n mg tg)
  case Nil
  then show ?case by (simp add: counted_def)
next
  case (Cons e' es)
  let ?g = "le_Start e' - le_End e"
  have o: "le_Start e \<le> le_End e" "0 \<le> ?g" "in_order (e' # es)" using Cons.prems(1) by simp_all
  have span: "le_Start e' \<le> le_End (last (e' # es))" by (rule in_order_span [OF o(3)])
  have g: "time_Sub (le_Start e') (le_End e) = ?g" using o span Cons.prems(2,4) by (intro time_Sub_eq) (simp add: fits64_def)
  show ?case
  proof (cases "?g > 2 * Second")
    case True
    have "wrap64 (tg + ?g) = tg + ?g" using o span Cons.prems(2,4) by (intro wrap64_id) (simp add: fits64_def)
    moreover have "(if ?g > mg then ?g else mg) = max mg ?g" by auto
    ultimately show ?thesis
      using True g Cons.IH [OF o(3), of "tg + ?g" "max mg ?g" "n + 1"] Cons.prems o by (simp add: counted_Cons Let_def)
  next
    case False
    then show ?thesis using g Cons.IH [OF o(3), of tg mg n] Cons.prems o by (simp add: counted_Cons Let_def)
  qed
qed

lemma foldl_max_Max: "foldl max m xs = Max (insert m (set xs))" for m :: int
proof (induction xs arbitrary: m)
  case (Cons x xs)
  have "Max (insert (max m x) (set xs)) = Max (insert m (insert x (set xs)))"
    by (cases "xs = []") (simp_all add: max.assoc)
  with Cons show ?case by simp
qed simp

lemma recorded_sum:
  assumes "\<forall>e \<in> set es. 0 \<le> le_DurationMs e" "0 \<le> r" "r + (\<Sum>e\<leftarrow>es. le_DurationMs e * Millisecond) < 2 ^ 63"
  shows "foldl (\<lambda>r e. wrap64 (r + wrap64 (le_DurationMs e * Millisecond))) r es = r + (\<Sum>e\<leftarrow>es. le_DurationMs e * Millisecond)"
  using assms
proof (induction es arbitrary: r)
  case (Cons e es)
  have rest: "0 \<le> (\<Sum>e\<leftarrow>es. le_DurationMs e * Millisecond)" using Cons.prems(1) by (intro sum_list_nonneg) (auto simp: Millisecond_def)
  have e: "0 \<le> le_DurationMs e * Millisecond" using Cons.prems(1) by (simp add: Millisecond_def)
  have "wrap64 (le_DurationMs e * Millisecond) = le_DurationMs e * Millisecond"
    "wrap64 (r + le_DurationMs e * Millisecond) = r + le_DurationMs e * Millisecond"
    using rest e Cons.prems(2,3) by (intro wrap64_id; simp add: fits64_def)+
  then show ?case using Cons.IH [of "r + le_DurationMs e * Millisecond"] Cons.prems e by simp
qed simp

text \<open>The server's figure for the length of an entry: whole milliseconds.\<close>

definition server_duration :: "timelineEntry \<Rightarrow> bool" where
  "server_duration e \<longleftrightarrow> le_DurationMs e = (le_End e - le_Start e) div Millisecond"

lemma server_duration_bounds:
  assumes "server_duration e"
  shows "le_DurationMs e * Millisecond \<le> le_End e - le_Start e" "le_End e - le_Start e < le_DurationMs e * Millisecond + Millisecond"
proof -
  define x where "x = le_End e - le_Start e"
  have "x div Millisecond * Millisecond + x mod Millisecond = x" by simp
  moreover have "0 \<le> x mod Millisecond" "x mod Millisecond < Millisecond" by (simp_all add: Millisecond_def)
  ultimately have "x div Millisecond * Millisecond \<le> x" "x < x div Millisecond * Millisecond + Millisecond" by linarith+
  then show "le_DurationMs e * Millisecond \<le> le_End e - le_Start e" "le_End e - le_Start e < le_DurationMs e * Millisecond + Millisecond"
    using assms by (simp_all add: server_duration_def x_def)
qed

lemma recorded_bounds:
  assumes "\<forall>e \<in> set es. server_duration e"
  shows "(\<Sum>e\<leftarrow>es. le_DurationMs e * Millisecond) \<le> (\<Sum>e\<leftarrow>es. le_End e - le_Start e)"
    and "(\<Sum>e\<leftarrow>es. le_End e - le_Start e) \<le> (\<Sum>e\<leftarrow>es. le_DurationMs e * Millisecond) + int (length es) * Millisecond"
proof -
  show "(\<Sum>e\<leftarrow>es. le_DurationMs e * Millisecond) \<le> (\<Sum>e\<leftarrow>es. le_End e - le_Start e)"
    using assms server_duration_bounds(1) by (intro sum_list_mono) blast
  show "(\<Sum>e\<leftarrow>es. le_End e - le_Start e) \<le> (\<Sum>e\<leftarrow>es. le_DurationMs e * Millisecond) + int (length es) * Millisecond"
    using assms
  proof (induction es)
    case (Cons e es)
    then have "le_End e - le_Start e < le_DurationMs e * Millisecond + Millisecond" using server_duration_bounds(2) by simp
    moreover have "int (length (e # es)) * Millisecond = int (length es) * Millisecond + Millisecond" by (simp add: algebra_simps)
    ultimately show ?case using Cons by simp
  qed simp
qed

lemma counted_sum:
  assumes "in_order es"
  shows "sum_list (counted es) \<le> sum_list (neighbour_gaps es)"
    and "sum_list (neighbour_gaps es) \<le> sum_list (counted es) + int (length es) * (2 * Second)"
proof -
  have split: "sum_list (neighbour_gaps es) = sum_list (counted es) + sum_list (filter (\<lambda>g. \<not> g > 2 * Second) (neighbour_gaps es))"
    using length_filter_sum_list [of id "\<lambda>g. g > 2 * Second" "neighbour_gaps es"] by (simp add: counted_def)
  have "0 \<le> sum_list (filter (\<lambda>g. \<not> g > 2 * Second) (neighbour_gaps es))"
    using neighbour_gaps_nonneg [OF assms] by (intro sum_list_nonneg) auto
  then show "sum_list (counted es) \<le> sum_list (neighbour_gaps es)" using split by simp
  have "sum_list (filter (\<lambda>g. \<not> g > 2 * Second) gs) \<le> int (length gs) * (2 * Second)" for gs
    by (induction gs) (auto simp: algebra_simps Second_def)
  moreover have "length (neighbour_gaps es) \<le> length es" by (induction es rule: neighbour_gaps.induct) auto
  then have "int (length (neighbour_gaps es)) * (2 * Second) \<le> int (length es) * (2 * Second)" by (simp add: Second_def)
  ultimately show "sum_list (neighbour_gaps es) \<le> sum_list (counted es) + int (length es) * (2 * Second)"
    using split by (metis add_left_mono order.trans)
qed

text \<open>
  The gap analysis adds up. On entries in order whose lengths are the server's whole milliseconds, it
  counts exactly the gaps of more than two seconds, reports their sum and the largest of them, and
  recorded time and gaps together cover the span from the first start to the last end, short of it by
  at most two seconds and a millisecond per entry.
\<close>

theorem gap_analysis_adds_up:
  assumes "in_order (e # es)" "\<forall>x \<in> set (e # es). server_duration x" "le_End (last (e # es)) - le_Start e < 2 ^ 63"
    and "g = analyze fl (e # es) lookback"
  shows "gr_gapCount g = length (counted (e # es)) \<and> gr_totalGap g = sum_list (counted (e # es))
    \<and> gr_maxGap g = Max (insert 0 (set (counted (e # es))))
    \<and> gr_recordedTime g + gr_totalGap g \<le> le_End (last (e # es)) - le_Start e
    \<and> le_End (last (e # es)) - le_Start e \<le> gr_recordedTime g + gr_totalGap g + int (length (e # es)) * (2 * Second + Millisecond)"
proof -
  let ?es = "e # es" and ?span = "le_End (last (e # es)) - le_Start e"
  have loop: "gap_loop ?es (0, 0, 0) = (length (counted ?es), Max (insert 0 (set (counted ?es))), sum_list (counted ?es))"
    using gap_loop_spec [OF assms(1), of 0 0 0] assms(3) by (simp add: foldl_max_Max)
  note rec = recorded_bounds [OF assms(2)] and gaps = counted_sum [OF assms(1)] and total = neighbour_gaps_sum [OF assms(1)]
  have "0 \<le> sum_list (neighbour_gaps ?es)" using neighbour_gaps_nonneg [OF assms(1)] by (intro sum_list_nonneg) blast
  then have "0 + (\<Sum>x\<leftarrow>?es. le_DurationMs x * Millisecond) < 2 ^ 63" using rec(1) total assms(3) by linarith
  moreover have "\<forall>x \<in> set ?es. 0 \<le> le_DurationMs x"
    using assms(1,2) in_order_nonneg [OF assms(1)] by (auto simp: server_duration_def Millisecond_def pos_imp_zdiv_nonneg_iff)
  ultimately have recorded: "foldl (\<lambda>r e. wrap64 (r + wrap64 (le_DurationMs e * Millisecond))) 0 ?es =
      (\<Sum>x\<leftarrow>?es. le_DurationMs x * Millisecond)" using recorded_sum [of ?es 0] by simp
  have len: "int (length ?es) * (2 * Second + Millisecond) = int (length ?es) * (2 * Second) + int (length ?es) * Millisecond"
    by (simp only: distrib_left)
  have g: "gr_gapCount g = length (counted ?es)" "gr_totalGap g = sum_list (counted ?es)"
    "gr_maxGap g = Max (insert 0 (set (counted ?es)))" "gr_recordedTime g = (\<Sum>x\<leftarrow>?es. le_DurationMs x * Millisecond)"
    unfolding assms(4) analyze_def loop recorded by (simp_all add: Let_def)
  show ?thesis unfolding g len using rec gaps total by (intro conjI refl) linarith+
qed

definition clip0 :: timelineEntry where
  "clip0 = \<lparr>le_Start = - 290 * Second, le_End = 10 * Second, le_DurationMs = 300000\<rparr>"
definition clip1 :: timelineEntry where
  "clip1 = \<lparr>le_Start = 290 * Second, le_End = 3600 * Second, le_DurationMs = 3310000\<rparr>"

lemma gap_analysis_adds_up_witness:
  "gr_gapCount (analyze (\<lambda>x. x) [clip0, clip1] Hour) = 1 \<and> gr_totalGap (analyze (\<lambda>x. x) [clip0, clip1] Hour) = 280 * Second"
  using gap_analysis_adds_up [of clip0 "[clip1]" "analyze (\<lambda>x. x) [clip0, clip1] Hour" "\<lambda>x. x" Hour]
  by (simp add: clip0_def clip1_def server_duration_def counted_def Second_def Millisecond_def)

text \<open>
  The uptime counts whole entries, also the part before the period that is checked: with a recording
  that began five minutes before it, a gap of 280 seconds within the hour still passes the target of
  99.9 per cent.
\<close>

theorem uptime_hides_gap:
  assumes "float64_ok fl"
  shows "in_order [clip0, clip1] \<and> le_Start clip0 \<le> 0 \<and> 0 \<le> le_End clip0 \<and> le_End clip1 = Hour
    \<and> gr_maxGap (analyze fl [clip0, clip1] Hour) = 280 * Second \<and> kpi_pass fl (analyze fl [clip0, clip1] Hour)"
proof -
  let ?g = "analyze fl [clip0, clip1] Hour"
  have g: "gr_maxGap ?g = 280 * Second" "gr_uptimeRatio ?g = fl (fl (fl (of_int 3610000000000) / fl (of_int 3600000000000)) * 100)"
    by (simp_all add: clip0_def clip1_def analyze_def time_Sub_def wrap64_def Hour_def Minute_def Second_def Millisecond_def)
  have mono: "x \<le> y \<Longrightarrow> fl x \<le> fl y" for x y using assms by (simp add: float64_ok_def)
  have "fl (of_int 3610000000000) = of_int 3610000000000" "fl (of_int 3600000000000) = of_int 3600000000000"
    by (rule fl_int [OF assms]; simp)+
  then have "fl 1 \<le> fl (fl (of_int 3610000000000) / fl (of_int 3600000000000))" by (intro mono) simp
  then have "1 \<le> fl (fl (of_int 3610000000000) / fl (of_int 3600000000000))" using fl_int [OF assms, of 1] by simp
  then have "fl (999 / 10) \<le> fl (fl (fl (of_int 3610000000000) / fl (of_int 3600000000000)) * 100)" by (intro mono) linarith
  then have "kpi_pass fl ?g" by (simp only: kpi_pass_def g)
  then show ?thesis using g by (simp add: clip0_def clip1_def Hour_def Minute_def Second_def)
qed

lemma uptime_hides_gap_witness: "kpi_pass (\<lambda>x. x) (analyze (\<lambda>x. x) [clip0, clip1] Hour)"
  using uptime_hides_gap [OF float64_id] by blast

end
