(* ===== verification/Load_Commands.thy ===== *)
theory Load_Commands
  imports Load_Test Router
begin

text \<open>
  The commands of the load test tool, \<^verbatim>\<open>src/cmd/loadtest\<close>: the flags and their defaults (\<^verbatim>\<open>main.go\<close>), what
  each command checks and runs, and what is printed, as a table or as JSON (\<^verbatim>\<open>report.go\<close>, \<^verbatim>\<open>recording.go\<close>).
  Parsing the command line is the library's; a command comes with the values of its flags. The
  environment of a run holds the clock and the network. The second half puts the continuity test
  and the edge node together: its request, the route it reaches, and the entries it reads.
\<close>

subsection \<open>Flags and commands\<close>

definition default_flags :: load_flags where
  "default_flags = \<lparr>lf_target = ''http://localhost:8080'', lf_concurrency = 10, lf_duration = 30 * Second,
     lf_outputJSON = False\<rparr>"

datatype load_command =
    StreamCmd (lc_camera: string)
  | BurstCmd (lc_camera: string) (lc_cycles: int) (lc_pause: duration)
  | APICmd (lc_endpoints: string)
  | RecordingCmd (lc_camera: string) (lc_lookback: duration)
  | PlaybackCmd (lc_camera: string) (lc_lookback: duration)
  | TimelineCmd (lc_camera: string) (lc_lookback: duration)

text \<open>The subcommands by name, with the defaults of their flags.\<close>

definition load_commands :: "(string \<times> load_command) list" where
  "load_commands =
    [(''stream'', StreamCmd []), (''burst'', BurstCmd [] 100 (50 * Millisecond)), (''api'', APICmd []),
     (''recording'', RecordingCmd [] Hour), (''playback'', PlaybackCmd [] (5 * Minute)), (''timeline'', TimelineCmd [] Hour)]"

record load_env =
  le_now :: instant
  le_api :: "(nat \<times> network) list"
  le_timeline :: "network list"
  le_burst :: "nat \<Rightarrow> nat \<Rightarrow> network"
  le_elapsed :: duration
  le_stream :: "nat \<Rightarrow> string \<Rightarrow> stream_outcome"
  le_recording :: "string \<Rightarrow> go_error + (nat \<times> timelineEntry list result result)"

subsection \<open>Output\<close>

text \<open>
  Text that is printed: rows of bytes, or a JSON document. Encoding an infinity or NaN fails, and then
  nothing is written.
\<close>

datatype json = JStr string | JInt int | JFloat float64 | JObj "(string \<times> json) list"

fun encodable :: "json \<Rightarrow> bool" where
  "encodable (JStr s) \<longleftrightarrow> True"
| "encodable (JInt i) \<longleftrightarrow> True"
| "encodable (JFloat f) \<longleftrightarrow> (case f of Finite x \<Rightarrow> True | _ \<Rightarrow> False)"
| "encodable (JObj kvs) \<longleftrightarrow> list_all (\<lambda>kv. encodable (snd kv)) kvs"

datatype shown = Silent | JSONDoc json | Rows "string list"

text \<open>The characters of the frame.\<close>

definition bar :: string where "bar = [CHR 0xE2, CHR 0x94, CHR 0x82]"

definition rule_row :: "char \<Rightarrow> char \<Rightarrow> string" where
  "rule_row l r = [CHR 0xE2, CHR 0x94, l] @ concat (replicate 41 [CHR 0xE2, CHR 0x94, CHR 0x80]) @ [CHR 0xE2, CHR 0x94, r]"

definition top_rule :: string where "top_rule = rule_row (CHR 0x8C) (CHR 0x90)"
definition mid_rule :: string where "mid_rule = rule_row (CHR 0x9C) (CHR 0xA4)"
definition bottom_rule :: string where "bottom_rule = rule_row (CHR 0x94) (CHR 0x98)"

definition row :: "string \<Rightarrow> string" where
  "row s = bar @ '' '' @ s @ '' '' @ bar"

definition Microsecond :: duration where "Microsecond = 1000"

definition result_rows :: "(rat \<Rightarrow> rat) \<Rightarrow> TestResult \<Rightarrow> string list" where
  "result_rows fl r =
    (let lat = tr_Latencies r; us = (\<lambda>d. pad_right 26 (duration_String (duration_Round d Microsecond)))
     in [top_rule, row (pad_right 39 (tr_TestName r)), mid_rule,
         row (''Duration:    '' @ pad_right 26 (duration_String (duration_Round (tr_Duration r) Millisecond))),
         row (''Clients:     '' @ pad_right 26 (itoa (tr_Clients r))),
         row (''Requests:    '' @ pad_right 26 (itoa (tr_Requests r))),
         row (''Errors:      '' @ pad_right 22 (itoa (tr_Errors r)) @ '' ''
              @ pad_left 4 (float_fixed 1 (Finite (errorRate fl r))) @ ''%''),
         row (''Throughput:  '' @ pad_right 22 (float_fixed 1 (tr_Throughput r)) @ '' req/s''),
         mid_rule,
         row (''P50:         '' @ us (ls_P50 lat)), row (''P95:         '' @ us (ls_P95 lat)),
         row (''P99:         '' @ us (ls_P99 lat)), row (''Max:         '' @ us (ls_Max lat)),
         row (''Avg:         '' @ us (ls_Avg lat)), bottom_rule])"

definition result_json :: "TestResult \<Rightarrow> json" where
  "result_json r =
    (let lat = tr_Latencies r
     in JObj [(''testName'', JStr (tr_TestName r)), (''duration'', JInt (tr_Duration r)), (''clients'', JInt (tr_Clients r)),
          (''requests'', JInt (tr_Requests r)), (''errors'', JInt (tr_Errors r)),
          (''latencies'', JObj [(''p50'', JInt (ls_P50 lat)), (''p95'', JInt (ls_P95 lat)), (''p99'', JInt (ls_P99 lat)),
             (''max'', JInt (ls_Max lat)), (''avg'', JInt (ls_Avg lat))]),
          (''throughput'', JFloat (tr_Throughput r))])"

definition printResult :: "(rat \<Rightarrow> rat) \<Rightarrow> load_flags \<Rightarrow> TestResult \<Rightarrow> shown" where
  "printResult fl fs r =
    (if lf_outputJSON fs then (if encodable (result_json r) then JSONDoc (result_json r) else Silent)
     else Rows (result_rows fl r))"

definition gap_json :: "string \<Rightarrow> duration \<Rightarrow> gap_report \<Rightarrow> json" where
  "gap_json cameraID lookback g = JObj
    [(''camera_id'', JStr cameraID), (''gaps'', JInt (int (gr_gapCount g))), (''lookback'', JStr (duration_String lookback)),
     (''max_gap'', JStr (duration_String (gr_maxGap g))), (''recorded_time'', JStr (duration_String (gr_recordedTime g))),
     (''segments'', JInt (int (gr_segments g))), (''total_gap'', JStr (duration_String (gr_totalGap g))),
     (''uptime_pct'', JFloat (Finite (gr_uptimeRatio g)))]"

definition gap_rows :: "(rat \<Rightarrow> rat) \<Rightarrow> string \<Rightarrow> duration \<Rightarrow> gap_report \<Rightarrow> string list" where
  "gap_rows fl cameraID lookback g =
    [top_rule, row (''Recording: '' @ pad_right 28 cameraID), mid_rule,
     row (''Lookback:      '' @ pad_right 24 (duration_String lookback)),
     row (''Segments:      '' @ pad_right 24 (dec (gr_segments g))),
     row (''Gaps (>2s):    '' @ pad_right 24 (dec (gr_gapCount g))),
     row (''Max gap:       '' @ pad_right 24 (duration_String (duration_Round (gr_maxGap g) Millisecond))),
     row (''Total gap:     '' @ pad_right 24 (duration_String (duration_Round (gr_totalGap g) Millisecond))),
     row (''Recorded time: '' @ pad_right 24 (duration_String (duration_Round (gr_recordedTime g) Second))),
     row (''Uptime:        '' @ pad_right 22 (float_fixed 2 (Finite (gr_uptimeRatio g))) @ '' %''),
     (if kpi_pass fl g then row ''Status:        PASS                    '' else row ''Status:        FAIL (< 99.9%)          ''),
     bottom_rule]"

definition print_gaps :: "(rat \<Rightarrow> rat) \<Rightarrow> load_flags \<Rightarrow> string \<Rightarrow> duration \<Rightarrow> gap_report \<Rightarrow> shown" where
  "print_gaps fl fs cameraID lookback g =
    (if lf_outputJSON fs then JSONDoc (gap_json cameraID lookback g) else Rows (gap_rows fl cameraID lookback g))"

subsection \<open>Running a command\<close>

text \<open>\<^verbatim>\<open>strings.Split\<close> by a character.\<close>

fun split_on :: "char \<Rightarrow> string \<Rightarrow> string list" where
  "split_on sep [] = [[]]"
| "split_on sep (c # s) =
    (if c = sep then [] # split_on sep s else case split_on sep s of [] \<Rightarrow> [[c]] | x # xs \<Rightarrow> (c # x) # xs)"

definition errCameraRequired :: go_error where
  "errCameraRequired = ErrorString ''--camera-id is required''"

datatype run_result = Panicked | Failed go_error | Printed shown

definition print_or_panic :: "(rat \<Rightarrow> rat) \<Rightarrow> load_flags \<Rightarrow> TestResult option \<Rightarrow> run_result" where
  "print_or_panic fl fs r = (case r of None \<Rightarrow> Panicked | Some r \<Rightarrow> Printed (printResult fl fs r))"

definition needs_camera :: "string \<Rightarrow> run_result \<Rightarrow> run_result" where
  "needs_camera cameraID run = (if cameraID = [] then Failed errCameraRequired else run)"

definition streamCmd :: "(rat \<Rightarrow> rat) \<Rightarrow> load_env \<Rightarrow> load_flags \<Rightarrow> string \<Rightarrow> run_result" where
  "streamCmd fl env fs cameraID =
    needs_camera cameraID (print_or_panic fl fs (runStreamTest fl fs cameraID (le_stream env)))"

definition burstCmd :: "(rat \<Rightarrow> rat) \<Rightarrow> load_env \<Rightarrow> load_flags \<Rightarrow> string \<Rightarrow> int \<Rightarrow> duration \<Rightarrow> run_result" where
  "burstCmd fl env fs cameraID ncycles pauseD =
    needs_camera cameraID (print_or_panic fl fs (runBurstTest fl fs cameraID ncycles (le_elapsed env) (le_burst env)))"

definition apiCmd :: "(rat \<Rightarrow> rat) \<Rightarrow> load_env \<Rightarrow> load_flags \<Rightarrow> string \<Rightarrow> run_result" where
  "apiCmd fl env fs endpoints =
    (let eps = (if endpoints \<noteq> [] then split_on (CHR '','') endpoints else defaultEndpoints)
     in print_or_panic fl fs (runAPITest fl fs eps (le_api env)))"

definition recordingCmd :: "(rat \<Rightarrow> rat) \<Rightarrow> load_env \<Rightarrow> load_flags \<Rightarrow> string \<Rightarrow> duration \<Rightarrow> run_result" where
  "recordingCmd fl env fs cameraID lookback =
    needs_camera cameraID
      (case runRecordingTest fl fs (le_now env) cameraID lookback (le_recording env) of
         Inl e \<Rightarrow> Failed e
       | Inr g \<Rightarrow> Printed (print_gaps fl fs cameraID lookback g))"

definition playbackCmd :: "(rat \<Rightarrow> rat) \<Rightarrow> load_env \<Rightarrow> load_flags \<Rightarrow> string \<Rightarrow> duration \<Rightarrow> run_result" where
  "playbackCmd fl env fs cameraID lookback =
    needs_camera cameraID (print_or_panic fl fs (runPlaybackTest fl fs (le_now env) cameraID lookback (le_stream env)))"

definition timelineCmd :: "(rat \<Rightarrow> rat) \<Rightarrow> load_env \<Rightarrow> load_flags \<Rightarrow> string \<Rightarrow> duration \<Rightarrow> run_result" where
  "timelineCmd fl env fs cameraID lookback =
    needs_camera cameraID (print_or_panic fl fs (runTimelineTest fl fs (le_now env) cameraID lookback (le_timeline env)))"

fun load_RunE :: "(rat \<Rightarrow> rat) \<Rightarrow> load_env \<Rightarrow> load_flags \<Rightarrow> load_command \<Rightarrow> run_result" where
  "load_RunE fl env fs (StreamCmd cameraID) = streamCmd fl env fs cameraID"
| "load_RunE fl env fs (BurstCmd cameraID ncycles pauseD) = burstCmd fl env fs cameraID ncycles pauseD"
| "load_RunE fl env fs (APICmd endpoints) = apiCmd fl env fs endpoints"
| "load_RunE fl env fs (RecordingCmd cameraID lookback) = recordingCmd fl env fs cameraID lookback"
| "load_RunE fl env fs (PlaybackCmd cameraID lookback) = playbackCmd fl env fs cameraID lookback"
| "load_RunE fl env fs (TimelineCmd cameraID lookback) = timelineCmd fl env fs cameraID lookback"

lemmas load_cmd_defs = streamCmd_def burstCmd_def apiCmd_def recordingCmd_def playbackCmd_def timelineCmd_def

text \<open>The exit status, what goes to the standard output and what \<^verbatim>\<open>main\<close> writes to the standard error; a panic exits with 2.\<close>

definition load_main :: "(rat \<Rightarrow> rat) \<Rightarrow> load_env \<Rightarrow> load_flags \<Rightarrow> load_command \<Rightarrow> nat \<times> shown \<times> string list" where
  "load_main fl env fs cmd =
    (case load_RunE fl env fs cmd of
       Panicked \<Rightarrow> (2, Silent, [])
     | Failed e \<Rightarrow> (1, Silent, [error_string e])
     | Printed out \<Rightarrow> (0, out, []))"

subsection \<open>The server's side of a request\<close>

text \<open>
  A URL without fragment, user information, percent-encoding and plus signs: the path and the query
  that the server sees, and a parameter of the query.
\<close>

fun after_scheme :: "string \<Rightarrow> string" where
  "after_scheme [] = []"
| "after_scheme (c # s) = (if has_prefix (c # s) ''://'' then drop 3 (c # s) else after_scheme s)"

definition url_resource :: "string \<Rightarrow> string" where
  "url_resource url = dropWhile (\<lambda>c. c \<noteq> CHR ''/'') (after_scheme url)"

definition query_get :: "string \<Rightarrow> string \<Rightarrow> string" where
  "query_get q key =
    (case map_of (map (\<lambda>p. (takeWhile (\<lambda>c. c \<noteq> CHR ''='') p, drop 1 (dropWhile (\<lambda>c. c \<noteq> CHR ''='') p))) (split_on (CHR ''&'') q)) key of
       None \<Rightarrow> [] | Some v \<Rightarrow> v)"

definition url_request :: "string \<Rightarrow> http_request" where
  "url_request url =
    (let r = url_resource url
     in \<lparr>rq_Path = takeWhile (\<lambda>c. c \<noteq> CHR ''?'') r, rq_Header = (\<lambda>k. []),
         rq_Query = query_get (drop 1 (dropWhile (\<lambda>c. c \<noteq> CHR ''?'') r))\<rparr>)"

text \<open>An entry of a page is sent with its times in RFC 3339 with nanoseconds, and decoded from them.\<close>

definition decode_entry :: "TimelineEntry \<Rightarrow> timelineEntry result" where
  "decode_entry it =
    (case (parse_RFC3339 (fmt_RFC3339Nano (te_Start it)), parse_RFC3339 (fmt_RFC3339Nano (te_End it))) of
       (Some t0, Some t1) \<Rightarrow> Inr \<lparr>le_Start = t0, le_End = t1, le_DurationMs = te_DurationMs it\<rparr>
     | _ \<Rightarrow> Inl (ErrorString ''cannot parse time''))"

fun decode_items :: "TimelineEntry list \<Rightarrow> timelineEntry list result" where
  "decode_items [] = Inr []"
| "decode_items (it # its) =
    (case decode_entry it of
       Inl e \<Rightarrow> Inl e
     | Inr x \<Rightarrow> (case decode_items its of Inl e \<Rightarrow> Inl e | Inr xs \<Rightarrow> Inr (x # xs)))"

text \<open>
  What the continuity test gets from an edge node. A problem document has no items, a panic is
  answered with status 500 and an empty body, and what the other endpoints answer is an argument.
\<close>

definition edge_answers ::
  "route_finder \<Rightarrow> route list \<Rightarrow> bool \<Rightarrow> 'ix http_env \<Rightarrow> 'ix HTTPHandler
     \<Rightarrow> (served \<Rightarrow> nat \<times> timelineEntry list result result) \<Rightarrow> string \<Rightarrow> go_error + (nat \<times> timelineEntry list result result)" where
  "edge_answers chi builtin ui env h other url =
    (let rq = url_request url;
         input = \<lparr>pi_Limit = 0, pi_Offset = 0, ti_CameraID = segs (rq_Path rq) ! 3, ti_Start = rq_Query rq ''start'',
                  ti_End = rq_Query rq ''end''\<rparr>
     in case ServeHTTP chi builtin ui h GET rq of
          Inl (status, detail) \<Rightarrow> Inr (status, Inr (Inr []))
        | Inr s \<Rightarrow>
          if s \<noteq> Served EpRecordings then Inr (other s)
          else (case fst (humaRecordingTimeline env input h) of
                  Inl (status, detail) \<Rightarrow> Inr (status, Inr (Inr []))
                | Inr None \<Rightarrow> Inr (500, Inr (Inl (ErrorString ''unexpected end of JSON input'')))
                | Inr (Some p) \<Rightarrow> Inr (200, Inr (decode_items (pg_Items p)))))"

subsection \<open>The request of the continuity test\<close>

definition plain_text :: "string \<Rightarrow> bool" where
  "plain_text s \<longleftrightarrow> (\<forall>c \<in> set s. c \<notin> {CHR ''/'', CHR ''?'', CHR ''='', CHR ''&'', CHR ''#'', CHR ''%'', CHR ''+'', CHR ''@''})"

definition sec_floor :: "instant \<Rightarrow> instant" where
  "sec_floor t = t - t mod 1000000000"

lemma unix_sec_floor [simp]: "unix_sec (sec_floor t) = unix_sec t"
  by (simp add: unix_sec_def sec_floor_def minus_mod_eq_mult_div)

lemma fmt_range_floor: "fmt_range t \<Longrightarrow> fmt_range (sec_floor t)"
proof -
  assume t: "fmt_range t"
  then have "0 \<le> sec_floor t" by (simp add: sec_floor_def minus_mod_eq_mult_div fmt_range_def pos_imp_zdiv_nonneg_iff)
  moreover have "sec_floor t \<le> t" by (simp add: sec_floor_def)
  ultimately show ?thesis using t unfolding fmt_range_def by linarith
qed

lemma fmt_RFC3339_floor: "fmt_RFC3339 t = fmt_RFC3339Nano (sec_floor t)"
proof -
  have "nanos (sec_floor t) = 0" by (simp add: nanos_def sec_floor_def minus_mod_eq_mult_div)
  moreover have "fmt_frac 0 = []" by code_simp
  moreover have "fmt_second (sec_floor t) = fmt_second t"
    by (simp add: fmt_second_def fmt_date_def fmt_clock_def t_year_def t_month_def t_day_def t_hour_def t_minute_def t_second_def)
  ultimately show ?thesis by (simp add: fmt_RFC3339_def fmt_RFC3339Nano_def)
qed

lemma parse_fmt_RFC3339: "fmt_range t \<Longrightarrow> time_Parse general (fmt_RFC3339 t) = Some (sec_floor t)"
  by (simp add: time_Parse_def fmt_RFC3339_floor parse_fmt_RFC3339Nano fmt_range_floor)

lemma sec_floor_mono: "s \<le> t \<Longrightarrow> sec_floor s \<le> sec_floor t"
  using zdiv_mono1 [of s t 1000000000] by (simp add: sec_floor_def minus_mod_eq_mult_div)

lemma set_pad: "c \<in> set (pad w n) \<Longrightarrow> is_digit c"
  unfolding is_digit_def by (rule pad_digits)

lemma fmt_RFC3339_plain: "fmt_range t \<Longrightarrow> c \<in> set (fmt_RFC3339 t) \<Longrightarrow> is_digit c \<or> c \<in> {CHR ''-'', CHR '':'', CHR ''T'', CHR ''Z''}"
  unfolding fmt_RFC3339_def fmt_second_eq by (auto dest: set_pad)

lemma after_scheme_http: "after_scheme (''http://'' @ s) = s"
  by (simp add: has_prefix_def)

lemma split_on_plain: "sep \<notin> set s \<Longrightarrow> split_on sep s = [s]"
  by (induction s) auto

lemma split_on_append: "sep \<notin> set s \<Longrightarrow> split_on sep (s @ sep # t) = s # split_on sep t"
  by (induction s) auto

lemma split_on_nonempty [simp]: "split_on sep s \<noteq> []"
  by (cases s) (auto split: list.split)

text \<open>The server reads the path and the times that the test has written into the URL.\<close>

lemma recordings_request:
  assumes "lf_target fs = ''http://'' @ host" "plain_text host" "plain_text cam" "fmt_range (now - lookback)" "fmt_range now"
  defines "rq \<equiv> url_request (recordings_url fs cam now lookback)"
  shows "rq_Path rq = ''/api/cameras/'' @ cam @ ''/recordings''"
    and "rq_Query rq ''start'' = fmt_RFC3339 (now - lookback)" "rq_Query rq ''end'' = fmt_RFC3339 now" "rq_Header rq k = []"
proof -
  let ?S = "fmt_RFC3339 (now - lookback)" and ?E = "fmt_RFC3339 now"
  let ?path = "''/api/cameras/'' @ cam @ ''/recordings''" and ?q = "''start='' @ ?S @ ''&end='' @ ?E"
  have url: "recordings_url fs cam now lookback = ''http://'' @ host @ ?path @ CHR ''?'' # ?q"
    by (simp add: recordings_url_def assms(1) Let_def)
  have r: "url_resource (recordings_url fs cam now lookback) = ?path @ CHR ''?'' # ?q"
    using split_While(2) [of host "\<lambda>c. c \<noteq> CHR ''/''" "?path @ CHR ''?'' # ?q"] assms(2)
    unfolding url url_resource_def after_scheme_http by (simp add: plain_text_def)
  have path: "takeWhile (\<lambda>c. c \<noteq> CHR ''?'') (?path @ CHR ''?'' # ?q) = ?path"
    "dropWhile (\<lambda>c. c \<noteq> CHR ''?'') (?path @ CHR ''?'' # ?q) = CHR ''?'' # ?q"
    using assms(3) by (intro split_While; auto simp: plain_text_def)+
  have nd: "\<not> is_digit (CHR ''&'')" "\<not> is_digit (CHR ''='')" by (simp_all add: is_digit_def digit_val_def)
  have amp: "CHR ''&'' \<notin> set ?S" "CHR ''&'' \<notin> set ?E"
    using fmt_RFC3339_plain [OF assms(4), of "CHR ''&''"] fmt_RFC3339_plain [OF assms(5), of "CHR ''&''"] nd by auto
  have "split_on (CHR ''&'') (''start='' @ ?S @ ''&end='' @ ?E) = [''start='' @ ?S, ''end='' @ ?E]"
    using split_on_append [of "CHR ''&''" "''start='' @ ?S" "''end='' @ ?E"] split_on_plain [of "CHR ''&''" "''end='' @ ?E"] amp by simp
  then have q: "query_get ?q ''start'' = ?S" "query_get ?q ''end'' = ?E" by (simp_all add: query_get_def)
  show "rq_Path rq = ?path" "rq_Query rq ''start'' = ?S" "rq_Query rq ''end'' = ?E" "rq_Header rq k = []"
    unfolding rq_def url_request_def r Let_def path using q by simp_all
qed

lemma recordings_route:
  assumes "chi_ok chi" "builtin_apart builtin" "sv_chanW (hh_svc h)" "segment_name cam"
  shows "chi (rt_routes (newRouter builtin ui h)) GET (''/api/cameras/'' @ cam @ ''/recordings'') = Some EpRecordings"
    and "segs (''/api/cameras/'' @ cam @ ''/recordings'') ! 3 = cam"
proof -
  have two: "segs (''/api/cameras/'' @ cam @ ''/recordings'') = [[], ''api'', ''cameras'', cam, ''recordings'']"
    using assms(4) segs_append_plain [of cam "''recordings''"] by (simp add: segment_name_def)
  then show "segs (''/api/cameras/'' @ cam @ ''/recordings'') ! 3 = cam" by simp
  have api: "has_prefix (''/api/cameras/'' @ x) ''/api/''" for x by (simp add: has_prefix_def)
  have "cam \<noteq> []" using assms(4) by (simp add: segment_name_def)
  then have "picks (rt_routes (newRouter builtin ui h)) GET (''/api/cameras/'' @ cam @ ''/recordings'') = {EpRecordings}"
    unfolding picks_newRouter [OF assms(2,3) api] two seg_routes_def by (simp add: method_ok_def is_param_def)
  moreover have "[] \<notin> set (tl (segs (''/api/cameras/'' @ cam @ ''/recordings'')))" unfolding two using \<open>cam \<noteq> []\<close> by simp
  ultimately show "chi (rt_routes (newRouter builtin ui h)) GET (''/api/cameras/'' @ cam @ ''/recordings'') = Some EpRecordings"
    using chi_picks [OF assms(1)] by blast
qed

text \<open>What the test sees of a recording.\<close>

definition seen_entry :: "RecordingEntry \<Rightarrow> timelineEntry" where
  "seen_entry e = \<lparr>le_Start = re_StartTime e, le_End = re_EndTime e,
     le_DurationMs = Milliseconds (time_Sub (re_EndTime e) (re_StartTime e))\<rparr>"

lemma decode_timeline_entries:
  "\<forall>e \<in> set es. fmt_range (re_StartTime e) \<and> fmt_range (re_EndTime e) \<Longrightarrow>
     decode_items (map timeline_entry es) = Inr (map seen_entry es)"
  by (induction es) (simp_all add: decode_entry_def timeline_entry_def seen_entry_def parse_fmt_RFC3339Nano)

lemma first_page: "page \<lparr>pi_Limit = 0, pi_Offset = 0\<rparr> xs =
    Some \<lparr>pg_Items = take 100 xs, pg_TotalCount = int (length xs), pg_Limit = 100, pg_Offset = 0\<rparr>"
  by (auto simp: page_def effectiveLimit_def go_slice_def Let_def min_def)

lemma indexed_times:
  assumes "index_inv s" "index_view_of env s ch i = Some e"
  shows "fmt_range (re_StartTime e) \<and> fmt_range (re_EndTime e)"
proof -
  obtain r where r: "r \<in> set (recs s ch)" "e = entry_of env ch r"
    using assms(2) by (auto simp: index_view_of_def view_of_def dest!: map_of_SomeD)
  then have "row_timed r" using assms(1) by (auto simp: index_inv_def tables_ok_def)
  then show ?thesis using r(2) by (auto simp: row_timed_def entry_of_def)
qed

text \<open>
  C31: the continuity test reads the node's own index. For a camera whose identifier is plain text, and any
  router that chi's documentation allows, the request of the test reaches the recordings endpoint with
  the period cut off to whole seconds. A node without a token answers with the entries of its index in
  that period, and the test analyses the first hundred of them, exactly as they are stored. A node
  with a token refuses the request, and the test reports no segment at all, not an error.
\<close>

theorem continuity_test_reads_index:
  assumes "chi_ok chi" "builtin_apart builtin" "sv_chanW (hh_svc h)" "segment_name cam"
    and "lf_target fs = ''http://'' @ host" "plain_text host" "plain_text cam"
    and "0 \<le> lookback" "fmt_range (now - lookback)" "fmt_range now"
    and "pe_ops (he_play env) = sqlite_ops ie" "sv_recIndex (hh_svc h) = Some ix" "index_inv ix"
    and "QueryByChannel ie cam (sec_floor (now - lookback)) (sec_floor now) ix = (Inr es, ix')"
  shows "runRecordingTest fl fs now cam lookback (edge_answers chi builtin ui env h other) =
    Inr (analyze fl (if hh_authToken h = [] then map seen_entry (take 100 es) else []) lookback)"
proof -
  let ?url = "recordings_url fs cam now lookback"
  define path where "path = ''/api/cameras/'' @ cam @ ''/recordings''"
  note rq = recordings_request [OF assms(5-7,9,10), folded path_def]
  note route = recordings_route [OF assms(1-4), folded path_def]
  have noUI: "\<not> isUIPath ui path" by (simp add: isUIPath_def has_prefix_def path_def)
  have nonpublic: "path \<notin> {''/healthz'', ''/health'', ''/docs'', ''/docs/'', ''/openapi.json'', ''/openapi.yaml''}" by (simp add: path_def)
  have ws: "\<not> isWebSocketUpgrade (url_request ?url)" by (simp add: isWebSocketUpgrade_def rq(4) equal_fold_def to_lower_def)
  have serve: "ServeHTTP chi builtin ui h GET (url_request ?url) =
      (if hh_authToken h = [] then Inr (Served EpRecordings) else Inl (401, ''missing or invalid bearer token''))"
    using nonpublic by (simp add: ServeHTTP_def authMiddleware_def rq(1,4) noUI ws route_dispatch_def route(1) writeProblem_def Let_def)
  have S: "fmt_RFC3339 t \<noteq> []" for t by (simp add: fmt_RFC3339_def)
  have range: "parseOptionalTimeRange (he_parse env) (he_now env) (fmt_RFC3339 (now - lookback)) (fmt_RFC3339 now) =
      Inr (sec_floor (now - lookback), sec_floor now)"
    using sec_floor_mono [of "now - lookback" now] assms(8)
    by (simp add: parseOptionalTimeRange_def S parse_fmt_RFC3339 assms(9,10))
  have "\<forall>e \<in> set es. fmt_range (re_StartTime e) \<and> fmt_range (re_EndTime e)"
    using QueryByChannel_correct [OF assms(13,14)] indexed_times [OF assms(13)] by blast
  then have dec: "decode_items (map timeline_entry (take 100 es)) = Inr (map seen_entry (take 100 es))"
    by (intro decode_timeline_entries) (auto dest: in_set_takeD)
  have "edge_answers chi builtin ui env h other ?url =
      Inr (if hh_authToken h = [] then (200, Inr (Inr (map seen_entry (take 100 es)))) else (401, Inr (Inr [])))"
    by (simp add: edge_answers_def Let_def serve rq route(2) humaRecordingTimeline_def timeline_page_def range Timeline_def
        assms(11,12,14) sqlite_ops_def paginatedInput.defs first_page take_map dec)
  then show ?thesis by (simp add: runRecordingTest_def)
qed

definition handler2 :: "sqliteIndex HTTPHandler" where
  "handler2 = handler1\<lparr>hh_authToken := []\<rparr>"

lemma continuity_test_reads_index_witness:
  "runRecordingTest (\<lambda>x. x) flags0 (10 * Second) ''c'' (10 * Second)
     (edge_answers ref_router [] True http_env0 handler2 (\<lambda>s. (404, Inr (Inr [])))) =
   Inr (analyze (\<lambda>x. x) [seen_entry Playback.clip0] (10 * Second))"
proof -
  have f: "fmt_range 500000000" "fmt_range (10 * Second)" "(500000000 :: int) + Second \<le> 10 * Second" "fmt_range 0"
    by (simp_all add: fmt_range_def Second_def)
  have floors: "sec_floor (10 * Second) = 10 * Second" "sec_floor 0 = 0" by (simp_all add: sec_floor_def Second_def)
  have "fmt_RFC3339Nano 500000000 < fmt_RFC3339Nano (10 * Second)" by (rule fmt_RFC3339Nano_mono) (use f in \<open>simp_all add: unix_sec_def Second_def\<close>)
  then have "row_selected 0 (10 * Second) (row_of Playback.clip0)"
    using row_selected_clip0(1) by (simp add: row_selected_def row_of_def Playback.clip0_def Second_def)
  then have q: "QueryByChannel env0 ''c'' 0 (10 * Second) (index_with [row_of Playback.clip0]) =
      (Inr [Playback.clip0], index_with [row_of Playback.clip0])"
    using single_entry(3) [OF clip0_ok(1-3), of 0 "10 * Second"] clip0_ok(4) by simp
  have h: "hh_authToken handler2 = []" "sv_chanW (hh_svc handler2)" "sv_recIndex (hh_svc handler2) = Some (index_with [row_of Playback.clip0])"
    "pe_ops (he_play http_env0) = sqlite_ops env0"
    using service0_fields by (simp_all add: handler2_def handler1_def handler0_def http_env0_def)
  have plain: "segment_name ''c''" "plain_text ''c''" "plain_text ''localhost:8080''" by (simp_all add: segment_name_def plain_text_def)
  show ?thesis
    using continuity_test_reads_index [OF ref_router_ok, of "[]" handler2 "''c''" flags0 "''localhost:8080''" "10 * Second" "10 * Second"
        http_env0 env0 "index_with [row_of Playback.clip0]" "[Playback.clip0]" "index_with [row_of Playback.clip0]" "\<lambda>x. x" True
        "\<lambda>s. (404, Inr (Inr []))"] h plain floors f q single_entry(4) [OF clip0_ok(1-3)]
    by (simp add: builtin_apart_def flags0_def)
qed

subsection \<open>Outcomes of a run\<close>

text \<open>
  Every command but \<^verbatim>\<open>api\<close> needs a camera: with the defaults of its flags it asks nothing and ends with status 1.
\<close>

lemma commands_need_camera:
  "(name, cmd) \<in> set load_commands \<Longrightarrow> name \<noteq> ''api'' \<Longrightarrow> load_main fl env fs cmd = (1, Silent, [''--camera-id is required''])"
  by (auto simp: load_commands_def load_main_def load_cmd_defs needs_camera_def errCameraRequired_def)

lemma stream_no_duration:
  assumes "lf_duration fs = 0" "clients_report fl fs name client = Some r" "float64_ok fl"
  shows "tr_Throughput r \<in> {NaN, Infinite True, Infinite False}"
proof -
  have "fl 0 = 0" using fl_int [OF assms(3), of 0] by simp
  then have "duration_Seconds fl 0 = 0" by (simp add: duration_Seconds_def)
  then show ?thesis using assms(1,2)
    by (auto simp: clients_report_def make_report_def Let_def float_div_def split: option.splits)
qed

text \<open>
  A stream or playback test of no duration that should print JSON prints nothing and ends with status 0:
  the throughput is not a number or infinite, which the encoder refuses, and the error is dropped.
\<close>

lemma zero_duration_prints_nothing:
  assumes "lf_duration fs = 0" "lf_outputJSON fs" "float64_ok fl" "cam \<noteq> []"
    and "load_RunE fl env fs (StreamCmd cam) \<noteq> Panicked"
  shows "load_main fl env fs (StreamCmd cam) = (0, Silent, [])"
proof -
  obtain r where r: "runStreamTest fl fs cam (le_stream env) = Some r"
    using assms(4,5) by (auto simp: load_cmd_defs needs_camera_def print_or_panic_def split: option.splits)
  then have "tr_Throughput r \<in> {NaN, Infinite True, Infinite False}"
    using stream_no_duration [OF assms(1) _ assms(3)] by (auto simp: runStreamTest_def)
  then have "\<not> encodable (result_json r)" by (auto simp: result_json_def Let_def)
  then show ?thesis using r assms(2,4) by (simp add: load_main_def load_cmd_defs needs_camera_def print_or_panic_def printResult_def)
qed

subsection \<open>The printed table\<close>

lemma rune_count_row: "rune_count (row s) = rune_count s + 4"
proof -
  have bar3: "rune_size (bar @ t) = 3" for t by (simp add: rune_size_def bar_def byte_in_def tail_bytes_def upt_rec)
  have bar: "rune_count (bar @ t) = Suc (rune_count t)" for t
    using bar3 [of t] by (simp add: bar_def)
  have "rune_count (s @ '' '' @ bar) = rune_count s + 2"
    using rune_count_append [of "CHR '' ''" s bar] rune_count_ascii_append [of "'' ''" bar] bar [of "[]"] by simp
  then show ?thesis using bar rune_count_ascii_append [of "'' ''" "s @ '' '' @ bar"] by (simp add: row_def)
qed

lemma rune_count_label: "list_all ascii l \<Longrightarrow> rune_count (row (l @ s)) = length l + rune_count s + 4"
  by (simp add: rune_count_row rune_count_ascii_append)

lemma rune_count_box:
  assumes "0x80 \<le> (of_char x :: nat)" "(of_char x :: nat) \<le> 0xBF"
  shows "rune_count (CHR 0xE2 # CHR 0x94 # x # t) = Suc (rune_count t)"
proof -
  have "rune_size (CHR 0xE2 # CHR 0x94 # x # t) = 3" using assms by (simp add: rune_size_def byte_in_def tail_bytes_34)
  then show ?thesis by simp
qed

lemma rune_count_dashes: "rune_count (concat (replicate n [CHR 0xE2, CHR 0x94, CHR 0x80]) @ t) = n + rune_count t"
  by (induction n) (simp_all add: rune_count_box del: rune_count.simps(2))

lemma rune_count_rules: "rune_count top_rule = 43" "rune_count mid_rule = 43" "rune_count bottom_rule = 43"
  by (simp_all add: top_rule_def mid_rule_def bottom_rule_def rule_row_def rune_count_box rune_count_dashes del: rune_count.simps(2))

text \<open>
  The printed table is not straight. When every value fits into its column all rows are 43 characters
  wide, as wide as the rules, but the rows of the errors and of the throughput, which are 45.
\<close>

lemma result_rows_widths:
  assumes "rune_count (tr_TestName r) \<le> 39"
    and "\<forall>s \<in> {duration_String (duration_Round (tr_Duration r) Millisecond), itoa (tr_Clients r), itoa (tr_Requests r)}. rune_count s \<le> 26"
    and "\<forall>d \<in> {ls_P50, ls_P95, ls_P99, ls_Max, ls_Avg}. rune_count (duration_String (duration_Round (d (tr_Latencies r)) Microsecond)) \<le> 26"
    and "rune_count (itoa (tr_Errors r)) \<le> 22" "rune_count (float_fixed 1 (tr_Throughput r)) \<le> 22"
    and "rune_count (float_fixed 1 (Finite (errorRate fl r))) \<le> 4"
  shows "map rune_count (result_rows fl r) = [43, 43, 43, 43, 43, 43, 45, 45, 43, 43, 43, 43, 43, 43, 43]"
proof -
  let ?e = "pad_right 22 (itoa (tr_Errors r))" and ?p = "pad_left 4 (float_fixed 1 (Finite (errorRate fl r)))"
  have lab: "rune_count (row (l @ pad_right w s)) = length l + w + 4" if "list_all ascii l" "rune_count s \<le> w" for l w s
    using rune_count_label [OF that(1)] rune_count_pad_right [OF that(2)] by simp
  have tail: "rune_count (s @ c # t) = rune_count s + Suc (length t)" if "ascii c" "list_all ascii t" for s c t
    using rune_count_append [OF that(1), of s t] rune_count_ascii_append [of "c # t" "[]"] that by simp
  have e: "rune_count (row (''Errors:      '' @ ?e @ '' '' @ ?p @ ''%'')) = 45"
  proof -
    have "rune_count (?p @ ''%'') = 5" using tail [of "CHR ''%''" "[]" ?p] rune_count_pad_left [OF assms(6)] by simp
    then have "rune_count (?e @ CHR '' '' # ?p @ ''%'') = 28"
      using rune_count_append [of "CHR '' ''" ?e "?p @ ''%''"] rune_count_ascii_append [of "'' ''" "?p @ ''%''"]
        rune_count_pad_right [OF assms(4)] by simp
    then show ?thesis using rune_count_label [of "''Errors:      ''" "?e @ CHR '' '' # ?p @ ''%''"] by simp
  qed
  have t: "rune_count (row (''Throughput:  '' @ pad_right 22 (float_fixed 1 (tr_Throughput r)) @ '' req/s'')) = 45"
    using rune_count_label [of "''Throughput:  ''" "pad_right 22 (float_fixed 1 (tr_Throughput r)) @ '' req/s''"]
      tail [of "CHR '' ''" "''req/s''" "pad_right 22 (float_fixed 1 (tr_Throughput r))"] rune_count_pad_right [OF assms(5)] by simp
  have name: "rune_count (row (pad_right 39 (tr_TestName r))) = 43" using lab [of "[]" "tr_TestName r" 39] assms(1) by simp
  have lab13: "rune_count (row (l @ pad_right 26 s)) = 43" if "list_all ascii l" "length l = 13" "rune_count s \<le> 26" for l s
    using lab [OF that(1,3)] that(2) by simp
  have v: "rune_count (duration_String (duration_Round (tr_Duration r) Millisecond)) \<le> 26" "rune_count (itoa (tr_Clients r)) \<le> 26"
    "rune_count (itoa (tr_Requests r)) \<le> 26" using assms(2) by blast+
  have l: "rune_count (duration_String (duration_Round (d (tr_Latencies r)) Microsecond)) \<le> 26" if "d \<in> {ls_P50, ls_P95, ls_P99, ls_Max, ls_Avg}" for d
    using assms(3) that by blast
  have rows: "rune_count (row (''Duration:    '' @ pad_right 26 (duration_String (duration_Round (tr_Duration r) Millisecond)))) = 43"
    "rune_count (row (''Clients:     '' @ pad_right 26 (itoa (tr_Clients r)))) = 43"
    "rune_count (row (''Requests:    '' @ pad_right 26 (itoa (tr_Requests r)))) = 43"
    by (rule lab13; (rule v)?; simp)+
  have "rune_count (row (lb @ pad_right 26 (duration_String (duration_Round (d (tr_Latencies r)) Microsecond)))) = 43"
    if "list_all ascii lb" "length lb = 13" "d \<in> {ls_P50, ls_P95, ls_P99, ls_Max, ls_Avg}" for lb d
    by (rule lab13 [OF that(1,2) l [OF that(3)]])
  note lats = this [of "''P50:         ''" ls_P50] this [of "''P95:         ''" ls_P95] this [of "''P99:         ''" ls_P99]
    this [of "''Max:         ''" ls_Max] this [of "''Avg:         ''" ls_Avg]
  have lats': "list_all ascii ''P50:         ''" "list_all ascii ''P95:         ''" "list_all ascii ''P99:         ''"
    "list_all ascii ''Max:         ''" "list_all ascii ''Avg:         ''" "length ''P50:         '' = 13" "length ''P95:         '' = 13"
    "length ''P99:         '' = 13" "length ''Max:         '' = 13" "length ''Avg:         '' = 13"
    by simp_all
  show ?thesis
    unfolding result_rows_def Let_def list.map rune_count_rules name e t rows
      lats(1) [OF lats'(1,6) insertI1] lats(2) [OF lats'(2,7) insertI2 [OF insertI1]]
      lats(3) [OF lats'(3,8) insertI2 [OF insertI2 [OF insertI1]]] lats(4) [OF lats'(4,9) insertI2 [OF insertI2 [OF insertI2 [OF insertI1]]]]
      lats(5) [OF lats'(5,10) insertI2 [OF insertI2 [OF insertI2 [OF insertI2 [OF insertI1]]]]]
    by (rule refl)
qed

end
