(* ===== verification/Packet_Types.thy ===== *)
theory Packet_Types
  imports Grabber
begin

text \<open>
  The packets of the RTSP grabber, \<^verbatim>\<open>src/internal/avgrabber/demuxer.go\<close>, are well typed: an invariant of the
  demuxer's state that every call keeps, and the form of the packets and streams that it returns.
\<close>

subsection \<open>The type of packets\<close>

text \<open>
  What the type \<^verbatim>\<open>av.Packet\<close> promises beyond its Go type: a packet belongs to the video or the audio
  stream and has a codec type of that medium; only video packets are key frames; only key frames carry
  codecs, and those are the video stream, or the video and the audio stream; durations are 64-bit.
\<close>

definition video_codec_types :: "CodecType set" where "video_codec_types = {H264, H265, MJPEG, UNKNOWN}"
definition audio_codec_types :: "CodecType set" where "audio_codec_types = {AAC, PCM_MULAW, PCM_ALAW, OPUS, PCM}"

definition streams_ok :: "'c Stream list \<Rightarrow> bool" where
  "streams_ok ss \<longleftrightarrow> map st_Idx ss = [videoStreamIdx] \<or> map st_Idx ss = [videoStreamIdx, audioStreamIdx]"

definition packet_ok :: "'c Packet \<Rightarrow> bool" where
  "packet_ok p \<longleftrightarrow>
    (if pk_Idx p = videoStreamIdx then pk_CodecType p \<in> video_codec_types
     else pk_Idx p = audioStreamIdx \<and> pk_CodecType p \<in> audio_codec_types \<and> \<not> pk_KeyFrame p)
    \<and> (case pk_NewCodecs p of None \<Rightarrow> True | Some ss \<Rightarrow> pk_KeyFrame p \<and> streams_ok ss)
    \<and> fits64 (pk_DTS p) \<and> fits64 (pk_PTSOffset p) \<and> fits64 (pk_Duration p)"

text \<open>The state of the demuxer: announced codecs are known, and stored times are 64-bit.\<close>

definition demuxer_ok :: "'c Demuxer \<Rightarrow> bool" where
  "demuxer_ok d \<longleftrightarrow> (dm_audioReady d \<longrightarrow> dm_audioCodec d \<noteq> None) \<and> (dm_codecDirty d \<longrightarrow> dm_videoCodec d \<noteq> None)
    \<and> fits64 (dm_nominalVideoDur d)"

definition env_ok :: "('c, 'm) grab_env \<Rightarrow> bool" where
  "env_ok env \<longleftrightarrow> (\<forall>cd. fits64 (ge_PacketDuration env cd))"

lemma fits64_sdiv:
  assumes "fits64 a" "0 \<le> b"
  shows "fits64 (a sdiv b)"
proof (cases "b = 0")
  case False
  then have b: "1 \<le> b" using assms(2) by simp
  show ?thesis
  proof (cases "0 \<le> a")
    case True
    then have "0 \<le> a div b" "a div b \<le> a" using b zdiv_mono2 [of a 1 b] by (simp_all add: pos_imp_zdiv_nonneg_iff)
    then show ?thesis using assms(1) True b by (auto simp: fits64_def signed_divide_int_def sgn_if)
  next
    case False
    then have "0 \<le> - a div b" "- a div b \<le> - a" using b zdiv_mono2 [of "- a" 1 b] by (simp_all add: pos_imp_zdiv_nonneg_iff)
    then show ?thesis using assms(1) False b by (auto simp: fits64_def signed_divide_int_def sgn_if)
  qed
qed (simp add: fits64_def)

lemma fits64_ticks_duration [simp]: "fits64 (ticks_duration t clk)"
  by (simp add: ticks_duration_def fits64_sdiv)

lemma other_stream [simp]: "audioStreamIdx \<noteq> videoStreamIdx"
  by (simp add: stream_indices)

lemma new_demuxer_ok [simp]: "demuxer_ok (new_demuxer s)"
  by (simp add: demuxer_ok_def new_demuxer_def fits64_def)

lemma set_audio_ok [simp]: "demuxer_ok d \<Longrightarrow> demuxer_ok (set_audio cd clk d)"
  by (simp add: demuxer_ok_def set_audio_def)

lemma tryAudioFromFrame_ok [simp]: "demuxer_ok d \<Longrightarrow> demuxer_ok (tryAudioFromFrame env k f d)"
  by (simp add: tryAudioFromFrame_def Let_def split: sum.split prod.split)

lemma tryAudioFromStreamInfo_ok [simp]: "demuxer_ok d \<Longrightarrow> demuxer_ok (tryAudioFromStreamInfo env k d)"
  by (simp add: tryAudioFromStreamInfo_def Let_def split: sum.split) (simp add: demuxer_ok_def)

lemma applyParamSet_ok: "env_ok env \<Longrightarrow> demuxer_ok d \<Longrightarrow> applyParamSet env f d = (r, d') \<Longrightarrow> demuxer_ok d'"
  by (auto simp: applyParamSet_def applyH264ParamSet_def applyH265ParamSet_def set_video_codec_def env_ok_def demuxer_ok_def
      split: if_splits option.splits prod.splits sum.splits)

lemma videoDuration_ok:
  "demuxer_ok d \<Longrightarrow> videoDuration dts d = (dur, d') \<Longrightarrow> demuxer_ok d' \<and> fits64 dur"
  by (auto simp: videoDuration_def demuxer_ok_def Let_def split: if_splits)

lemma buildStreams_ok: "buildStreams d = Some ss \<Longrightarrow> streams_ok ss"
  by (auto simp: buildStreams_def streams_ok_def split: option.splits if_splits)

lemma basePacket_simps [simp]:
  "pk_Idx (basePacket f i d) = i" "pk_CodecType (basePacket f i d) = avCodecType f" "\<not> pk_KeyFrame (basePacket f i d)"
  "pk_NewCodecs (basePacket f i d) = None" "fits64 (pk_DTS (basePacket f i d))" "fits64 (pk_PTSOffset (basePacket f i d))"
  by (simp_all add: basePacket_def Let_def) (simp_all add: fits64_def)

lemma avCodecType_in [simp]:
  "fr_MediaType f = MediaVideo \<Longrightarrow> avCodecType f \<in> video_codec_types"
  "fr_MediaType f = MediaAudio \<Longrightarrow> avCodecType f \<in> audio_codec_types"
  by (simp_all add: avCodecType_def video_codec_types_def audio_codec_types_def frame_kinds)

lemma audioDuration_fits [simp]: "fits64 (audioDuration f dts d)"
  using fits64_wrap64 [of "dts - dm_lastAudioDTS d"] by (auto simp: audioDuration_def max_def) (simp_all add: fits64_def)

lemma videoFrameToPacket_ok:
  assumes "env_ok env" "demuxer_ok d" "fr_MediaType f = MediaVideo" "videoFrameToPacket env f d = (r, d')"
  shows "demuxer_ok d'" and "r = Inr (Some p) \<Longrightarrow> packet_ok p"
proof -
  obtain dur d1 where v: "videoDuration (pk_DTS (basePacket f videoStreamIdx d)) d = (dur, d1)" by force
  note ok = videoDuration_ok [OF assms(2) v]
  obtain e d2 where a: "applyParamSet env f d = (e, d2)" by force
  note p = applyParamSet_ok [OF assms(1,2) a]
  have clean: "demuxer_ok (d1\<lparr>dm_codecDirty := False\<rparr>)" using ok by (simp add: demuxer_ok_def)
  show "demuxer_ok d'"
    using assms(2,4) ok clean p by (auto simp: videoFrameToPacket_def v a Let_def split: if_splits option.splits)
  show "packet_ok p" if "r = Inr (Some p)"
    using assms(3,4) that ok
    by (auto simp: videoFrameToPacket_def v a Let_def packet_ok_def split: if_splits option.splits dest: buildStreams_ok)
qed

lemma audioFrameToPacket_ok:
  assumes "demuxer_ok d" "fr_MediaType f = MediaAudio" "audioFrameToPacket env k f d = (r, d')"
  shows "demuxer_ok d'" and "r = Inr (Some p) \<Longrightarrow> packet_ok p"
proof -
  define d0 where "d0 = (if dm_audioReady d then d else tryAudioFromFrame env k f d)"
  have "demuxer_ok d0" using assms(1) by (simp add: d0_def)
  moreover from this have "demuxer_ok (d0\<lparr>dm_lastAudioDTS := x, dm_hasLastAudioDTS := True\<rparr>)" for x
    by (simp add: demuxer_ok_def)
  ultimately show "demuxer_ok d'"
    using assms(3) by (auto simp: audioFrameToPacket_def Let_def d0_def [symmetric] split: if_splits sum.splits option.splits prod.splits)
  show "packet_ok p" if "r = Inr (Some p)"
    using assms(2,3) that
    by (auto simp: audioFrameToPacket_def Let_def d0_def [symmetric] packet_ok_def
        split: if_splits sum.splits option.splits prod.splits)
qed

lemma frameToPacket_ok:
  assumes "env_ok env" "demuxer_ok d" "frameToPacket env k f d = (r, d')"
  shows "demuxer_ok d'" and "r = Inr (Some p) \<Longrightarrow> packet_ok p"
proof -
  consider "fr_MediaType f = MediaVideo" "videoFrameToPacket env f d = (r, d')"
    | "fr_MediaType f = MediaAudio" "audioFrameToPacket env k f d = (r, d')" | "r = Inr None" "d' = d"
    using assms(3) by (auto simp: frameToPacket_def split: if_splits)
  then have "demuxer_ok d' \<and> (r = Inr (Some p) \<longrightarrow> packet_ok p)"
  proof cases
    case 1
    then show ?thesis using videoFrameToPacket_ok [OF assms(1,2)] by blast
  next
    case 2
    then show ?thesis using audioFrameToPacket_ok [OF assms(2)] by blast
  qed (use assms(2) in simp)
  then show "demuxer_ok d'" and "r = Inr (Some p) \<Longrightarrow> packet_ok p" by blast+
qed

lemma ReadPacket_ok:
  assumes "ReadPacket env d k = Some y" "env_ok env" "demuxer_ok d"
  shows "\<exists>r d' k'. y = (r, d', k') \<and> demuxer_ok d' \<and> (case r of Inl e \<Rightarrow> True | Inr p \<Rightarrow> packet_ok p)"
  using assms
proof (induction rule: ReadPacket.raw_induct [rotated 1, consumes 1, case_names step])
  case (step R env d k y)
  show ?case
  proof (cases "ge_ctx_Err env k")
    case None
    show ?thesis
    proof (cases "NextFrame (ge_lib env) (dm_session d) frameTimeoutMS k")
      case (Inl e)
      then show ?thesis using step None by (auto split: if_splits)
    next
      case (Inr f)
      obtain r d' where r: "frameToPacket env k f d = (r, d')" by force
      note ok = frameToPacket_ok [OF step(3,4) r]
      then show ?thesis
        using step(1) [of env d' "k + 1" y] step(2,3) None Inr r by (cases r) (auto split: option.splits)
    qed
  qed (use step in auto)
qed

lemma codecs_step_ok:
  assumes "env_ok env" "demuxer_ok d" "codecs_step env k f d = (r, d')"
  shows "demuxer_ok d'" and "r = Inr (Some ss) \<Longrightarrow> streams_ok ss"
proof -
  obtain e d2 where a: "applyParamSet env f d = (e, d2)" by force
  note p = applyParamSet_ok [OF assms(1,2) a]
  show "demuxer_ok d'" using assms(2,3) p by (auto simp: codecs_step_def a Let_def split: if_splits option.splits)
  show "streams_ok ss" if "r = Inr (Some ss)"
    using assms(3) that by (auto simp: codecs_step_def a Let_def split: if_splits option.splits dest: buildStreams_ok)
qed

lemma GetCodecs_ok:
  assumes "GetCodecs env d k = Some y" "env_ok env" "demuxer_ok d"
  shows "\<exists>r d' k'. y = (r, d', k') \<and> demuxer_ok d' \<and> (case r of Inl e \<Rightarrow> True | Inr ss \<Rightarrow> streams_ok ss)"
  using assms
proof (induction rule: GetCodecs.raw_induct [rotated 1, consumes 1, case_names step])
  case (step R env d k y)
  show ?case
  proof (cases "ge_ctx_Err env k")
    case None
    show ?thesis
    proof (cases "NextFrame (ge_lib env) (dm_session d) frameTimeoutMS k")
      case (Inl e)
      then show ?thesis using step None by (auto split: if_splits)
    next
      case (Inr f)
      obtain r d' where r: "codecs_step env k f d = (r, d')" by force
      note ok = codecs_step_ok [OF step(3,4) r]
      then show ?thesis
        using step(1) [of env d' "k + 1" y] step(2,3) None Inr r by (cases r) (auto split: option.splits)
    qed
  qed (use step in auto)
qed

text \<open>The life of a demuxer: opened, then any sequence of calls.\<close>

inductive demuxer_state :: "('c, 'm) grab_env \<Rightarrow> 'c Demuxer \<Rightarrow> nat \<Rightarrow> bool" for env where
  opened: "NewDemuxer (ge_lib env) cfg = Inr d \<Longrightarrow> demuxer_state env d 0"
| codecs: "demuxer_state env d k \<Longrightarrow> GetCodecs env d k = Some (r, d', k') \<Longrightarrow> demuxer_state env d' k'"
| packet: "demuxer_state env d k \<Longrightarrow> ReadPacket env d k = Some (r, d', k') \<Longrightarrow> demuxer_state env d' k'"
| closed: "demuxer_state env d k \<Longrightarrow> Close_demuxer env d = (e, d') \<Longrightarrow> demuxer_state env d' k"

lemma demuxer_state_ok:
  assumes "env_ok env"
  shows "demuxer_state env d k \<Longrightarrow> demuxer_ok d"
proof (induction rule: demuxer_state.induct)
  case (opened cfg d)
  then show ?case by (auto simp: NewDemuxer_def split: sum.splits)
next
  case (codecs d k r d' k')
  from GetCodecs_ok [OF codecs(2) assms codecs(3)] show ?case by simp
next
  case (packet d k r d' k')
  from ReadPacket_ok [OF packet(2) assms packet(3)] show ?case by simp
next
  case (closed d k e d')
  then show ?case by (auto simp: Close_demuxer_def demuxer_ok_def Let_def split: prod.splits)
qed



end
