(* ===== verification/Platforms.thy ===== *)
theory Platforms
  imports Edge_App
begin

text \<open>
  The variants of the build: the demuxer without cgo (\<^verbatim>\<open>src/internal/avgrabber/nocgo.go\<close>), the free
  space on Windows (\<^verbatim>\<open>src/pkg/recorder/diskcheck_windows.go\<close>) and the text of the version
  (\<^verbatim>\<open>src/pkg/appinfo/appinfo.go\<close>).
\<close>

subsection \<open>Without cgo\<close>

definition ErrCGORequired :: go_error where
  "ErrCGORequired = ErrorString ''avgrabber: CGO is required for RTSP support''"

datatype stub_demuxer = StubDemuxer

definition nocgo_Version :: "int \<times> int \<times> int" where "nocgo_Version = (0, 0, 0)"

definition nocgo_NewDemuxer :: "Config \<Rightarrow> stub_demuxer result" where
  "nocgo_NewDemuxer cfg = Inl ErrCGORequired"

definition nocgo_GetCodecs :: "stub_demuxer \<Rightarrow> 'st list result" where "nocgo_GetCodecs d = Inl ErrCGORequired"
definition nocgo_ReadPacket :: "stub_demuxer \<Rightarrow> 'pk result" where "nocgo_ReadPacket d = Inl ErrCGORequired"
definition nocgo_Pause :: "stub_demuxer \<Rightarrow> go_error option" where "nocgo_Pause d = Some ErrCGORequired"
definition nocgo_Resume :: "stub_demuxer \<Rightarrow> go_error option" where "nocgo_Resume d = Some ErrCGORequired"
definition nocgo_IsPaused :: "stub_demuxer \<Rightarrow> bool" where "nocgo_IsPaused d = False"
definition nocgo_Close :: "stub_demuxer \<Rightarrow> go_error option" where "nocgo_Close d = None"

text \<open>
  The factory of the edge application over the stub never opens a camera: for a channel that the
  store finds the error is, below its wrapping, the one that asks for cgo.
\<close>

lemma nocgo_opens_nothing:
  "\<exists>e. open_channel nocgo_NewDemuxer ce p sourceID = Inl e
     \<and> (\<forall>ch. GetChannel ce sourceID p = Inr ch \<longrightarrow> errors_Is e ErrCGORequired)"
  by (cases "GetChannel ce sourceID p") (simp_all add: open_channel_def nocgo_NewDemuxer_def)

subsection \<open>Free space\<close>

text \<open>
  On Windows a path with a NUL character is an error, and the call gives the bytes that are available
  and the total as unsigned 64-bit integers, which are converted to signed ones.
\<close>

definition windows_CheckDiskSpace :: "(string \<Rightarrow> (64 word \<times> 64 word) result) \<Rightarrow> string \<Rightarrow> (int \<times> int) result" where
  "windows_CheckDiskSpace GetDiskFreeSpaceEx path =
    (if CHR 0x00 \<in> set path then Inl (PathError EOTHER ''invalid argument'')
     else case GetDiskFreeSpaceEx path of
       Inl e \<Rightarrow> Inl e
     | Inr (freeBytesAvailable, totalNumberOfBytes) \<Rightarrow> Inr (sint freeBytesAvailable, sint totalNumberOfBytes))"

text \<open>
  On a file system of less than eight exbibytes the two platforms report the same: the blocks that Linux
  counts, times their size, are the bytes that Windows counts.
\<close>

theorem disk_space_agrees:
  assumes "ev_statfs env path = Inr (bavail, blocks, bsize)" "0 \<le> bavail" "bavail \<le> blocks" "0 < bsize" "blocks * bsize < 2 ^ 63"
    and "call path = Inr (of_int (bavail * bsize), of_int (blocks * bsize))" "CHR 0x00 \<notin> set path"
  shows "CheckDiskSpace env path = windows_CheckDiskSpace call path
    \<and> windows_CheckDiskSpace call path = Inr (bavail * bsize, blocks * bsize)"
proof -
  have le: "bavail * bsize \<le> blocks * bsize" "0 \<le> bavail * bsize" "0 \<le> blocks * bsize" using assms(2-4) by (simp_all add: mult_right_mono)
  have one: "x \<le> x * bsize" if "0 \<le> x" for x using that assms(4) mult_left_mono [of 1 bsize x] by simp
  have fits: "fits64 (bavail * bsize)" "fits64 (blocks * bsize)" "fits64 bavail" "fits64 blocks"
    using le assms(2,3,5) one [of bavail] one [of blocks] by (simp_all add: fits64_def)
  have s: "sint (of_int x :: 64 word) = x" if "0 \<le> x" "x < 2 ^ 63" for x
    using that by (simp add: signed_of_int signed_take_bit_int_eq_self)
  have words: "sint (of_int (bavail * bsize) :: 64 word) = bavail * bsize" "sint (of_int (blocks * bsize) :: 64 word) = blocks * bsize"
    by (rule s; use le assms(5) in linarith)+
  show ?thesis using assms(1,6,7) fits words
    by (simp add: CheckDiskSpace_def windows_CheckDiskSpace_def del: of_int_mult)
qed

subsection \<open>Version\<close>

definition Version :: string where "Version = ''dev''"
definition GitCommit :: string where "GitCommit = ''unknown''"
definition BuildDate :: string where "BuildDate = ''unknown''"

definition GetVersion :: string where
  "GetVersion = Version @ '' (commit='' @ GitCommit @ '', built='' @ BuildDate @ '')''"

end
