(* ===== verification/Spec2Isabelle.thy ===== *)
theory Spec2Isabelle
  imports Tool_Lifecycle Web_Endpoints Load_Commands Packet_Types Platforms
begin

text \<open>
  A verification development for vrtc, an edge video recorder written in Go.

  \<^bold>\<open>The program.\<close> An edge node opens the RTSP streams of its cameras, records them in segments of
  a few minutes, keeps an index of the segments, deletes old ones by retention policies, and serves live
  and recorded video, timelines and camera management over HTTP and WebSocket. The parts and how they
  work together:

  \<^item> Channel stores (\<^verbatim>\<open>src/pkg/channel\<close>) hold the cameras, schedule sources (\<^verbatim>\<open>src/pkg/schedule\<close>) say when
    to record them; both have a file, a MongoDB and a MySQL variant behind one Go interface.
  \<^item> The grabber (\<^verbatim>\<open>src/internal/avgrabber\<close>) turns the frames of a C library into packets.
  \<^item> The recording manager (\<^verbatim>\<open>src/pkg/recorder\<close>) ticks every 30 seconds: it reads the schedules, adds a
    default one for every other channel, starts, rotates and stops segments, and enforces retention.
    The muxer calls back into it when a segment is opened and closed; both callbacks write the index.
  \<^item> The index (\<^verbatim>\<open>index_sqlite.go\<close>) has one SQLite database per channel in a directory tree.
  \<^item> The view service (\<^verbatim>\<open>src/pkg/edgeview/stream.go\<close>) resolves a playback request on the index and plays
    the segments one after the other; WebSocket sessions (\<^verbatim>\<open>ws_stream.go\<close>) drive it with play, seek, skip
    and pause commands; the HTTP interface (\<^verbatim>\<open>http_handler.go\<close>, \<^verbatim>\<open>http_cameras.go\<close>, \<^verbatim>\<open>http_analytics.go\<close>)
    serves lists, timelines, statistics and streams behind a bearer token, publishes an API document and,
    when it was built in, a user interface (\<^verbatim>\<open>ui_embed.go\<close>); analytics are pushed over \<^verbatim>\<open>ws_analytics.go\<close>.
  \<^item> The edge application (\<^verbatim>\<open>src/internal/edge/app.go\<close>) builds all of this from its configuration, which the
    command (\<^verbatim>\<open>src/cmd/edge\<close>) loads or writes; the cloud node (\<^verbatim>\<open>src/internal/cloud\<close>) is a server without
    sources yet.
  \<^item> Two tools talk to an edge node: an analytics simulator (\<^verbatim>\<open>src/cmd/analytics-tool\<close>) and a load test
    (\<^verbatim>\<open>src/cmd/loadtest\<close>).

  \<^bold>\<open>The theories\<close>, in the order of their imports:

  \<^descr> \<open>Vrtc_Prelude\<close>: what the code uses of Go and its library. Errors are values with their chain of
    wrapped errors (\<open>go_error\<close>), a fallible call returns \<open>go_error + 'a\<close>, an instant is the number of
    nanoseconds since the zero time, and 64-bit integers wrap by \<open>wrap64\<close>.
  \<^descr> \<open>Timestamps\<close>: calendar arithmetic, printing and parsing of RFC 3339 times, the order of printed
    times compared with the order of instants, and the segment paths of \<^verbatim>\<open>namer.go\<close>.
  \<^descr> \<open>Schedules\<close>: the three schedule sources and the interface \<open>schedule_source\<close>, interpreted on each.
  \<^descr> \<open>Channels\<close>: the three channel stores, the interfaces \<open>channel_source\<close> and \<open>channel_writer\<close> (laws for
    reading after saving and deleting, on an abstract map), and their interpretation on all stores.
  \<^descr> \<open>Recording_Types\<close>: entries, their states, and the locale \<open>recording_index\<close>, the contract of an index
    on an abstract view from channel and identifier to entry.
  \<^descr> \<open>Retention\<close>: \<^verbatim>\<open>retention.go\<close>; its loops refine the specification that deletes the expired entries and
    the shortest run of oldest ones.
  \<^descr> \<open>Record_Index\<close>: the SQLite index over a tree of tables with its cache of opened databases; its
    operations refine the operations on the abstract view, and time ranges are exact up to a second.
  \<^descr> \<open>Recorder\<close>: the manager with its callbacks. A tick refines a slot specification per schedule;
    retention never removes the file of an entry that is still visible; a completed segment replaces its
    marker; a marker left by a crash is sealed; the invariant holds after every sequence of ticks and
    callbacks (\<open>rec_step\<close>).
  \<^descr> \<open>Playback\<close>: playback start, the chained source with following and its gap detection, and
    opening at a time.
  \<^descr> \<open>Stream_Session\<close>: the commands of a WebSocket session as state transformers with a log of acquired
    and released resources and of messages sent.
  \<^descr> \<open>Go_Format\<close>: how Go rounds and prints durations and floating-point numbers, and the width of a
    printed text. Printing a duration and parsing it again is the identity.
  \<^descr> \<open>Http_Api\<close>, \<open>Camera_Api\<close>: authentication, paging, timelines, statistics, streams; camera management
    and its CSV files over any store that meets \<open>channel_writer\<close>.
  \<^descr> \<open>Annex_B\<close>: the byte level of the grabber, \<^verbatim>\<open>convert.go\<close>: the index scan equals a splitter on the rest
    of the bytes, and re-framing loses nothing but parameter sets.
  \<^descr> \<open>Grabber\<close>: session and demuxer: when codecs are announced, when the reading loops return, and how
    long decode times are exact.
  \<^descr> \<open>Collector\<close>: the names of the metrics and the collector; its snapshot agrees with the statistics of the HTTP interface.
  \<^descr> \<open>Packet_Types\<close>: a type discipline for packets and streams, kept by every call of a demuxer.
  \<^descr> \<open>Edge_App\<close>: start-up; a started application records every channel of its file and releases
    everything it opened in reverse order.
  \<^descr> \<open>Bootstrap\<close>: paths, configuration files and the two commands over an explicit disk. The locale
    \<open>config_command\<close> is what a command with a configuration file does, interpreted for both; the first
    start of the edge command works on an empty disk, and starting again changes nothing.
  \<^descr> \<open>Router\<close>: the route table and the API document as \<^verbatim>\<open>newRouter\<close> registers them. The router of the library
    is a parameter with its documented precedence. Document and routes agree, and with a token every
    endpoint but the public ones is guarded.
  \<^descr> \<open>Platforms\<close>: the demuxer of builds without cgo, the free space on Windows, which agrees with the one
    on Linux, and the text of the version.
  \<^descr> \<open>Web_Endpoints\<close>: the analytics WebSocket, the user interface, metrics, writers, and the export of the
    API document by a handler over stubs, which is the document a running application serves.
  \<^descr> \<open>Service_Loops\<close>: the goroutines. The locale \<open>select_loop\<close> is a loop over a ticker and a context,
    interpreted for the recorder, the collector and the health log; \<open>terminating_node\<close> is a node that ends on
    request, interpreted for the step relations of the cloud node and of the edge application's servers.
  \<^descr> \<open>Analytics_Tool\<close>, \<open>Tool_Lifecycle\<close>: the simulator. What it sends belongs to frames it received, in
    order; its goroutines with the mutex of their stream are a step relation and the third
    interpretation of \<open>terminating_node\<close>.
  \<^descr> \<open>Load_Test\<close>, \<open>Load_Commands\<close>: the load test: accounting, statistics and gap analysis, then flags,
    commands and output. The figures are between the smallest and the largest measurement whatever
    the floating-point rounding, the gap analysis adds up, and the continuity test, put together with the
    edge node's route table, authentication and index, analyses exactly the first hundred entries of
    the index.
  \<^descr> This theory: properties that span components. Calls of the camera endpoints decide, through the
    store, what the next tick records; a segment that the recorder files is listed by the timeline.

  \<^bold>\<open>State and effects.\<close> A struct is a record, an interface value of another component is a record of
  functions or a locale, and a method that changes its receiver returns the changed record. Files and
  tables are part of the state. Code that is not in the repository (the SDK with its muxers, hubs and
  codec parsers, SQL and document drivers, the C library) is an argument, a field of an environment
  record; what is assumed of it is a hypothesis of the theorem. Mutexes are taken for the whole of each
  modelled operation; interleavings are sequences of operations or runs of a step relation.
  Floating-point numbers are rationals; where a result depends on rounding, rounding is a parameter.

  \<^bold>\<open>Loops and fuel.\<close> Loops over a list are recursions on it. The scan of a byte stream terminates
  because the index grows (a measure); the digits of a duration are read with as much fuel as the text
  is long, which is enough as each step consumes a character. The polling loops of the playback source run over the
  list of ticks that the environment gives them. The two reading loops of the demuxer may run
  forever: they are partial functions with the value \<open>None\<close> when they do, and when they return is a
  theorem.

  \<^bold>\<open>What the theorems found.\<close> Some properties and lemmas state behaviour that the code does not intend:
  the first save into a missing channel file fails; retention cannot be configured through any source;
  text order inverts recordings of the same second; interrupted recordings are invisible to range
  queries; deleting an entry of a channel whose database is closed does nothing; a second play command
  leaks a viewer; the gap behind the first segment of a playback is never noted; the metrics middleware disables flushing; decode times wrap after 28 hours at 90 kHz;
  a configuration file that does not parse is overwritten; cameras named like a fixed path are
  unreachable; the edge application drops the error of its HTTP server and does not wait for its
  shutdown, the cloud node does not notice that its servers have failed; the load test shows no errors
  when no client connects, its uptime hides gaps, its continuity test takes a refused request for an
  empty index, its table is not straight and its JSON is lost when the duration is zero.

  \<^bold>\<open>Not modelled.\<close> The libraries: HTTP, gRPC and WebSocket servers and clients, chi's matching, huma's
  validation, viper, cobra and the parsing of a command line, zerolog and its rotation, the hubs and the
  analytics store of the SDK, JSON reading and writing below the level of values. Of the program itself:
  the texts of the API document, the CORS settings and outer middleware of the edge application, the
  constructor of a playback hub, which only calls the SDK, reading a WebSocket command, which only calls
  the JSON reader, the nil test by reflection, the initialisation and version calls of the C library, and
  declarations without behaviour (interfaces, type aliases, shapes of request and reply bodies beyond
  the fields that are used). Data races below the level of whole operations are outside of the model.
\<close>

subsection \<open>Cameras: from the API over the store to the recorder\<close>

text \<open>Calls of the camera endpoints, and what they mean for the set of configured cameras.\<close>

datatype camera_call = PutCamera string Channel | DeleteCamera string

primrec serve_call :: "'p ChannelWriter \<Rightarrow> go_error \<Rightarrow> camera_call \<Rightarrow> ('p, 'ix) camera_api \<Rightarrow> ('p, 'ix) camera_api" where
  "serve_call ops nf (PutCamera i body) api = snd (upsertCamera ops i body api)"
| "serve_call ops nf (DeleteCamera i) api = snd (deleteCamera ops nf i api)"

primrec call_effect :: "camera_call \<Rightarrow> (string \<rightharpoonup> Channel) \<Rightarrow> (string \<rightharpoonup> Channel)" where
  "call_effect (PutCamera i body) m = (if ch_StreamURL body = [] then m else m(i \<mapsto> body\<lparr>ch_ID := i\<rparr>))"
| "call_effect (DeleteCamera i) m = m(i := None)"

lemma RegisterCamera_dom: "dom (map_of (sv_cameras (RegisterCamera c s))) = insert (cam_CameraID c) (dom (map_of (sv_cameras s)))"
  by (simp add: RegisterCamera_def update_conv' dom_fun_upd)

lemma UnregisterCamera_dom: "dom (map_of (sv_cameras (UnregisterCamera i s))) = dom (map_of (sv_cameras s)) - {i}"
  by (auto simp: UnregisterCamera_def delete_conv')

context channel_writer
begin

lemma serve_call_effect:
  assumes "inv (ap_store api)" "calm (ap_store api)" "dom (map_of (sv_cameras (ap_svc api))) = dom (view (ap_store api))"
  shows "inv (ap_store (serve_call ops nf c api)) \<and> calm (ap_store (serve_call ops nf c api))
    \<and> view (ap_store (serve_call ops nf c api)) = call_effect c (view (ap_store api))
    \<and> dom (map_of (sv_cameras (ap_svc (serve_call ops nf c api)))) = dom (call_effect c (view (ap_store api)))"
proof (cases c)
  case (PutCamera i body)
  let ?ch = "body\<lparr>ch_ID := i\<rparr>"
  obtain p where p: "cw_SaveChannel ops ?ch (ap_store api) = (None, p)" "calm p" using save_calm [OF assms(1,2)] by blast
  then show ?thesis
    using assms save_inv [OF assms(1) p(1)] save_ok [OF assms(1) p(1)]
    by (simp add: PutCamera upsertCamera_def Let_def RegisterCamera_dom active_camera_def)
next
  case (DeleteCamera i)
  show ?thesis
  proof (cases "view (ap_store api) i = None")
    case True
    then obtain e where "cw_DeleteChannel ops i (ap_store api) = (Some e, ap_store api)"
      using delete_calm_missing [OF assms(1,2)] by blast
    then show ?thesis using assms True by (simp add: DeleteCamera deleteCamera_def fun_upd_idem)
  next
    case False
    then obtain p where p: "cw_DeleteChannel ops i (ap_store api) = (None, p)" "calm p" using delete_calm [OF assms(1,2)] by blast
    then show ?thesis
      using assms delete_inv [OF assms(1) p(1)] delete_ok [OF assms(1) p(1)]
      by (simp add: DeleteCamera deleteCamera_def UnregisterCamera_dom)
  qed
qed

lemma serve_calls_effect:
  assumes "inv (ap_store api)" "calm (ap_store api)" "dom (map_of (sv_cameras (ap_svc api))) = dom (view (ap_store api))"
  shows "inv (ap_store (fold (serve_call ops nf) cs api)) \<and> calm (ap_store (fold (serve_call ops nf) cs api))
    \<and> view (ap_store (fold (serve_call ops nf) cs api)) = fold call_effect cs (view (ap_store api))
    \<and> dom (map_of (sv_cameras (ap_svc (fold (serve_call ops nf) cs api)))) = dom (fold call_effect cs (view (ap_store api)))"
  using assms
proof (induction cs arbitrary: api)
  case (Cons c cs)
  note step = serve_call_effect [OF Cons.prems, of c]
  then show ?case using Cons.IH [of "serve_call ops nf c api"] by simp
qed simp

end

lemma list_channels_dom:
  assumes "provider_inv ce p" "provider_calm ce p"
  obtains chs where "ListChannels ce p = Inr chs" "ch_ID ` set chs = dom (provider_view p)"
proof -
  obtain chs where l: "cw_ListChannels (provider_ops ce) p = Inr chs" using cp.list_calm [OF assms] by blast
  have "dom (keyed ch_ID chs) = ch_ID ` set chs" by (rule set_eqI) (metis domIff keyed_None)
  then show thesis using that [of chs] l cp.list_view [OF assms(1) l] by simp
qed

lemma slot_keeps_recording:
  assumes "plain s" "\<exists>h. ev_Consume env (sc_ChannelID s) (''recorder-'' @ sc_ID s @ ''-'' @ fmt_compact now) = Inr h"
    and "\<And>ar. old = Some ar \<Longrightarrow> sc_ChannelID (ar_sched ar) = sc_ChannelID s"
  shows "\<exists>ar. slot env now s old = Some ar \<and> sc_ChannelID (ar_sched ar) = sc_ChannelID s"
  using assms by (cases old) (auto simp: slot_def started_def disk_too_low_def plain_def)

text \<open>Every active recording that a schedule would meet under its identifier is one of that schedule's channel.\<close>

definition filed_for :: "Schedule list \<Rightarrow> sqliteIndex RecordingManager \<Rightarrow> bool" where
  "filed_for ss rm \<longleftrightarrow> (\<forall>s \<in> set ss. \<forall>ar. map_of (rm_active rm) (sc_ID s) = Some ar \<longrightarrow> sc_ChannelID (ar_sched ar) = sc_ChannelID s)"

lemma tick_records_exactly:
  assumes "ev_ListSchedules env = Inr ss" "all = appendDefaults env rm ss" "distinct (map sc_ID all)"
    and "\<forall>s \<in> set all. ev_IsActive env s (ev_now env)" "\<forall>ch cid. \<exists>h. ev_Consume env ch cid = Inr h"
    and "\<forall>s \<in> set all. plain s" "filed_for all rm" "manager_inv rm" "ev_ops env = sqlite_ops ie"
  shows "ActiveChannels (tick env rm) = sc_ChannelID ` set all"
proof -
  have active: "all = active_schedules env (ev_now env) (appendDefaults env rm ss)"
    using assms(2,4) by (simp add: active_schedules_def)
  note slots = tick_active_map [OF assms(1) active assms(3)]
  have keep: "\<exists>ar. slot env (ev_now env) s (map_of (rm_active rm) (sc_ID s)) = Some ar \<and> sc_ChannelID (ar_sched ar) = sc_ChannelID s"
    if "s \<in> set all" for s
    using that assms(5-7) by (intro slot_keeps_recording) (auto simp: filed_for_def)
  have find: "find (\<lambda>t. sc_ID t = sc_ID s) all = Some s" if "s \<in> set all" for s using find_key_unique [OF assms(3) that] .
  have dist: "distinct (map fst (rm_active (tick env rm)))" using tick_inv [OF assms(9,8)] by (simp add: manager_inv_def)
  show ?thesis
  proof (intro equalityI subsetI)
    fix ch assume "ch \<in> ActiveChannels (tick env rm)"
    then obtain i ar where ar: "map_of (rm_active (tick env rm)) i = Some ar" "sc_ChannelID (ar_sched ar) = ch"
      using dist by (auto simp: ActiveChannels_def)
    then obtain s where s: "find (\<lambda>t. sc_ID t = i) all = Some s" "slot env (ev_now env) s (map_of (rm_active rm) i) = Some ar"
      using slots [of i] by (auto split: option.splits)
    then have "s \<in> set all" "sc_ID s = i" by (auto simp: find_Some_iff)
    then show "ch \<in> sc_ChannelID ` set all" using keep [of s] s(2) ar(2) by auto
  next
    fix ch assume "ch \<in> sc_ChannelID ` set all"
    then obtain s where s: "s \<in> set all" "ch = sc_ChannelID s" by blast
    obtain ar where "map_of (rm_active (tick env rm)) (sc_ID s) = Some ar" "sc_ChannelID (ar_sched ar) = ch"
      using slots [of "sc_ID s"] keep [OF s(1)] find [OF s(1)] s(2) by auto
    then show "ch \<in> ActiveChannels (tick env rm)" by (force simp: ActiveChannels_def dest: map_of_SomeD)
  qed
qed

lemma appendDefaults_channels:
  assumes "rm_hasChannels rm" "ev_ListChannels env = Inr chs"
  shows "sc_ChannelID ` set (appendDefaults env rm ss) = sc_ChannelID ` set ss \<union> set chs"
proof -
  have "sc_ChannelID (default_schedule p ch) = ch" for p ch by (simp add: default_schedule_def)
  then show ?thesis using assms by (auto simp: appendDefaults_def Let_def image_Un image_image)
qed

text \<open>
  C8: cameras are recorded as the API says. Start from a channel store and a service that shows its
  channels, over any of the three stores, let clients put and delete cameras in any order, and let the
  recorder tick with schedules it can follow: then the service shows, and the recorder is recording,
  exactly the cameras that were in the store or put and not deleted since, plus those the schedules
  name.
\<close>

theorem recording_follows_api:
  assumes "provider_inv (ae_chan env) (ap_store api)" "provider_calm (ae_chan env) (ap_store api)"
    and "dom (map_of (sv_cameras (ap_svc api))) = dom (provider_view (ap_store api))"
    and "api' = fold (serve_call (provider_ops (ae_chan env)) (ce_ErrChannelNotFound (ae_chan env))) calls api"
    and "renv = app_rec_env env (ap_store api') scheds base" "ev_ops base = sqlite_ops ie" "file_ListSchedules scheds = Inr ss"
    and "manager_inv rm" "rm_hasChannels rm" "all = appendDefaults renv rm ss" "distinct (map sc_ID all)" "filed_for all rm"
    and "\<forall>s \<in> set all. ev_IsActive renv s (ev_now renv)" "\<forall>ch cid. \<exists>h. ev_Consume renv ch cid = Inr h"
    and "cameras = dom (fold call_effect calls (provider_view (ap_store api)))"
  shows "dom (map_of (sv_cameras (ap_svc api'))) = cameras \<and> ActiveChannels (tick renv rm) = sc_ChannelID ` set ss \<union> cameras"
proof -
  note served = cp.serve_calls_effect [OF assms(1-3), of calls, folded assms(4)]
  then obtain chs where chs: "ListChannels (ae_chan env) (ap_store api') = Inr chs" "ch_ID ` set chs = cameras"
    using list_channels_dom [of "ae_chan env" "ap_store api'"] assms(15) by metis
  have src: "ev_ListSchedules renv = Inr ss" "ev_ListChannels renv = Inr (map ch_ID chs)" "ev_ops renv = sqlite_ops ie"
    using assms(5-7) chs(1) by (simp_all add: app_rec_env_def channelAdapter_def)
  have "\<forall>s \<in> set ss. plain s" using file_source.ListSchedules_plain [OF assms(7)] by blast
  then have "\<forall>s \<in> set all. plain s" using appendDefaults_plain assms(10) by blast
  from tick_records_exactly [OF src(1) assms(10,11,13,14) this assms(12,8) src(3)]
  show ?thesis using appendDefaults_channels [OF assms(9) src(2), of ss] assms(10,15) chs(2) served by simp
qed

definition api0 :: "(channel_provider, sqliteIndex) camera_api" where
  "api0 = \<lparr>ap_store = provider0, ap_svc = RegisterCamera (active_camera camera0) (NewService None False [])\<rparr>"

definition calls0 :: "camera_call list" where
  "calls0 = [PutCamera ''b'' camera0, DeleteCamera ''a'']"

lemma api0_ok:
  "provider_inv chan_env0 (ap_store api0)" "provider_calm chan_env0 (ap_store api0)" "provider_view (ap_store api0) = [''a'' \<mapsto> camera0]"
  "dom (map_of (sv_cameras (ap_svc api0))) = {''a''}"
  by (simp_all add: api0_def provider0_def chan_env0_ok camera0_def RegisterCamera_dom active_camera_def NewService_def)

lemma calls0_effect: "fold call_effect calls0 [''a'' \<mapsto> camera0] = [''b'' \<mapsto> camera0\<lparr>ch_ID := ''b''\<rparr>]"
  by (simp add: calls0_def camera0_def fun_upd_twist)

lemma calls0_store: "ap_store (fold (serve_call (provider_ops chan_env0) (ce_ErrChannelNotFound chan_env0)) calls0 api0)
    = FileProvider \<lparr>cf_path = ''c'', cf_content = ChannelList [camera0\<lparr>ch_ID := ''b''\<rparr>]\<rparr>"
  by (simp add: calls0_def api0_def provider0_def upsertCamera_def deleteCamera_def file_SaveChannel_def file_DeleteChannel_def load_def
      save_def chan_env0_def camera0_def Let_def)

lemma recording_follows_api_witness:
  "\<exists>api'. api' = fold (serve_call (provider_ops chan_env0) (ce_ErrChannelNotFound chan_env0)) calls0 api0
     \<and> ActiveChannels (tick (app_rec_env app_env0 (ap_store api') schedules0 rec_env0) manager0) = {''b''}"
proof -
  let ?api = "fold (serve_call (provider_ops chan_env0) (ce_ErrChannelNotFound chan_env0)) calls0 api0"
  let ?env = "app_rec_env app_env0 (ap_store ?api) schedules0 rec_env0"
  have ss: "file_ListSchedules schedules0 = Inr []" by (simp add: file_ListSchedules_def schedules0_def)
  have c: "ae_chan app_env0 = chan_env0" by (simp add: app_env0_def)
  have src: "ev_ops rec_env0 = sqlite_ops env0" "ev_ListChannels ?env = Inr [''b'']"
    by (simp_all add: rec_env0_def app_rec_env_def channelAdapter_def c calls0_store file_ListChannels_def load_def)
      (simp add: chan_env0_def)
  have rm: "manager_inv manager0" "rm_hasChannels manager0" "rm_active manager0 = []"
    using index_inv_index1 by (simp_all add: manager_inv_def manager0_def New_def Second_def)
  have "distinct (map sc_ID (appendDefaults ?env manager0 []))" "filed_for (appendDefaults ?env manager0 []) manager0"
    using src(2) rm by (simp_all add: appendDefaults_def filed_for_def)
  from recording_follows_api [of app_env0 api0 ?api calls0 ?env schedules0 rec_env0 env0 "[]" manager0, OF _ _ _ _ refl src(1) ss rm(1,2) refl this]
  have "ActiveChannels (tick ?env manager0) = {''b''}"
    using api0_ok calls0_effect by (simp add: c) (simp add: app_rec_env_def rec_env0_def)
  then show ?thesis by simp
qed

subsection \<open>Segments: from the recorder over the index to the timeline\<close>

text \<open>The path under which a closed segment is filed: its final name, or the old one when the rename fails.\<close>

definition closed_path :: "'ix rec_env \<Rightarrow> Schedule \<Rightarrow> SegmentCloseInfo \<Rightarrow> string" where
  "closed_path env s info =
    (let final = SegmentPathFinal (sc_StoragePath s) (sc_ChannelID s) (ci_Start info) (ci_End info)
     in if ev_Rename env (ci_Path info) final = None then final else ci_Path info)"

lemma closed_segment_indexed:
  assumes "ev_ops env = sqlite_ops ie" "index_inv (rm_index rm)" "fmt_range (ci_Start info)" "fmt_range (ci_End info)"
    and "e = completion_entry s info (closed_path env s info)" "fst (Insert ie e (rm_index rm)) = Inr ()"
    and "ix = rm_index (makeOnCloseCallback env s info rm)"
  shows "index_inv ix" "index_view_of ie ix (sc_ChannelID s) (re_ID e) = Some e"
proof -
  have "Insert ie e (rm_index rm) = (Inr (), ix)"
    using assms(1,5-7) by (simp add: makeOnCloseCallback_index closed_path_def sqlite_ops_def prod_eq_iff)
  note ins = Insert_correct [OF assms(2) _ this]
  have e: "storable e" "re_ChannelID e = sc_ChannelID s" "stored e = e"
    unfolding assms(5) by (fact storable_completion [OF assms(3,4)], simp_all add: completion_entry_def stored_def)
  show "index_inv ix" "index_view_of ie ix (sc_ChannelID s) (re_ID e) = Some e"
    using ins [OF e(1)] e(2,3) by (simp_all add: put_entry_def)
qed

text \<open>
  C9: a recorded segment reaches the timeline. When the recorder's callback files a segment that closed
  without a validation error, under its final name or, if renaming fails, under its old one, a timeline
  request for the camera whose window holds the segment, with a second to spare, and whose page holds
  the result lists it with its times and size.
\<close>

theorem segment_reaches_timeline:
  assumes "ev_ops env = sqlite_ops ie" "index_inv (rm_index rm)" "fmt_range (ci_Start info)" "fmt_range (ci_End info)"
    and "e = completion_entry s info (closed_path env s info)" "fst (Insert ie e (rm_index rm)) = Inr ()"
    and "ci_ValidationError info = None"
    and "pe_ops (he_play henv) = sqlite_ops ie" "sv_recIndex (hh_svc h) = Some (rm_index (makeOnCloseCallback env s info rm))"
    and "humaRecordingTimeline henv input h = (Inr (Some p), h')"
    and "ti_CameraID input = sc_ChannelID s" "pi_Offset input = 0" "pg_TotalCount p \<le> pg_Limit p"
    and "parseOptionalTimeRange (he_parse henv) (he_now henv) (ti_Start input) (ti_End input) = Inr (t0, t1)"
    and "fmt_range t0" "fmt_range t1" "t0 + Second \<le> ci_End info" "ci_Start info + Second \<le> t1"
  shows "\<exists>item \<in> set (pg_Items p). te_ID item = entry_id s (ci_Start info) \<and> te_Start item = ci_Start info
    \<and> te_End item = ci_End info \<and> te_SizeBytes item = ci_SizeBytes info \<and> te_Status item = StatusComplete"
proof -
  note ix = closed_segment_indexed [OF assms(1-6) refl]
  obtain es ix' where q: "QueryByChannel ie (sc_ChannelID s) t0 t1 (rm_index (makeOnCloseCallback env s info rm)) = (Inr es, ix')"
    and p: "page (paginatedInput.truncate input) (map timeline_entry es) = Some p"
    using assms(8-11,14)
    by (auto simp: humaRecordingTimeline_def timeline_page_def Timeline_def sqlite_ops_def split: prod.splits sum.splits)
  have "e \<in> set es"
    using assms(7,17,18) by (intro QueryByChannel_complete [OF ix(1) q assms(15,16) ix(2)]) (simp_all add: assms(5) playable_def completion_entry_def)
  moreover have o: "pi_Offset (paginatedInput.truncate input) = 0" using assms(12) by (simp add: paginatedInput.defs)
  then have "pg_Items p = map timeline_entry es"
    using page_valid [of "paginatedInput.truncate input" "map timeline_entry es"] p assms(13) by auto
  ultimately have "timeline_entry e \<in> set (pg_Items p)" by simp
  then show ?thesis
    by (rule bexI [rotated]) (use assms(7) in \<open>simp add: timeline_entry_def assms(5) completion_entry_def\<close>)
qed

lemma segment_reaches_timeline_witness:
  "\<exists>rm p h'. rm = makeOnCloseCallback rec_env0 sched0 info0 empty_manager
     \<and> humaRecordingTimeline http_env0 window0 (handler0\<lparr>hh_svc := service0\<lparr>sv_recIndex := Some (rm_index rm)\<rparr>\<rparr>) = (Inr (Some p), h')
     \<and> (\<exists>item \<in> set (pg_Items p). te_Start item = 1000000000 \<and> te_End item = 301000000000)"
proof -
  let ?e = "completion_entry sched0 info0 (closed_path rec_env0 sched0 info0)"
  let ?rm = "makeOnCloseCallback rec_env0 sched0 info0 empty_manager"
  let ?h = "handler0\<lparr>hh_svc := service0\<lparr>sv_recIndex := Some (rm_index ?rm)\<rparr>\<rparr>"
  have r: "fmt_range (ci_Start info0)" "fmt_range (ci_End info0)" "fmt_range 1" "fmt_range (24 * Hour + 1)" "ci_ValidationError info0 = None"
    by (simp_all add: fmt_range_def info0_def go_simps)
  have ops: "ev_ops rec_env0 = sqlite_ops env0" by (simp add: rec_env0_def)
  have ins: "Insert env0 ?e (rm_index empty_manager) = (Inr (), index_with [row_of ?e])"
    using Insert_index_with [of ?e "[]"] by (simp add: sched0_ch empty_manager_def insert_or_replace_def completion_entry_def)
  then have ix: "rm_index ?rm = index_with [row_of ?e]"
    using ops by (simp add: makeOnCloseCallback_index closed_path_def sqlite_ops_def Let_def)
  have e: "storable ?e" "playable ?e" "re_ChannelID ?e = ''c''"
    using r(5) by (simp add: storable_completion [OF r(1,2)], simp_all add: completion_entry_def playable_def sched0_ch)
  have o: "0 \<le> pi_Offset (paginatedInput.truncate window0)" "pi_Offset window0 = 0" "effectiveLimit (paginatedInput.truncate window0) = 100"
    by (simp_all add: window0_def paginatedInput.defs effectiveLimit_def)
  have f: "he_play http_env0 = play_env0" "ti_CameraID window0 = ''c''" by (simp_all add: http_env0_def window0_def)
  define es where "es = (if row_selected 1 (24 * Hour + 1) (row_of ?e) then [stored ?e] else [])"
  have "QueryByChannel env0 ''c'' 1 (24 * Hour + 1) (rm_index ?rm) = (Inr es, rm_index ?rm)"
    unfolding ix es_def by (rule single_entry(3) [OF e])
  then obtain h' where tl: "humaRecordingTimeline http_env0 window0 ?h = (Inr (page (paginatedInput.truncate window0) (map timeline_entry es)), h')"
    using service0_fields(1) window0_range by (simp add: humaRecordingTimeline_def timeline_page_def Timeline_def f sqlite_ops_def)
  moreover have "length es \<le> 1" by (simp add: es_def)
  ultimately obtain p where p: "humaRecordingTimeline http_env0 window0 ?h = (Inr (Some p), h')" "pg_TotalCount p \<le> pg_Limit p"
    using page_valid [OF o(1), of "map timeline_entry es"] o(3) by simp
  have t: "ci_Start info0 = 1000000000" "ci_End info0 = 301000000000" by (simp_all add: info0_def)
  have w: "1 + Second \<le> ci_End info0" "ci_Start info0 + Second \<le> 24 * Hour + 1" by (simp_all add: t go_simps)
  have h: "pe_ops (he_play http_env0) = sqlite_ops env0" "sv_recIndex (hh_svc ?h) = Some (rm_index ?rm)"
    "ti_CameraID window0 = sc_ChannelID sched0" "fst (Insert env0 ?e (rm_index empty_manager)) = Inr ()"
    using service0_fields(1) ins by (simp_all add: f sched0_ch)
  show ?thesis
    using segment_reaches_timeline [OF ops inv_empty r(1,2) refl h(4) r(5) h(1,2) p(1) h(3) o(2) p(2) window0_range r(3,4) w] p(1)
    unfolding t by blast
qed

end
